(* ===== verification/Prelude.thy ===== *)
theory Prelude
  imports Main "HOL-Library.Word" "HOL-Library.Finite_Map" "HOL-Library.Product_Lexorder"
begin

text \<open>
  What every component of the model shares: the machine integers, the \<open>Result\<close> type of the
  source and its \<open>?\<close> operator, the loops over a slice that stop at the first error, hash maps
  with \<open>retain\<close>, and the generic facts about them that the component proofs use.
\<close>

named_theorems res_simps \<open>unfolding of the \<open>Result\<close> combinators\<close>
named_theorems hmap_simps \<open>look-ups in updated hash maps\<close>

section \<open>Machine integers\<close>

type_synonym u8 = "8 word"
type_synonym u16 = "16 word"
type_synonym u32 = "32 word"

text \<open>A counter below its maximum does not wrap.\<close>

lemma unat_add_one: "w \<noteq> -1 \<Longrightarrow> unat (w + 1) = Suc (unat w)" for w :: "'a::len word"
proof -
  assume "w \<noteq> -1"
  then have "1 + w \<noteq> 0" by (metis add.commute add_diff_cancel_right' diff_0)
  then show ?thesis using unatSuc [of w] by (simp add: add.commute)
qed

section \<open>Results\<close>

declare split_paired_All [simp del] split_paired_Ex [simp del]

text \<open>
  \<open>anyhow::Result<T>\<close> is a sum: \<open>Inl\<close> carries the error, \<open>Inr\<close> the value. \<open>and_then r f\<close> is
  the code that follows \<open>r?\<close>, \<open>map_err\<close> is \<open>with_context\<close> on a result and \<open>ok_or\<close> is
  \<open>with_context\<close> on an option.
\<close>

fun and_then :: "'e + 'a \<Rightarrow> ('a \<Rightarrow> 'e + 'b) \<Rightarrow> 'e + 'b" where
  "and_then (Inl e) f = Inl e"
| "and_then (Inr x) f = f x"

fun map_err :: "('e \<Rightarrow> 'e2) \<Rightarrow> 'e + 'a \<Rightarrow> 'e2 + 'a" where
  "map_err g (Inl e) = Inl (g e)"
| "map_err g (Inr x) = Inr x"

fun ok_or :: "'e \<Rightarrow> 'a option \<Rightarrow> 'e + 'a" where
  "ok_or e None = Inl e"
| "ok_or e (Some x) = Inr x"

fun is_ok :: "'e + 'a \<Rightarrow> bool" where
  "is_ok (Inl e) = False"
| "is_ok (Inr x) = True"

lemma and_then_Inr_iff [res_simps]:
  "and_then r f = Inr y \<longleftrightarrow> (\<exists>x. r = Inr x \<and> f x = Inr y)"
  by (cases r) auto

lemma and_then_Inl_iff [res_simps]:
  "and_then r f = Inl e \<longleftrightarrow> r = Inl e \<or> (\<exists>x. r = Inr x \<and> f x = Inl e)"
  by (cases r) auto

lemma map_err_Inr_iff [res_simps]: "map_err g r = Inr x \<longleftrightarrow> r = Inr x"
  by (cases r) auto

lemma map_err_Inl_iff [res_simps]: "map_err g r = Inl e \<longleftrightarrow> (\<exists>e'. r = Inl e' \<and> e = g e')"
  by (cases r) auto

lemma ok_or_Inr_iff [res_simps]: "ok_or e r = Inr x \<longleftrightarrow> r = Some x"
  by (cases r) auto

lemma ok_or_Inl_iff [res_simps]: "ok_or e r = Inl e' \<longleftrightarrow> r = None \<and> e' = e"
  by (cases r) auto

lemma is_ok_iff: "is_ok r \<longleftrightarrow> (\<exists>x. r = Inr x)"
  by (cases r) auto

lemma not_is_ok_iff: "\<not> is_ok r \<longleftrightarrow> (\<exists>e. r = Inl e)"
  by (cases r) auto

text \<open>\<open>for x in xs { f(x)?; }\<close>: the first error ends the loop.\<close>

fun try_each :: "('a \<Rightarrow> 'e + unit) \<Rightarrow> 'a list \<Rightarrow> 'e + unit" where
  "try_each f [] = Inr ()"
| "try_each f (x # xs) = and_then (f x) (\<lambda>_. try_each f xs)"

lemma try_each_ok [res_simps]: "try_each f xs = Inr () \<longleftrightarrow> (\<forall>x \<in> set xs. f x = Inr ())"
  by (induction xs) (auto simp: res_simps)

text \<open>
  \<open>for x in xs { chk(x)?; if seen.insert(key(x), ()).is_some() { bail!(dup(x)) } }\<close>, the loop
  by which the validators reject a repeated key; \<open>seen\<close> is the set of the keys inserted so far.
\<close>

fun scan_unique ::
  "('a \<Rightarrow> 'e + unit) \<Rightarrow> ('a \<Rightarrow> 'k) \<Rightarrow> ('a \<Rightarrow> 'e) \<Rightarrow> 'k set \<Rightarrow> 'a list \<Rightarrow> 'e + unit" where
  "scan_unique chk key dup seen [] = Inr ()"
| "scan_unique chk key dup seen (x # xs) =
     and_then (chk x) (\<lambda>_.
       if key x \<in> seen then Inl (dup x)
       else scan_unique chk key dup (insert (key x) seen) xs)"

lemma scan_unique_ok [res_simps]:
  "scan_unique chk key dup seen xs = Inr () \<longleftrightarrow>
     (\<forall>x \<in> set xs. chk x = Inr ()) \<and> distinct (map key xs) \<and> key ` set xs \<inter> seen = {}"
  by (induction xs arbitrary: seen) (auto simp: res_simps)

section \<open>Lists\<close>

text \<open>\<open>iter_mut().find(p)\<close> followed by an update of what it found; \<open>None\<close> when nothing matches.\<close>

fun update_first :: "('a \<Rightarrow> bool) \<Rightarrow> ('a \<Rightarrow> 'a) \<Rightarrow> 'a list \<Rightarrow> 'a list option" where
  "update_first p f [] = None"
| "update_first p f (x # xs) =
     (if p x then Some (f x # xs) else map_option ((#) x) (update_first p f xs))"

lemma update_first_None: "update_first p f xs = None \<longleftrightarrow> (\<forall>x \<in> set xs. \<not> p x)"
  by (induction xs) auto

lemma update_first_split:
  assumes "update_first p f xs = Some ys"
  obtains us x vs where "xs = us @ x # vs" "ys = us @ f x # vs" "p x" "\<forall>u \<in> set us. \<not> p u"
  using assms
proof (induction xs arbitrary: ys thesis)
  case Nil
  then show ?case by simp
next
  case (Cons a xs)
  show ?case
  proof (cases "p a")
    case True
    with Cons.prems(2) have "ys = f a # xs" by simp
    with True show ?thesis by (intro Cons.prems(1) [of "[]" a xs]) auto
  next
    case False
    with Cons.prems(2) obtain zs where zs: "update_first p f xs = Some zs" "ys = a # zs" by auto
    show ?thesis
    proof (rule Cons.IH [OF _ zs(1)])
      fix us x vs
      assume "xs = us @ x # vs" "zs = us @ f x # vs" "p x" "\<forall>u \<in> set us. \<not> p u"
      with False zs(2) show thesis by (intro Cons.prems(1) [of "a # us" x vs]) auto
    qed
  qed
qed

lemma map_update_first:
  assumes "update_first p f xs = Some ys" and "\<And>x. key (f x) = key x"
  shows "map key ys = map key xs"
  using assms(1) by (rule update_first_split) (simp add: assms(2))

lemma find_None_iff: "List.find p xs = None \<longleftrightarrow> (\<forall>x \<in> set xs. \<not> p x)"
  by (induction xs) auto

lemma find_SomeD: "List.find p xs = Some x \<Longrightarrow> x \<in> set xs \<and> p x"
  by (induction xs) (auto split: if_splits)

lemma find_key_distinct:
  "distinct (map key xs) \<Longrightarrow> x \<in> set xs \<Longrightarrow> List.find (\<lambda>y. key y = key x) xs = Some x"
  by (induction xs) (auto simp: rev_image_eqI)

lemma find_map_key_cong:
  assumes "map key ys = map key xs"
  shows "(List.find (\<lambda>y. key y = k) ys = None) = (List.find (\<lambda>y. key y = k) xs = None)"
proof -
  have "key ` set ys = key ` set xs"
    using arg_cong [OF assms, of set] by simp
  then have "k \<notin> key ` set ys \<longleftrightarrow> k \<notin> key ` set xs" by simp
  then show ?thesis by (auto simp: find_None_iff)
qed

lemma filter_length_eq_iff: "length (filter p xs) = length xs \<longleftrightarrow> (\<forall>x \<in> set xs. p x)"
  by (metis filter_True length_filter_less less_irrefl)

text \<open>
  The seeding loops: \<open>for x in news { if !xs.iter().any(|y| key(y) == key(x)) { xs.push(x); changed
  = true } }\<close>. The state is the list and the flag.
\<close>

fun push_missing :: "('a \<Rightarrow> 'k) \<Rightarrow> 'a list \<Rightarrow> 'a list \<times> bool \<Rightarrow> 'a list \<times> bool" where
  "push_missing key [] st = st"
| "push_missing key (x # news) (xs, changed) =
     (if list_ex (\<lambda>y. key y = key x) xs then push_missing key news (xs, changed)
      else push_missing key news (xs @ [x], True))"

lemma list_ex_key: "list_ex (\<lambda>y. key y = k) xs \<longleftrightarrow> k \<in> key ` set xs"
  by (induction xs) auto

lemma push_missing_prefix: "\<exists>zs. fst (push_missing key news (xs, ch)) = xs @ zs \<and> set zs \<subseteq> set news"
proof (induction news arbitrary: xs ch)
  case Nil
  then show ?case by simp
next
  case (Cons x news)
  show ?case
    using Cons.IH [of xs ch] Cons.IH [of "xs @ [x]" True] by auto
qed

lemma push_missing_keys:
  "key ` set (fst (push_missing key news (xs, ch))) = key ` set xs \<union> key ` set news"
proof (induction news arbitrary: xs ch)
  case Nil
  then show ?case by simp
next
  case (Cons x news)
  then show ?case by (auto simp: list_ex_key insert_absorb)
qed

lemma push_missing_distinct:
  "distinct (map key xs) \<Longrightarrow> distinct (map key (fst (push_missing key news (xs, ch))))"
proof (induction news arbitrary: xs ch)
  case Nil
  then show ?case by simp
next
  case (Cons x news)
  then show ?case by (simp add: list_ex_key)
qed

lemma push_missing_twice:
  "push_missing key (news1 @ news2) st = push_missing key news2 (push_missing key news1 st)"
proof (induction news1 arbitrary: st)
  case Nil
  then show ?case by simp
next
  case (Cons x news1)
  then show ?case by (cases st) simp
qed

lemma push_missing_all:
  assumes "\<forall>x \<in> set xs. P x" and "\<forall>x \<in> set news. P x"
  shows "\<forall>x \<in> set (fst (push_missing key news (xs, ch))). P x"
proof -
  obtain zs where "fst (push_missing key news (xs, ch)) = xs @ zs \<and> set zs \<subseteq> set news"
    using push_missing_prefix [of key news xs ch] by (rule exE)
  then show ?thesis using assms by auto
qed

lemma push_missing_flag: "snd (push_missing key news (xs, ch)) \<longleftrightarrow> ch \<or> fst (push_missing key news (xs, ch)) \<noteq> xs"
proof (induction news arbitrary: xs ch)
  case Nil
  then show ?case by simp
next
  case (Cons x news)
  obtain zs where "fst (push_missing key news (xs @ [x], True)) = (xs @ [x]) @ zs"
    using push_missing_prefix [of key news "xs @ [x]" True] by auto
  then show ?case using Cons.IH by auto
qed

lemma push_missing_noop: "key ` set news \<subseteq> key ` set xs \<Longrightarrow> push_missing key news (xs, ch) = (xs, ch)"
proof (induction news)
  case Nil
  then show ?case by simp
next
  case (Cons x news)
  then show ?case by (simp add: list_ex_key)
qed

text \<open>\<open>sort_unstable\<close> followed by \<open>dedup\<close> leaves a strictly increasing vector.\<close>

lemma dedup_sorted: "sorted xs \<Longrightarrow> sorted_wrt (<) (remdups_adj (xs :: 'a::linorder list))"
proof (induction xs rule: remdups_adj.induct)
  case (3 x y xs)
  then show ?case by (auto simp: strict_sorted_iff)
qed auto

section \<open>Hash maps\<close>

text \<open>
  A \<open>HashMap\<close> is a finite map. Its iteration order is not modelled: nothing the code computes
  from one depends on it. \<open>hm_retain\<close> is \<open>retain\<close>, \<open>hm_len\<close> is \<open>len\<close>.
\<close>

definition hm_retain :: "('k \<Rightarrow> 'v \<Rightarrow> bool) \<Rightarrow> ('k, 'v) fmap \<Rightarrow> ('k, 'v) fmap" where
  "hm_retain p m = fmfilter (\<lambda>k. case fmlookup m k of None \<Rightarrow> False | Some v \<Rightarrow> p k v) m"

definition hm_len :: "('k, 'v) fmap \<Rightarrow> nat" where
  "hm_len m = fcard (fmdom m)"

lemma hm_retain_lookup [hmap_simps]:
  "fmlookup (hm_retain p m) k =
     (case fmlookup m k of None \<Rightarrow> None | Some v \<Rightarrow> if p k v then Some v else None)"
  by (simp add: hm_retain_def split: option.splits)

lemma hm_retain_Some [hmap_simps]:
  "fmlookup (hm_retain p m) k = Some v \<longleftrightarrow> fmlookup m k = Some v \<and> p k v"
  by (auto simp: hm_retain_lookup split: option.splits)

lemma hm_retain_all: "(\<And>k v. fmlookup m k = Some v \<Longrightarrow> p k v) \<Longrightarrow> hm_retain p m = m"
  by (rule fmap_ext) (auto simp: hm_retain_lookup split: option.splits)

lemma hm_retain_len: "hm_len (hm_retain p m) = hm_len m \<longleftrightarrow> hm_retain p m = m"
proof
  assume len: "hm_len (hm_retain p m) = hm_len m"
  have sub: "fmdom (hm_retain p m) |\<subseteq>| fmdom m"
    by (auto simp: hm_retain_def)
  then have dom: "fmdom (hm_retain p m) = fmdom m"
    using len by (simp add: hm_len_def fcard_seteq)
  show "hm_retain p m = m"
  proof (rule hm_retain_all)
    fix k v
    assume v: "fmlookup m k = Some v"
    then have "k |\<in>| fmdom (hm_retain p m)" by (simp add: dom fmdomI)
    then show "p k v" using v by (auto simp: hm_retain_def split: option.splits)
  qed
qed simp

lemma hm_retain_len_le: "hm_len (hm_retain p m) \<le> hm_len m"
  unfolding hm_len_def by (rule fcard_mono) (auto simp: hm_retain_def)

lemma fmupd_same: "fmupd k v m = m \<longleftrightarrow> fmlookup m k = Some v"
proof
  assume "fmupd k v m = m"
  then show "fmlookup m k = Some v" using fmupd_lookup [of k v m k] by simp
next
  assume "fmlookup m k = Some v"
  then show "fmupd k v m = m" by (intro fmap_ext) auto
qed

text \<open>\<open>iter()\<close> over a map whose keys are ordered, in ascending order of the keys.\<close>

definition hm_iter :: "('k::linorder, 'v) fmap \<Rightarrow> ('k \<times> 'v) list" where
  "hm_iter m = map (\<lambda>k. (k, the (fmlookup m k))) (sorted_list_of_fset (fmdom m))"

lemma hm_iter_mem [hmap_simps]: "(k, v) \<in> set (hm_iter m) \<longleftrightarrow> fmlookup m k = Some v"
proof -
  have "fmlookup m k \<noteq> None \<longleftrightarrow> k \<in> set (sorted_list_of_fset (fmdom m))"
    by (auto simp: fmlookup_dom_iff)
  then show ?thesis by (auto simp: hm_iter_def image_iff)
qed

lemma hm_iter_keys: "map fst (hm_iter m) = sorted_list_of_fset (fmdom m)"
  by (simp add: hm_iter_def comp_def)

lemma hm_iter_distinct: "distinct (map fst (hm_iter m))"
  by (simp add: hm_iter_keys sorted_list_of_fset.rep_eq)

lemma set_fmdom_list: "set (sorted_list_of_fset (fmdom m)) = {k. fmlookup m k \<noteq> None}"
  by (auto simp: fmlookup_dom_iff)

end
