(* ===== verification/Rust_Str.thy ===== *)
theory Rust_Str
  imports Prelude
begin

text \<open>
  The part of the Rust standard library's strings that the program uses. A \<open>String\<close> is the list
  of its Unicode scalar values (what \<open>chars()\<close> yields), so that \<open>chars().count()\<close> is the length;
  \<open>as_bytes\<close> is its UTF-8 encoding. Decimal printing and \<open>str::parse::<u16>\<close> are written out, as
  are the searches and splits the parsers of the program are built from.
\<close>

unbundle bit_operations_syntax

section \<open>Characters and literals\<close>

type_synonym rchar = nat
type_synonym rstring = "rchar list"

definition lit :: "string \<Rightarrow> rstring" where
  "lit s = map of_char s"

text \<open>\<open>char\<close> holds a Unicode scalar value: any code point but the surrogates.\<close>

definition scalar :: "rchar \<Rightarrow> bool" where
  "scalar c \<longleftrightarrow> c < 55296 \<or> (57344 \<le> c \<and> c < 1114112)"

definition valid_str :: "rstring \<Rightarrow> bool" where
  "valid_str s \<longleftrightarrow> (\<forall>c \<in> set s. scalar c)"

text \<open>\<open>char::is_control\<close>: general category Cc.\<close>

definition is_control :: "rchar \<Rightarrow> bool" where
  "is_control c \<longleftrightarrow> c < 32 \<or> (127 \<le> c \<and> c < 160)"

text \<open>\<open>char::is_whitespace\<close>: the property White\_Space.\<close>

definition is_whitespace :: "rchar \<Rightarrow> bool" where
  "is_whitespace c \<longleftrightarrow> (9 \<le> c \<and> c \<le> 13) \<or> c = 32 \<or> c = 133 \<or> c = 160 \<or> c = 5760 \<or>
     (8192 \<le> c \<and> c \<le> 8202) \<or> c = 8232 \<or> c = 8233 \<or> c = 8239 \<or> c = 8287 \<or> c = 12288"

definition trim :: "rstring \<Rightarrow> rstring" where
  "trim s = rev (dropWhile is_whitespace (rev (dropWhile is_whitespace s)))"

definition to_ascii_lowercase :: "rstring \<Rightarrow> rstring" where
  "to_ascii_lowercase s = map (\<lambda>c. if 65 \<le> c \<and> c \<le> 90 then c + 32 else c) s"

section \<open>Splitting\<close>

text \<open>\<open>split_once(c)\<close>: the text before and after the first \<open>c\<close>.\<close>

fun split_once :: "rchar \<Rightarrow> rstring \<Rightarrow> (rstring \<times> rstring) option" where
  "split_once c [] = None"
| "split_once c (x # xs) =
     (if x = c then Some ([], xs)
      else map_option (\<lambda>(a, b). (x # a, b)) (split_once c xs))"

text \<open>\<open>split(c)\<close>: every piece between two separators, the empty ones included.\<close>

fun split_on :: "rchar \<Rightarrow> rstring \<Rightarrow> rstring list" where
  "split_on c [] = [[]]"
| "split_on c (x # xs) =
     (if x = c then [] # split_on c xs
      else (case split_on c xs of [] \<Rightarrow> [[x]] | p # ps \<Rightarrow> (x # p) # ps))"

fun strip_prefix :: "rstring \<Rightarrow> rstring \<Rightarrow> rstring option" where
  "strip_prefix [] s = Some s"
| "strip_prefix (p # ps) [] = None"
| "strip_prefix (p # ps) (x # xs) = (if p = x then strip_prefix ps xs else None)"

lemma split_once_Some: "split_once c s = Some (a, b) \<longleftrightarrow> s = a @ c # b \<and> c \<notin> set a"
proof (induction s arbitrary: a)
  case Nil
  then show ?case by simp
next
  case (Cons x s)
  show ?case
  proof (cases a)
    case Nil
    then show ?thesis by auto
  next
    case (Cons y a')
    then show ?thesis using Cons.IH [of a'] by auto
  qed
qed

lemma split_once_append: "c \<notin> set a \<Longrightarrow> split_once c (a @ c # b) = Some (a, b)"
  by (simp add: split_once_Some)

lemma strip_prefix_Some: "strip_prefix p s = Some r \<longleftrightarrow> s = p @ r"
  by (induction p s rule: strip_prefix.induct) auto

section \<open>Decimal numbers\<close>

text \<open>
  \<open>str::parse::<u16>()\<close>: an optional leading \<open>+\<close>, then at least one decimal digit, the value
  checked against \<open>u16::MAX\<close> digit by digit. The kind of the error is not used by the program.
\<close>

definition is_digit :: "rchar \<Rightarrow> bool" where
  "is_digit c \<longleftrightarrow> 48 \<le> c \<and> c \<le> 57"

fun dec_value :: "nat \<Rightarrow> rstring \<Rightarrow> nat option" where
  "dec_value acc [] = Some acc"
| "dec_value acc (c # cs) =
     (if is_digit c \<and> acc * 10 + (c - 48) < 65536 then dec_value (acc * 10 + (c - 48)) cs
      else None)"

definition parse_u16 :: "rstring \<Rightarrow> u16 option" where
  "parse_u16 s =
     (let d = (case s of [] \<Rightarrow> [] | c # cs \<Rightarrow> if c = 43 \<and> cs \<noteq> [] then cs else s)
      in if d = [] then None else map_option word_of_nat (dec_value 0 d))"

text \<open>\<open>Display\<close> of an unsigned integer.\<close>

fun show_dec :: "nat \<Rightarrow> rstring" where
  "show_dec n = (if n < 10 then [48 + n] else show_dec (n div 10) @ [48 + n mod 10])"

declare show_dec.simps [simp del]

definition show_u16 :: "u16 \<Rightarrow> rstring" where
  "show_u16 p = show_dec (unat p)"

lemma dec_value_append:
  "dec_value acc (xs @ ys) = Option.bind (dec_value acc xs) (\<lambda>a. dec_value a ys)"
  by (induction xs arbitrary: acc) auto

lemma dec_value_bound: "dec_value acc xs = Some n \<Longrightarrow> acc < 65536 \<Longrightarrow> n < 65536"
  by (induction xs arbitrary: acc) (auto split: if_splits)

lemma dec_value_digits: "dec_value acc xs = Some n \<Longrightarrow> \<forall>c \<in> set xs. is_digit c"
  by (induction xs arbitrary: acc) (auto split: if_splits)

lemma show_dec_digits: "\<forall>c \<in> set (show_dec n). is_digit c"
proof (induction n rule: show_dec.induct)
  case (1 n)
  then show ?case by (subst show_dec.simps) (auto simp: is_digit_def)
qed

lemma show_dec_nonempty: "show_dec n \<noteq> []"
  by (subst show_dec.simps) auto

lemma show_dec_hd: "show_dec n \<noteq> 43 # cs"
  using show_dec_digits [of n] by (auto simp: is_digit_def)

lemma dec_value_show: "n < 65536 \<Longrightarrow> dec_value 0 (show_dec n) = Some n"
proof (induction n rule: show_dec.induct)
  case (1 n)
  show ?case
  proof (cases "n < 10")
    case True
    then show ?thesis by (subst show_dec.simps) (simp add: is_digit_def)
  next
    case False
    with 1 have "dec_value 0 (show_dec (n div 10)) = Some (n div 10)" by simp
    then show ?thesis using False "1.prems"
      by (subst show_dec.simps) (simp add: dec_value_append is_digit_def)
  qed
qed

lemma parse_show_u16: "parse_u16 (show_u16 p) = Some p"
proof -
  have "unat p < 65536" using unsigned_less [of p] by simp
  then have "dec_value 0 (show_dec (unat p)) = Some (unat p)" by (rule dec_value_show)
  then show ?thesis
    using show_dec_nonempty [of "unat p"] show_dec_hd [of "unat p"]
    by (auto simp: parse_u16_def show_u16_def split: list.splits)
qed

text \<open>What \<open>parse_u16\<close> accepts never contains a separator of the program's own syntaxes.\<close>

lemma parse_u16_chars:
  assumes "parse_u16 s = Some p" and "c \<in> set s"
  shows "is_digit c \<or> c = 43"
proof -
  define d where "d = (case s of [] \<Rightarrow> [] | c # cs \<Rightarrow> if c = 43 \<and> cs \<noteq> [] then cs else s)"
  have "dec_value 0 d \<noteq> None"
    using assms(1) by (auto simp: parse_u16_def d_def [symmetric] split: if_splits)
  then have "\<forall>c \<in> set d. is_digit c" using dec_value_digits by blast
  then show ?thesis using assms(2) by (cases s) (auto simp: d_def split: if_splits)
qed

section \<open>UTF-8\<close>

text \<open>\<open>as_bytes\<close>: each scalar value as one to four bytes, lead byte first.\<close>

definition utf8 :: "rchar \<Rightarrow> nat list" where
  "utf8 c =
     (if c < 128 then [c]
      else if c < 2048 then [192 + c div 64, 128 + c mod 64]
      else if c < 65536 then [224 + c div 4096, 128 + c div 64 mod 64, 128 + c mod 64]
      else [240 + c div 262144, 128 + c div 4096 mod 64, 128 + c div 64 mod 64, 128 + c mod 64])"

definition as_bytes :: "rstring \<Rightarrow> u8 list" where
  "as_bytes s = map word_of_nat (concat (map utf8 s))"

lemma utf8_bytes: "scalar c \<Longrightarrow> \<forall>b \<in> set (utf8 c). b < 256"
  by (auto simp: utf8_def scalar_def)

lemma utf8_nonempty: "utf8 c \<noteq> []"
  by (simp add: utf8_def)

lemma base64_digits_eq:
  fixes c d :: nat
  assumes "c mod 64 = d mod 64" and "c div 64 = d div 64"
  shows "c = d"
  using assms by (metis div_mult_mod_eq)

lemma utf8_prefix_free:
  assumes "scalar c" and "scalar d" and eq: "utf8 c @ xs = utf8 d @ ys"
  shows "c = d \<and> xs = ys"
proof -
  have dd: "\<And>n::nat. n div 4096 = n div 64 div 64" "\<And>n::nat. n div 262144 = n div 64 div 64 div 64"
    by (simp_all add: div_mult2_eq [symmetric])
  have c4: "c div 64 div 64 div 64 < 8" "d div 64 div 64 div 64 < 8"
    using assms by (auto simp: scalar_def dd [symmetric])
  have d3: "d < 65536 \<Longrightarrow> d div 64 div 64 < 16"
    by (simp add: dd [symmetric])
  consider "c < 128" | "128 \<le> c" "c < 2048" | "2048 \<le> c" "c < 65536" | "65536 \<le> c" by linarith
  then show ?thesis
  proof cases
    case 1
    with eq show ?thesis by (auto simp: utf8_def split: if_splits)
  next
    case 2
    then have "c div 64 < 32" by simp
    with 2 eq show ?thesis
      by (auto simp: utf8_def split: if_splits intro: base64_digits_eq)
  next
    case 3
    then have "c div 4096 < 16" by simp
    with 3 eq show ?thesis
      by (auto simp: utf8_def dd split: if_splits intro!: base64_digits_eq)
  next
    case 4
    with eq c4 d3 show ?thesis
      by (auto simp: utf8_def dd split: if_splits intro!: base64_digits_eq)
  qed
qed

lemma utf8_concat_inj:
  assumes "valid_str s" and "valid_str t" and "concat (map utf8 s) = concat (map utf8 t)"
  shows "s = t"
  using assms
proof (induction s arbitrary: t)
  case Nil
  then show ?case by (cases t) (auto simp: utf8_nonempty)
next
  case (Cons c s)
  then obtain d t' where t: "t = d # t'" by (cases t) (auto simp: utf8_nonempty)
  have valid: "scalar c" "scalar d" "valid_str s" "valid_str t'"
    using Cons.prems(1,2) by (auto simp: t valid_str_def)
  have "utf8 c @ concat (map utf8 s) = utf8 d @ concat (map utf8 t')"
    using Cons.prems(3) by (simp only: t list.map concat.simps)
  then have "c = d \<and> concat (map utf8 s) = concat (map utf8 t')"
    by (rule utf8_prefix_free [OF valid(1,2)])
  with Cons.IH [OF valid(3,4)] show ?case by (simp only: t)
qed

lemma word8_of_nat_inj: "a < 256 \<Longrightarrow> b < 256 \<Longrightarrow> (word_of_nat a :: u8) = word_of_nat b \<Longrightarrow> a = b"
  by (simp add: word_of_nat_eq_iff take_bit_nat_eq_self)

lemma map_word8_inj:
  "\<forall>a \<in> set xs. a < 256 \<Longrightarrow> \<forall>b \<in> set ys. b < 256 \<Longrightarrow>
     map (word_of_nat :: nat \<Rightarrow> u8) xs = map word_of_nat ys \<Longrightarrow> xs = ys"
  by (rule map_inj_on [where f = "word_of_nat :: nat \<Rightarrow> u8"])
     (auto intro!: inj_onI intro: word8_of_nat_inj)

lemma as_bytes_inj:
  assumes "valid_str s" and "valid_str t"
  shows "as_bytes s = as_bytes t \<longleftrightarrow> s = t"
proof
  have "\<forall>b \<in> set (concat (map utf8 s)). b < 256" "\<forall>b \<in> set (concat (map utf8 t)). b < 256"
    using assms utf8_bytes by (auto simp: valid_str_def)
  moreover assume "as_bytes s = as_bytes t"
  ultimately have "concat (map utf8 s) = concat (map utf8 t)"
    unfolding as_bytes_def by (intro map_word8_inj)
  with assms show "s = t" by (rule utf8_concat_inj)
qed simp

end
