(* ===== verification/Rtun_Types.thy ===== *)
theory Rtun_Types
  imports Rust_Str
begin

text \<open>
  The small types every module of the program shares: the protocol of \<open>src/config.rs\<close>, the port
  mapping of \<open>src/main.rs\<close> with its parser and printer, and the errors. \<open>iroh::EndpointId\<close> is a
  type variable \<open>'id\<close> throughout: the program only compares, orders, prints and parses it.
\<close>

section \<open>Protocols\<close>

datatype Proto = Tcp | Udp

text \<open>The derived \<open>Ord\<close>: declaration order.\<close>

instantiation Proto :: linorder
begin

definition less_eq_Proto :: "Proto \<Rightarrow> Proto \<Rightarrow> bool" where
  "less_eq_Proto a b \<longleftrightarrow> a = Tcp \<or> b = Udp"

definition less_Proto :: "Proto \<Rightarrow> Proto \<Rightarrow> bool" where
  "less_Proto a b \<longleftrightarrow> a = Tcp \<and> b = Udp"

instance
proof
  fix a b c :: Proto
  show "a < b \<longleftrightarrow> a \<le> b \<and> \<not> b \<le> a"
    by (cases a; cases b) (auto simp: less_eq_Proto_def less_Proto_def)
  show "a \<le> a"
    by (cases a) (auto simp: less_eq_Proto_def)
  show "a \<le> b \<Longrightarrow> b \<le> c \<Longrightarrow> a \<le> c"
    by (auto simp: less_eq_Proto_def)
  show "a \<le> b \<Longrightarrow> b \<le> a \<Longrightarrow> a = b"
    by (auto simp: less_eq_Proto_def)
  show "a \<le> b \<or> b \<le> a"
    by (cases a; cases b) (auto simp: less_eq_Proto_def)
qed

end

fun as_str :: "Proto \<Rightarrow> rstring" where
  "as_str Tcp = lit ''tcp''"
| "as_str Udp = lit ''udp''"

section \<open>Errors\<close>

text \<open>
  One constructor per message an operation can fail with. \<open>Context\<close> is what \<open>with_context\<close>
  wraps around an error; \<open>Os\<close> is an error of the operating system or of a library, with its text.
\<close>

text \<open>A path is the list of its components.\<close>

type_synonym path = "rstring list"

datatype which = Offered | LocalPort | RemotePort | AdminPort

datatype 'id err_ctx =
    CtxPeer 'id
  | CtxShared
  | CtxInFile path
  | CtxParsing path
  | CtxReading path
  | CtxRefusing
  | CtxCreating path
  | CtxSerialising
  | CtxWriting path
  | CtxReplacing path
  | CtxPersisting path

datatype 'id error =
    Context "'id err_ctx" "'id error"
  | Os rstring
  | BadProto rstring
  | BadMap rstring
  | BadPort which
  | NameTooLong
  | NameControl
  | OfferTwice Proto u16
  | PeerTwice 'id
  | LocalTwice Proto u16
  | NoParent
  | BadAdminSpec rstring
  | BadId rstring
  | PeerKnown 'id
  | PeerUnknown 'id
  | OfferKnown Proto u16
  | OfferUnknown Proto u16
  | BindingKnown Proto u16
  | BindingUnknown Proto u16
  | NoStateDir
  | BadKey path
  | NoPeers
  | NoBindings

text \<open>\<open>impl FromStr for Proto\<close>.\<close>

definition proto_from_str :: "rstring \<Rightarrow> 'id error + Proto" where
  "proto_from_str s =
     (let l = to_ascii_lowercase s
      in if l = lit ''tcp'' then Inr Tcp
         else if l = lit ''udp'' then Inr Udp
         else Inl (BadProto l))"

section \<open>Port mappings\<close>

record PortMap =
  m_local :: u16
  m_remote :: u16

text \<open>\<open>impl FromStr for PortMap\<close>: the text before the first colon, then the text after it.\<close>

definition parse_map_port :: "rstring \<Rightarrow> which \<Rightarrow> 'id error + u16" where
  "parse_map_port p w =
     (case parse_u16 p of None \<Rightarrow> Inl (BadPort w)
      | Some n \<Rightarrow> if n = 0 then Inl (BadPort w) else Inr n)"

definition port_map_from_str :: "rstring \<Rightarrow> 'id error + PortMap" where
  "port_map_from_str s =
     (case split_once (of_char (CHR '':'')) s of
        None \<Rightarrow> Inl (BadMap s)
      | Some (l, r) \<Rightarrow>
          and_then (parse_map_port l LocalPort) (\<lambda>lp.
          and_then (parse_map_port r RemotePort) (\<lambda>rp.
            Inr \<lparr>m_local = lp, m_remote = rp\<rparr>)))"

definition port_map_display :: "PortMap \<Rightarrow> rstring" where
  "port_map_display m = show_u16 (m_local m) @ lit '':'' @ show_u16 (m_remote m)"

lemma lit_colon: "lit '':'' = [58]" "of_char (CHR '':'') = (58 :: nat)"
  by (simp_all add: lit_def)

lemma parse_map_port_Inr [res_simps]:
  "parse_map_port p w = Inr n \<longleftrightarrow> parse_u16 p = Some n \<and> n \<noteq> 0"
  by (auto simp: parse_map_port_def split: option.splits)

lemma show_u16_no_colon: "58 \<notin> set (show_u16 p)"
  using show_dec_digits [of "unat p"] by (auto simp: show_u16_def is_digit_def)

lemma port_map_from_str_Inr:
  "port_map_from_str s = Inr m \<longleftrightarrow>
     (\<exists>l r. s = l @ [58] @ r \<and> parse_u16 l = Some (m_local m) \<and> parse_u16 r = Some (m_remote m) \<and>
        m_local m \<noteq> 0 \<and> m_remote m \<noteq> 0)" (is "?lhs \<longleftrightarrow> ?rhs")
proof
  assume ?lhs
  then obtain l r where "split_once 58 s = Some (l, r)" "parse_u16 l = Some (m_local m)"
    "parse_u16 r = Some (m_remote m)" "m_local m \<noteq> 0" "m_remote m \<noteq> 0"
    by (auto simp: port_map_from_str_def lit_colon res_simps split: option.splits)
  then show ?rhs by (auto simp: split_once_Some)
next
  assume ?rhs
  then obtain l r where s: "s = l @ 58 # r" and l: "parse_u16 l = Some (m_local m)"
    and r: "parse_u16 r = Some (m_remote m)" "m_local m \<noteq> 0" "m_remote m \<noteq> 0" by auto
  have "58 \<notin> set l" using parse_u16_chars [OF l, of 58] by (auto simp: is_digit_def)
  then show ?lhs
    using l r by (simp add: s port_map_from_str_def lit_colon split_once_append res_simps)
qed

text \<open>
  Printing a mapping and parsing the text back gives the mapping, for every mapping whose two
  ports are not 0; and nothing the parser accepts has a port 0 or a second colon: the accepted
  texts are exactly two accepted port numbers around one colon.
\<close>
theorem port_map_roundtrip:
  "(port_map_from_str (port_map_display m) = (Inr m :: 'id error + PortMap)
      \<longleftrightarrow> m_local m \<noteq> 0 \<and> m_remote m \<noteq> 0) \<and>
   ((port_map_from_str s :: 'id error + PortMap) = Inr m \<longleftrightarrow>
      (\<exists>l r. s = l @ [58] @ r \<and> 58 \<notin> set l \<and> 58 \<notin> set r \<and> m_local m \<noteq> 0 \<and> m_remote m \<noteq> 0 \<and>
         parse_u16 l = Some (m_local m) \<and> parse_u16 r = Some (m_remote m)))"
proof
  show "port_map_from_str (port_map_display m) = (Inr m :: 'id error + PortMap)
      \<longleftrightarrow> m_local m \<noteq> 0 \<and> m_remote m \<noteq> 0"
    using show_u16_no_colon [of "m_local m"]
    by (simp add: port_map_from_str_def port_map_display_def lit_colon split_once_append
        parse_show_u16 res_simps)
  have "parse_u16 l = Some p \<Longrightarrow> 58 \<notin> set l" for l p
    using parse_u16_chars [of l p 58] by (auto simp: is_digit_def)
  then show "(port_map_from_str s :: 'id error + PortMap) = Inr m \<longleftrightarrow>
      (\<exists>l r. s = l @ [58] @ r \<and> 58 \<notin> set l \<and> 58 \<notin> set r \<and> m_local m \<noteq> 0 \<and> m_remote m \<noteq> 0 \<and>
         parse_u16 l = Some (m_local m) \<and> parse_u16 r = Some (m_remote m))"
    unfolding port_map_from_str_Inr by blast
qed

end
