(* ===== verification/Config.thy ===== *)
theory Config
  imports Rtun_Types
begin

text \<open>
  The configuration of \<open>src/config.rs\<close>: its data, the validators, the access policy
  (\<open>admits\<close>, \<open>granted\<close>), the listeners of the connecting side and the seeding from command-line
  flags. Reading and writing the file is in the theory of the persisted state.
\<close>

section \<open>Data\<close>

definition NAME_MAX :: nat where
  "NAME_MAX = 64"

record Offer =
  o_proto :: Proto
  o_port :: u16
  o_name :: rstring
  o_enabled :: bool

record 'id Peer =
  p_id :: 'id
  p_name :: rstring
  p_enabled :: bool
  p_offers :: "Offer list"

record Binding =
  b_proto :: Proto
  b_local :: u16
  b_remote :: u16
  b_name :: rstring
  b_enabled :: bool

record 'id ServeConfig =
  sc_shared :: "Offer list"
  sc_peers :: "'id Peer list"

record ConnectConfig =
  cc_bindings :: "Binding list"

record 'id Config =
  cfg_serve :: "'id ServeConfig"
  cfg_connect :: ConnectConfig

definition default_config :: "'id Config" where
  "default_config =
     \<lparr>cfg_serve = \<lparr>sc_shared = [], sc_peers = []\<rparr>, cfg_connect = \<lparr>cc_bindings = []\<rparr>\<rparr>"

text \<open>The keys under which an entry may be listed once.\<close>

definition offer_key :: "Offer \<Rightarrow> Proto \<times> u16" where
  "offer_key o' = (o_proto o', o_port o')"

definition binding_key :: "Binding \<Rightarrow> Proto \<times> u16" where
  "binding_key b = (b_proto b, b_local b)"

definition binding_map :: "Binding \<Rightarrow> PortMap" where
  "binding_map b = \<lparr>m_local = b_local b, m_remote = b_remote b\<rparr>"

text \<open>Short names for the three lists of a configuration and their updates.\<close>

abbreviation shared_of :: "'id Config \<Rightarrow> Offer list" where
  "shared_of c \<equiv> sc_shared (cfg_serve c)"

abbreviation peers_of :: "'id Config \<Rightarrow> 'id Peer list" where
  "peers_of c \<equiv> sc_peers (cfg_serve c)"

abbreviation bindings_of :: "'id Config \<Rightarrow> Binding list" where
  "bindings_of c \<equiv> cc_bindings (cfg_connect c)"

definition with_shared :: "'id Config \<Rightarrow> Offer list \<Rightarrow> 'id Config" where
  "with_shared c xs = c\<lparr>cfg_serve := (cfg_serve c)\<lparr>sc_shared := xs\<rparr>\<rparr>"

definition with_peers :: "'id Config \<Rightarrow> 'id Peer list \<Rightarrow> 'id Config" where
  "with_peers c xs = c\<lparr>cfg_serve := (cfg_serve c)\<lparr>sc_peers := xs\<rparr>\<rparr>"

definition with_bindings :: "'id Config \<Rightarrow> Binding list \<Rightarrow> 'id Config" where
  "with_bindings c xs = c\<lparr>cfg_connect := (cfg_connect c)\<lparr>cc_bindings := xs\<rparr>\<rparr>"

lemma with_simps [simp]:
  "shared_of (with_shared c xs) = xs" "peers_of (with_shared c xs) = peers_of c"
  "bindings_of (with_shared c xs) = bindings_of c"
  "shared_of (with_peers c ps) = shared_of c" "peers_of (with_peers c ps) = ps"
  "bindings_of (with_peers c ps) = bindings_of c"
  "shared_of (with_bindings c bs) = shared_of c" "peers_of (with_bindings c bs) = peers_of c"
  "bindings_of (with_bindings c bs) = bs"
  by (simp_all add: with_shared_def with_peers_def with_bindings_def)

lemma config_eqI:
  fixes c d :: "'id Config"
  assumes "shared_of c = shared_of d" "peers_of c = peers_of d" "bindings_of c = bindings_of d"
  shows "c = d"
  using assms by (cases c; cases d; cases "cfg_serve c"; cases "cfg_serve d";
      cases "cfg_connect c"; cases "cfg_connect d") auto

section \<open>Validation\<close>

definition check_name :: "rstring \<Rightarrow> 'id error + unit" where
  "check_name name =
     (if length name > NAME_MAX then Inl NameTooLong
      else if list_ex is_control name then Inl NameControl
      else Inr ())"

definition check_port :: "u16 \<Rightarrow> which \<Rightarrow> 'id error + unit" where
  "check_port port w = (if port = 0 then Inl (BadPort w) else Inr ())"

definition offer_validate :: "Offer \<Rightarrow> 'id error + unit" where
  "offer_validate o' =
     and_then (check_port (o_port o') Offered) (\<lambda>_. check_name (o_name o'))"

definition binding_validate :: "Binding \<Rightarrow> 'id error + unit" where
  "binding_validate b =
     and_then (check_port (b_local b) LocalPort) (\<lambda>_.
     and_then (check_port (b_remote b) RemotePort) (\<lambda>_.
       check_name (b_name b)))"

definition dedupe_offers :: "Offer list \<Rightarrow> 'id error + unit" where
  "dedupe_offers offers =
     scan_unique (\<lambda>_. Inr ()) offer_key (\<lambda>o'. OfferTwice (o_proto o') (o_port o')) {} offers"

definition peer_validate :: "'id Peer \<Rightarrow> 'id error + unit" where
  "peer_validate p =
     and_then (check_name (p_name p)) (\<lambda>_.
     and_then (try_each offer_validate (p_offers p)) (\<lambda>_.
       map_err (Context (CtxPeer (p_id p))) (dedupe_offers (p_offers p))))"

definition validate :: "'id Config \<Rightarrow> 'id error + unit" where
  "validate c =
     and_then (try_each offer_validate (shared_of c)) (\<lambda>_.
     and_then (map_err (Context CtxShared) (dedupe_offers (shared_of c))) (\<lambda>_.
     and_then (scan_unique peer_validate p_id (\<lambda>p. PeerTwice (p_id p)) {} (peers_of c)) (\<lambda>_.
       scan_unique binding_validate binding_key
         (\<lambda>b. LocalTwice (b_proto b) (b_local b)) {} (bindings_of c))))"

text \<open>What a valid configuration is, said without the loops.\<close>

definition name_wf :: "rstring \<Rightarrow> bool" where
  "name_wf n \<longleftrightarrow> length n \<le> NAME_MAX \<and> (\<forall>c \<in> set n. \<not> is_control c)"

definition offer_wf :: "Offer \<Rightarrow> bool" where
  "offer_wf o' \<longleftrightarrow> o_port o' \<noteq> 0 \<and> name_wf (o_name o')"

definition offers_wf :: "Offer list \<Rightarrow> bool" where
  "offers_wf xs \<longleftrightarrow> (\<forall>o' \<in> set xs. offer_wf o') \<and> distinct (map offer_key xs)"

definition peer_wf :: "'id Peer \<Rightarrow> bool" where
  "peer_wf p \<longleftrightarrow> name_wf (p_name p) \<and> offers_wf (p_offers p)"

definition peers_wf :: "'id Peer list \<Rightarrow> bool" where
  "peers_wf ps \<longleftrightarrow> (\<forall>p \<in> set ps. peer_wf p) \<and> distinct (map p_id ps)"

definition binding_wf :: "Binding \<Rightarrow> bool" where
  "binding_wf b \<longleftrightarrow> b_local b \<noteq> 0 \<and> b_remote b \<noteq> 0 \<and> name_wf (b_name b)"

definition bindings_wf :: "Binding list \<Rightarrow> bool" where
  "bindings_wf bs \<longleftrightarrow> (\<forall>b \<in> set bs. binding_wf b) \<and> distinct (map binding_key bs)"

definition config_wf :: "'id Config \<Rightarrow> bool" where
  "config_wf c \<longleftrightarrow> offers_wf (shared_of c) \<and> peers_wf (peers_of c) \<and> bindings_wf (bindings_of c)"

lemma check_name_ok [res_simps]: "check_name n = Inr () \<longleftrightarrow> name_wf n"
  by (auto simp: check_name_def name_wf_def list_ex_iff)

lemma check_port_ok [res_simps]: "check_port p w = Inr () \<longleftrightarrow> p \<noteq> 0"
  by (simp add: check_port_def)

lemma offer_validate_ok [res_simps]: "offer_validate o' = Inr () \<longleftrightarrow> offer_wf o'"
  by (auto simp: offer_validate_def offer_wf_def res_simps)

lemma binding_validate_ok [res_simps]: "binding_validate b = Inr () \<longleftrightarrow> binding_wf b"
  by (auto simp: binding_validate_def binding_wf_def res_simps)

lemma dedupe_offers_ok [res_simps]: "dedupe_offers xs = Inr () \<longleftrightarrow> distinct (map offer_key xs)"
  by (auto simp: dedupe_offers_def res_simps)

lemma peer_validate_ok [res_simps]: "peer_validate p = Inr () \<longleftrightarrow> peer_wf p"
  by (auto simp: peer_validate_def peer_wf_def offers_wf_def res_simps)

lemma validate_ok [res_simps]: "validate c = Inr () \<longleftrightarrow> config_wf c"
  by (auto simp: validate_def config_wf_def offers_wf_def peers_wf_def bindings_wf_def res_simps)

lemma validate_wf: "config_wf c \<Longrightarrow> validate c = Inr ()"
  by (simp add: validate_ok)

lemma config_wf_default [simp]: "config_wf default_config"
  by (simp add: config_wf_def default_config_def offers_wf_def peers_wf_def bindings_wf_def)

section \<open>Access policy\<close>

definition cfg_peer :: "'id Config \<Rightarrow> 'id \<Rightarrow> 'id Peer option" where
  "cfg_peer c i = List.find (\<lambda>p. p_id p = i) (peers_of c)"

definition admits :: "'id Config \<Rightarrow> 'id \<Rightarrow> bool" where
  "admits c i = (case cfg_peer c i of None \<Rightarrow> False | Some p \<Rightarrow> p_enabled p)"

text \<open>\<open>Peer::granted\<close>: the shared offers first, then the peer's own; sorted, then deduplicated.\<close>

definition peer_granted :: "'id Peer \<Rightarrow> Offer list \<Rightarrow> Proto \<Rightarrow> u16 list" where
  "peer_granted p shared proto =
     remdups_adj (sort (map o_port
       (filter (\<lambda>o'. o_enabled o' \<and> o_proto o' = proto) (shared @ p_offers p))))"

definition granted :: "'id Config \<Rightarrow> 'id \<Rightarrow> Proto \<Rightarrow> u16 list option" where
  "granted c i proto =
     (case cfg_peer c i of
        None \<Rightarrow> None
      | Some p \<Rightarrow> if p_enabled p then Some (peer_granted p (shared_of c) proto) else None)"

text \<open>\<open>granted(..).unwrap_or_default()\<close>, as the data plane reads it.\<close>

definition grant_list :: "'id Config \<Rightarrow> 'id \<Rightarrow> Proto \<Rightarrow> u16 list" where
  "grant_list c i proto = (case granted c i proto of None \<Rightarrow> [] | Some xs \<Rightarrow> xs)"

definition active_bindings :: "'id Config \<Rightarrow> Binding list" where
  "active_bindings c = filter b_enabled (bindings_of c)"

text \<open>
  The policy said without lists: what the documentation grants. A peer has a right to a port when
  its entry is the one listed for its id and is enabled, and an enabled offer of the port is
  shared or is its own.
\<close>

definition rights :: "'id Config \<Rightarrow> 'id \<Rightarrow> (Proto \<times> u16) set" where
  "rights c i =
     {k. \<exists>p. cfg_peer c i = Some p \<and> p_enabled p \<and>
           (\<exists>o' \<in> set (shared_of c) \<union> set (p_offers p). o_enabled o' \<and> offer_key o' = k)}"

text \<open>
  The contract the data plane relies on: no list of ports for a peer that is not admitted, and
  otherwise exactly the ports the peer has a right to.
\<close>

locale access_policy =
  fixes admit :: "'c \<Rightarrow> 'i \<Rightarrow> bool"
    and ports :: "'c \<Rightarrow> 'i \<Rightarrow> 'p \<Rightarrow> 'q list option"
    and right :: "'c \<Rightarrow> 'i \<Rightarrow> ('p \<times> 'q) set"
  assumes ports_None: "ports c i p = None \<longleftrightarrow> \<not> admit c i"
    and ports_Some: "ports c i p = Some xs \<Longrightarrow> set xs = {q. (p, q) \<in> right c i}"
    and right_admit: "k \<in> right c i \<Longrightarrow> admit c i"
begin

lemma listed_iff: "q \<in> set (case ports c i p of None \<Rightarrow> [] | Some xs \<Rightarrow> xs) \<longleftrightarrow> (p, q) \<in> right c i"
proof (cases "ports c i p")
  case None
  then have "\<not> admit c i" by (simp add: ports_None)
  with None show ?thesis using right_admit by auto
next
  case (Some xs)
  then show ?thesis by (simp add: ports_Some)
qed

lemma not_admitted_empty: "\<not> admit c i \<Longrightarrow> (case ports c i p of None \<Rightarrow> [] | Some xs \<Rightarrow> xs) = []"
  using ports_None [of c i p] by simp

end

lemma peer_granted_set:
  "set (peer_granted p shared proto) =
     {q. \<exists>o' \<in> set shared \<union> set (p_offers p). o_enabled o' \<and> offer_key o' = (proto, q)}"
  by (auto simp: peer_granted_def offer_key_def)

interpretation policy: access_policy admits granted rights
proof unfold_locales
  fix c :: "'id Config" and i proto xs k
  show "granted c i proto = None \<longleftrightarrow> \<not> admits c i"
    by (auto simp: granted_def admits_def split: option.splits)
  show "set xs = {q. (proto, q) \<in> rights c i}" if "granted c i proto = Some xs"
    using that by (auto simp: granted_def rights_def peer_granted_set split: option.splits if_splits)
  show "admits c i" if "k \<in> rights c i"
    using that by (auto simp: rights_def admits_def)
qed

lemma grant_list_iff: "port \<in> set (grant_list c i proto) \<longleftrightarrow> (proto, port) \<in> rights c i"
  unfolding grant_list_def by (rule policy.listed_iff)

lemma grant_list_admits: "port \<in> set (grant_list c i proto) \<Longrightarrow> admits c i"
  unfolding grant_list_iff by (rule policy.right_admit)

lemma grant_list_not_admitted: "\<not> admits c i \<Longrightarrow> grant_list c i proto = []"
  unfolding grant_list_def by (rule policy.not_admitted_empty)

lemma peer_granted_sorted: "sorted_wrt (<) (peer_granted p shared proto)"
  unfolding peer_granted_def by (rule dedup_sorted) simp

text \<open>
  C28: the ports granted to a peer are strictly increasing, are exactly the ones the policy gives
  it a right to, and the answer is \<open>None\<close>, not an empty list, exactly for a peer that is unknown
  or parked.
\<close>
theorem granted_exact:
  "(granted c i proto = None \<longleftrightarrow> \<not> admits c i) \<and>
   sorted_wrt (<) (grant_list c i proto) \<and>
   (port \<in> set (grant_list c i proto) \<longleftrightarrow>
      (\<exists>p. cfg_peer c i = Some p \<and> p_enabled p \<and>
         (\<exists>o' \<in> set (shared_of c) \<union> set (p_offers p).
            o_enabled o' \<and> o_proto o' = proto \<and> o_port o' = port)))"
proof (intro conjI)
  show "granted c i proto = None \<longleftrightarrow> \<not> admits c i"
    by (rule policy.ports_None)
  show "sorted_wrt (<) (grant_list c i proto)"
    by (auto simp: grant_list_def granted_def peer_granted_sorted split: option.splits)
  show "port \<in> set (grant_list c i proto) \<longleftrightarrow>
      (\<exists>p. cfg_peer c i = Some p \<and> p_enabled p \<and>
         (\<exists>o' \<in> set (shared_of c) \<union> set (p_offers p).
            o_enabled o' \<and> o_proto o' = proto \<and> o_port o' = port))"
    by (simp add: grant_list_iff rights_def offer_key_def)
qed

text \<open>
  A per-peer grant does not leak. Rewriting the entries of every other peer in any way
  (their names, switches and offers; the ids stay) leaves what a peer is granted unchanged.
\<close>
theorem granted_isolated:
  assumes "\<And>p. p_id (f p) = p_id p" and "\<And>p. p_id p = i \<Longrightarrow> f p = p"
  shows "granted (with_peers c (map f (peers_of c))) i proto = granted c i proto"
proof -
  have "List.find (\<lambda>p. p_id p = i) (map f ps) = List.find (\<lambda>p. p_id p = i) ps" for ps
    using assms by (induction ps) auto
  then show ?thesis by (auto simp: granted_def cfg_peer_def split: option.splits)
qed

definition example_config :: "nat Config" where
  "example_config =
     \<lparr>cfg_serve =
        \<lparr>sc_shared = [\<lparr>o_proto = Tcp, o_port = 22, o_name = [], o_enabled = True\<rparr>],
         sc_peers =
           [\<lparr>p_id = 1, p_name = lit ''laptop'', p_enabled = True,
             p_offers = [\<lparr>o_proto = Tcp, o_port = 8080, o_name = [], o_enabled = True\<rparr>]\<rparr>,
            \<lparr>p_id = 2, p_name = lit ''parked'', p_enabled = False, p_offers = []\<rparr>]\<rparr>,
      cfg_connect =
        \<lparr>cc_bindings =
           [\<lparr>b_proto = Tcp, b_local = 2222, b_remote = 22, b_name = [], b_enabled = True\<rparr>]\<rparr>\<rparr>"

theorem granted_isolated_witness:
  "granted (with_peers example_config
      (map (\<lambda>p. if p_id p = 1 then p else p\<lparr>p_enabled := True\<rparr>) (peers_of example_config))) 1 Tcp =
   granted example_config 1 Tcp"
  by (rule granted_isolated) auto

text \<open>
  C27: \<open>validate\<close> accepts exactly the well-formed configurations: every port is nonzero, every
  name has at most 64 characters and no control character, no (protocol, port) is offered twice
  in one list, no peer is listed twice and no local (protocol, port) is bound twice.
\<close>
theorem validate_exact: "validate c = Inr () \<longleftrightarrow> config_wf c"
  by (rule validate_ok)

section \<open>Seeding from flags\<close>

definition new_offer :: "Proto \<Rightarrow> u16 \<Rightarrow> Offer" where
  "new_offer proto port = \<lparr>o_proto = proto, o_port = port, o_name = [], o_enabled = True\<rparr>"

definition new_peer :: "'id \<Rightarrow> 'id Peer" where
  "new_peer i = \<lparr>p_id = i, p_name = [], p_enabled = True, p_offers = []\<rparr>"

definition new_binding :: "Proto \<Rightarrow> PortMap \<Rightarrow> Binding" where
  "new_binding proto m =
     \<lparr>b_proto = proto, b_local = m_local m, b_remote = m_remote m, b_name = [], b_enabled = True\<rparr>"

text \<open>The TCP ports, then the UDP ports, then the peers; the flag runs through the three loops.\<close>

definition seed_from_flags ::
  "'id Config \<Rightarrow> 'id list \<Rightarrow> u16 list \<Rightarrow> u16 list \<Rightarrow> 'id Config \<times> bool" where
  "seed_from_flags c allow tcp udp =
     (let (sh1, ch1) = push_missing offer_key (map (new_offer Tcp) tcp) (shared_of c, False);
          (sh2, ch2) = push_missing offer_key (map (new_offer Udp) udp) (sh1, ch1);
          (ps, ch3) = push_missing p_id (map new_peer allow) (peers_of c, ch2)
      in (with_peers (with_shared c sh2) ps, ch3))"

definition seed_bindings :: "'id Config \<Rightarrow> PortMap list \<Rightarrow> PortMap list \<Rightarrow> 'id Config \<times> bool" where
  "seed_bindings c tcp udp =
     (let (bs1, ch1) = push_missing binding_key (map (new_binding Tcp) tcp) (bindings_of c, False);
          (bs2, ch2) = push_missing binding_key (map (new_binding Udp) udp) (bs1, ch1)
      in (with_bindings c bs2, ch2))"

lemma name_wf_Nil [simp]: "name_wf []"
  by (simp add: name_wf_def)

lemma new_entry_simps [simp]:
  "offer_key (new_offer pr p) = (pr, p)" "p_id (new_peer i) = i"
  "binding_key (new_binding pr m) = (pr, m_local m)"
  "offer_wf (new_offer pr p) \<longleftrightarrow> p \<noteq> 0" "peer_wf (new_peer i)"
  "binding_wf (new_binding pr m) \<longleftrightarrow> m_local m \<noteq> 0 \<and> m_remote m \<noteq> 0"
  by (simp_all add: new_offer_def new_peer_def new_binding_def offer_key_def binding_key_def
      offer_wf_def peer_wf_def offers_wf_def binding_wf_def)

lemma push_missing_offers_wf:
  "offers_wf xs \<Longrightarrow> \<forall>x \<in> set news. offer_wf x \<Longrightarrow>
     offers_wf (fst (push_missing offer_key news (xs, ch)))"
  unfolding offers_wf_def by (intro conjI push_missing_all push_missing_distinct) auto

lemma push_missing_peers_wf:
  "peers_wf xs \<Longrightarrow> \<forall>x \<in> set news. peer_wf x \<Longrightarrow>
     peers_wf (fst (push_missing p_id news (xs, ch)))"
  unfolding peers_wf_def by (intro conjI push_missing_all push_missing_distinct) auto

lemma push_missing_bindings_wf:
  "bindings_wf xs \<Longrightarrow> \<forall>x \<in> set news. binding_wf x \<Longrightarrow>
     bindings_wf (fst (push_missing binding_key news (xs, ch)))"
  unfolding bindings_wf_def by (intro conjI push_missing_all push_missing_distinct) auto

text \<open>The two offer loops run one after the other over one list, so they are one loop.\<close>

definition flag_offers :: "u16 list \<Rightarrow> u16 list \<Rightarrow> Offer list" where
  "flag_offers tcp udp = map (new_offer Tcp) tcp @ map (new_offer Udp) udp"

definition flag_bindings :: "PortMap list \<Rightarrow> PortMap list \<Rightarrow> Binding list" where
  "flag_bindings tcp udp = map (new_binding Tcp) tcp @ map (new_binding Udp) udp"

lemma seed_from_flags_eq:
  "seed_from_flags c allow tcp udp =
     (let (sh, ch) = push_missing offer_key (flag_offers tcp udp) (shared_of c, False);
          (ps, ch') = push_missing p_id (map new_peer allow) (peers_of c, ch)
      in (with_peers (with_shared c sh) ps, ch'))"
  by (simp add: seed_from_flags_def flag_offers_def push_missing_twice split: prod.splits)

lemma seed_bindings_eq:
  "seed_bindings c tcp udp =
     (let (bs, ch) = push_missing binding_key (flag_bindings tcp udp) (bindings_of c, False)
      in (with_bindings c bs, ch))"
  by (simp add: seed_bindings_def flag_bindings_def push_missing_twice split: prod.splits)

lemma flag_offers_keys:
  "offer_key ` set (flag_offers tcp udp) = Pair Tcp ` set tcp \<union> Pair Udp ` set udp"
  by (auto simp: flag_offers_def image_image image_Un)

lemma seed_from_flags_parts:
  "shared_of (fst (seed_from_flags c allow tcp udp)) =
     fst (push_missing offer_key (flag_offers tcp udp) (shared_of c, False))"
  "peers_of (fst (seed_from_flags c allow tcp udp)) =
     fst (push_missing p_id (map new_peer allow)
       (peers_of c, snd (push_missing offer_key (flag_offers tcp udp) (shared_of c, False))))"
  "bindings_of (fst (seed_from_flags c allow tcp udp)) = bindings_of c"
  by (simp_all add: seed_from_flags_eq split: prod.splits)

lemma seed_from_flags_snd:
  "snd (seed_from_flags c allow tcp udp) =
     snd (push_missing p_id (map new_peer allow)
       (peers_of c, snd (push_missing offer_key (flag_offers tcp udp) (shared_of c, False))))"
  by (simp add: seed_from_flags_eq split: prod.splits)

lemma seed_from_flags_flag:
  "snd (seed_from_flags c allow tcp udp) \<longleftrightarrow> fst (seed_from_flags c allow tcp udp) \<noteq> c"
  (is "_ \<longleftrightarrow> ?c' \<noteq> c")
proof -
  have "?c' = c \<longleftrightarrow> shared_of ?c' = shared_of c \<and> peers_of ?c' = peers_of c"
    using config_eqI [of ?c' c] by (auto simp: seed_from_flags_parts(3))
  then show ?thesis
    by (auto simp: seed_from_flags_snd seed_from_flags_parts(1,2) push_missing_flag)
qed

lemma seed_from_flags_again:
  "seed_from_flags (fst (seed_from_flags c allow tcp udp)) allow tcp udp =
     (fst (seed_from_flags c allow tcp udp), False)" (is "seed_from_flags ?c' allow tcp udp = _")
proof -
  have sh: "push_missing offer_key (flag_offers tcp udp) (shared_of ?c', ch) = (shared_of ?c', ch)" for ch
    by (rule push_missing_noop) (simp add: seed_from_flags_parts push_missing_keys)
  have ps: "push_missing p_id (map new_peer allow) (peers_of ?c', ch) = (peers_of ?c', ch)" for ch
    by (rule push_missing_noop) (simp add: seed_from_flags_parts push_missing_keys)
  have "with_peers (with_shared ?c' (shared_of ?c')) (peers_of ?c') = ?c'"
    by (rule config_eqI) simp_all
  then show ?thesis
    by (simp add: seed_from_flags_eq [of ?c'] sh ps)
qed

text \<open>
  Seeding from flags is conservative, complete and idempotent. Every existing entry stays as
  it was, in its place; afterwards every flagged port and peer is listed; the flag reports
  whether anything changed; and a second run with the same flags changes nothing.
\<close>
theorem seed_from_flags_conservative:
  fixes c :: "'id Config" and allow tcp udp
  defines "c' \<equiv> fst (seed_from_flags c allow tcp udp)"
  shows "(\<exists>zs ps. shared_of c' = shared_of c @ zs \<and> peers_of c' = peers_of c @ ps \<and>
            bindings_of c' = bindings_of c) \<and>
         offer_key ` set (shared_of c') =
           offer_key ` set (shared_of c) \<union> Pair Tcp ` set tcp \<union> Pair Udp ` set udp \<and>
         p_id ` set (peers_of c') = p_id ` set (peers_of c) \<union> set allow \<and>
         (snd (seed_from_flags c allow tcp udp) \<longleftrightarrow> c' \<noteq> c) \<and>
         seed_from_flags c' allow tcp udp = (c', False)"
proof (intro conjI)
  show "\<exists>zs ps. shared_of c' = shared_of c @ zs \<and> peers_of c' = peers_of c @ ps \<and>
          bindings_of c' = bindings_of c"
    unfolding c'_def seed_from_flags_parts using push_missing_prefix by (metis prod.collapse)
  show "offer_key ` set (shared_of c') =
          offer_key ` set (shared_of c) \<union> Pair Tcp ` set tcp \<union> Pair Udp ` set udp"
    unfolding c'_def seed_from_flags_parts push_missing_keys flag_offers_keys by (rule Un_assoc [symmetric])
  show "p_id ` set (peers_of c') = p_id ` set (peers_of c) \<union> set allow"
    by (simp add: c'_def seed_from_flags_parts push_missing_keys image_image)
  show "snd (seed_from_flags c allow tcp udp) \<longleftrightarrow> c' \<noteq> c"
    unfolding c'_def by (rule seed_from_flags_flag)
  show "seed_from_flags c' allow tcp udp = (c', False)"
    unfolding c'_def by (rule seed_from_flags_again)
qed

text \<open>
  Seeding keeps a configuration valid, unless a flag names port 0: then the result is not
  valid and \<open>save\<close> refuses it. The same holds for the bindings of the connecting side.
\<close>
theorem seed_keeps_valid:
  assumes "config_wf c" and "0 \<notin> set tcp" and "0 \<notin> set udp"
    and "\<forall>m \<in> set maps_tcp \<union> set maps_udp. m_local m \<noteq> 0 \<and> m_remote m \<noteq> 0"
  shows "config_wf (fst (seed_from_flags c allow tcp udp)) \<and>
         config_wf (fst (seed_bindings c maps_tcp maps_udp))"
proof
  have wf: "offers_wf (shared_of c)" "peers_wf (peers_of c)" "bindings_wf (bindings_of c)"
    using assms(1) by (simp_all add: config_wf_def)
  have "\<forall>o' \<in> set (flag_offers tcp udp). offer_wf o'"
    using assms(2,3) by (auto simp: flag_offers_def)
  then show "config_wf (fst (seed_from_flags c allow tcp udp))"
    unfolding config_wf_def seed_from_flags_parts
    by (intro conjI push_missing_offers_wf push_missing_peers_wf wf) auto
  have "\<forall>b \<in> set (flag_bindings maps_tcp maps_udp). binding_wf b"
    using assms(4) by (auto simp: flag_bindings_def)
  then have "bindings_wf (fst (push_missing binding_key (flag_bindings maps_tcp maps_udp)
      (bindings_of c, False)))"
    by (intro push_missing_bindings_wf wf)
  then show "config_wf (fst (seed_bindings c maps_tcp maps_udp))"
    using wf by (auto simp: config_wf_def seed_bindings_eq split: prod.splits)
qed

lemma example_config_wf: "config_wf example_config"
  by (simp add: example_config_def config_wf_def offers_wf_def peers_wf_def bindings_wf_def
      offer_wf_def peer_wf_def binding_wf_def name_wf_def NAME_MAX_def lit_def is_control_def
      binding_key_def)

theorem seed_keeps_valid_witness:
  "config_wf (fst (seed_from_flags example_config [1, 3] [22, 80] [53])) \<and>
   config_wf (fst (seed_bindings example_config [\<lparr>m_local = 2222, m_remote = 80\<rparr>] []))"
  by (rule seed_keeps_valid) (simp_all add: example_config_wf)

end
