(* ===== verification/Persist.thy ===== *)
theory Persist
  imports Config
begin

text \<open>
  The persisted half of \<open>src/config.rs\<close>: reading and writing \<open>config.toml\<close>, and the admin token.
  The file system is a map from paths to contents with the three operations the code uses; which
  of them fail, and how much of a failed write reached the disk, is decided by an argument
  \<open>os\<close>. The \<open>toml\<close> crate and the random generator are arguments too.
\<close>

section \<open>Paths and files\<close>

type_synonym fs = "(path, rstring) fmap"

definition path_parent :: "path \<Rightarrow> path option" where
  "path_parent p = (if p = [] then None else Some (butlast p))"

text \<open>
  \<open>file_stem\<close>: the name up to its last dot, the whole name when it has none or only a leading one;
  \<open>with_extension\<close> replaces what follows the stem.
\<close>

fun rsplit_dot :: "rstring \<Rightarrow> (rstring \<times> rstring) option" where
  "rsplit_dot [] = None"
| "rsplit_dot (c # cs) =
     (case rsplit_dot cs of
        Some (a, b) \<Rightarrow> Some (c # a, b)
      | None \<Rightarrow> if c = 46 then Some ([], cs) else None)"

definition file_stem :: "rstring \<Rightarrow> rstring" where
  "file_stem n =
     (case rsplit_dot n of None \<Rightarrow> n | Some (a, b) \<Rightarrow> if a = [] then n else a)"

definition with_extension :: "path \<Rightarrow> rstring \<Rightarrow> path" where
  "with_extension p ext =
     (if p = [] then p else butlast p @ [file_stem (last p) @ [46] @ ext])"

datatype fs_op =
    CreateDirAll path
  | WriteFile path rstring
  | RenameFile path path

text \<open>What an operation does when it succeeds; a rename moves the content and frees the old name.\<close>

fun fs_apply :: "fs_op \<Rightarrow> fs \<Rightarrow> fs" where
  "fs_apply (CreateDirAll d) f = f"
| "fs_apply (WriteFile p s) f = fmupd p s f"
| "fs_apply (RenameFile p q) f =
     (case fmlookup f p of None \<Rightarrow> f | Some s \<Rightarrow> fmupd q s (fmdrop p f))"

text \<open>
  What an operation leaves when it fails or the machine stops in the middle of it: a write may
  have truncated the file and written any part of its content, the others leave nothing.
\<close>

fun fs_partial :: "fs_op \<Rightarrow> nat option \<Rightarrow> fs \<Rightarrow> fs" where
  "fs_partial (WriteFile p s) (Some n) f = fmupd p (take n s) f"
| "fs_partial op n f = f"

fun op_ctx :: "fs_op \<Rightarrow> 'id err_ctx" where
  "op_ctx (CreateDirAll d) = CtxCreating d"
| "op_ctx (WriteFile p s) = CtxWriting p"
| "op_ctx (RenameFile p q) = CtxReplacing q"

type_synonym os = "fs_op \<Rightarrow> (rstring \<times> nat option) option"

fun fs_exec :: "os \<Rightarrow> fs_op list \<Rightarrow> fs \<Rightarrow> ('id error + unit) \<times> fs" where
  "fs_exec os [] f = (Inr (), f)"
| "fs_exec os (op # ops) f =
     (case os op of
        Some (e, n) \<Rightarrow> (Inl (Context (op_ctx op) (Os e)), fs_partial op n f)
      | None \<Rightarrow> fs_exec os ops (fs_apply op f))"

text \<open>Every state a machine that stops during a list of operations can leave behind.\<close>

fun crash_states :: "fs_op list \<Rightarrow> fs \<Rightarrow> fs set" where
  "crash_states [] f = {f}"
| "crash_states (op # ops) f = {f} \<union> range (\<lambda>n. fs_partial op n f) \<union> crash_states ops (fs_apply op f)"

section \<open>The configuration file\<close>

definition CONFIG_HEADER :: rstring where
  "CONFIG_HEADER =
     lit ''# rtun configuration. Managed by the admin UI; safe to hand-edit while'' @ [10] @
     lit ''# rtun is not running, and re-read on the next start.'' @ [10, 10]"

definition tmp_path :: "path \<Rightarrow> path" where
  "tmp_path p = with_extension p (lit ''toml.tmp'')"

definition load ::
  "(path \<Rightarrow> rstring option) \<Rightarrow> (rstring \<Rightarrow> rstring + 'id Config) \<Rightarrow> path \<Rightarrow> fs \<Rightarrow> 'id error + 'id Config"
where
  "load read_fails from_toml path f =
     (case read_fails path of
        Some e \<Rightarrow> Inl (Context (CtxReading path) (Os e))
      | None \<Rightarrow>
          (case fmlookup f path of
             None \<Rightarrow> Inr default_config
           | Some s \<Rightarrow>
               and_then (map_err (\<lambda>e. Context (CtxParsing path) (Os e)) (from_toml s)) (\<lambda>cfg.
               and_then (map_err (Context (CtxInFile path)) (validate cfg)) (\<lambda>_.
                 Inr cfg))))"

lemma load_cong: "fmlookup f p = fmlookup f' p \<Longrightarrow> load rf from_toml p f = load rf from_toml p f'"
  by (simp only: load_def)

definition save_ops :: "path \<Rightarrow> rstring \<Rightarrow> fs_op list" where
  "save_ops path t =
     [WriteFile (tmp_path path) (CONFIG_HEADER @ t), RenameFile (tmp_path path) path]"

definition save ::
  "os \<Rightarrow> ('id Config \<Rightarrow> rstring + rstring) \<Rightarrow> path \<Rightarrow> 'id Config \<Rightarrow> fs \<Rightarrow> ('id error + unit) \<times> fs"
where
  "save os to_toml path cfg f =
     (case map_err (Context CtxRefusing) (validate cfg) of
        Inl e \<Rightarrow> (Inl e, f)
      | Inr _ \<Rightarrow>
          (case path_parent path of
             None \<Rightarrow> (Inl NoParent, f)
           | Some dir \<Rightarrow>
               (case fs_exec os [CreateDirAll dir] f of
                  (Inl e, f1) \<Rightarrow> (Inl e, f1)
                | (Inr _, f1) \<Rightarrow>
                    (case to_toml cfg of
                       Inl e \<Rightarrow> (Inl (Context CtxSerialising (Os e)), f1)
                     | Inr t \<Rightarrow> fs_exec os (save_ops path t) f1))))"

lemma rsplit_dot_None: "rsplit_dot n = None \<longleftrightarrow> 46 \<notin> set n"
  by (induction n) (auto split: option.splits)

lemma rsplit_dot_Some: "rsplit_dot n = Some (a, b) \<Longrightarrow> n = a @ [46] @ b \<and> 46 \<notin> set b"
proof (induction n arbitrary: a)
  case Nil
  then show ?case by simp
next
  case (Cons c n)
  then show ?case
    using rsplit_dot_None [of n] by (auto split: option.splits if_splits)
qed

lemma lit_toml_tmp: "lit ''toml.tmp'' = [116, 111, 109, 108, 46, 116, 109, 112]"
  by (simp add: lit_def)

lemma file_stem_toml_tmp: "file_stem n @ [46] @ lit ''toml.tmp'' \<noteq> n"
proof (cases "rsplit_dot n")
  case None
  then have "46 \<notin> set n" by (simp add: rsplit_dot_None)
  then show ?thesis by (metis in_set_conv_decomp append_Cons append_Nil)
next
  case (Some ab)
  then obtain a b where ab: "rsplit_dot n = Some (a, b)" by (cases ab) auto
  then have n: "n = a @ [46] @ b" "46 \<notin> set b" using rsplit_dot_Some by blast+
  show ?thesis
  proof (cases "a = []")
    case True
    with ab show ?thesis by (simp add: file_stem_def)
  next
    case False
    have "b \<noteq> lit ''toml.tmp''" using n(2) by (auto simp: lit_toml_tmp)
    with ab False n(1) show ?thesis by (simp add: file_stem_def)
  qed
qed

lemma tmp_path_neq: "p \<noteq> [] \<Longrightarrow> tmp_path p \<noteq> p"
proof
  assume p: "p \<noteq> []" and eq: "tmp_path p = p"
  then have "file_stem (last p) @ [46] @ lit ''toml.tmp'' = last p"
    using last_snoc [of "butlast p" "file_stem (last p) @ [46] @ lit ''toml.tmp''"]
    by (simp add: tmp_path_def with_extension_def)
  then show False using file_stem_toml_tmp by blast
qed

lemma fs_exec_save_ops:
  assumes "tmp_path path \<noteq> path"
  shows "fs_exec os (save_ops path t) f = (r, f') \<Longrightarrow>
     (r = Inr () \<and> fmlookup f' path = Some (CONFIG_HEADER @ t) \<or>
      (\<exists>e. r = Inl e) \<and> fmlookup f' path = fmlookup f path) \<and>
     (q \<noteq> path \<longrightarrow> q \<noteq> tmp_path path \<longrightarrow> fmlookup f' q = fmlookup f q)"
proof -
  have "fmlookup (fs_partial (WriteFile p s) n f) q = fmlookup f q" if "q \<noteq> p" for p s n q
    using that by (cases n) auto
  with assms show "fs_exec os (save_ops path t) f = (r, f') \<Longrightarrow> ?thesis"
    by (auto simp: save_ops_def split: option.splits prod.splits)
qed

text \<open>The outcome of a save: all of it, or none of it.\<close>

lemma save_outcome:
  assumes "save os to_toml path cfg f = (r, f')"
  shows "(r = Inr () \<longrightarrow> config_wf cfg \<and>
            (\<exists>t. to_toml cfg = Inr t \<and> fmlookup f' path = Some (CONFIG_HEADER @ t))) \<and>
         ((\<exists>e. r = Inl e) \<longrightarrow> fmlookup f' path = fmlookup f path) \<and>
         (q \<noteq> path \<longrightarrow> q \<noteq> tmp_path path \<longrightarrow> fmlookup f' q = fmlookup f q)"
proof -
  have "path_parent path \<noteq> None \<Longrightarrow> tmp_path path \<noteq> path"
    by (rule tmp_path_neq) (auto simp: path_parent_def)
  then show ?thesis
    using assms
    by (auto simp: save_def map_err_Inr_iff validate_ok
        dest!: fs_exec_save_ops [where q = q, rotated]
        split: sum.splits option.splits prod.splits)
qed

lemma fs_exec_in_crash: "fs_exec os ops f = (r, f') \<Longrightarrow> f' \<in> crash_states ops f"
  by (induction ops arbitrary: f) (auto split: option.splits)

text \<open>
  C19: what a save leaves is what a restart reads. When the save succeeds, the file loads as the
  saved configuration; when it fails, at whatever step, the file loads as it did before. The one
  law used of the TOML library is that it parses what it printed under the file's comment.
\<close>
theorem save_then_load:
  assumes "save os to_toml path cfg f = (r, f')"
    and "read_fails path = None"
    and "\<And>t. to_toml cfg = Inr t \<Longrightarrow> from_toml (CONFIG_HEADER @ t) = Inr cfg"
  shows "load read_fails from_toml path f' =
           (if is_ok r then Inr cfg else load read_fails from_toml path f)"
proof (cases r)
  case (Inl e)
  then have "fmlookup f' path = fmlookup f path"
    using save_outcome [OF assms(1)] by auto
  with Inl assms(2) show ?thesis by (simp add: load_def)
next
  case (Inr u)
  then have wf: "validate cfg = Inr ()" and "\<exists>t. to_toml cfg = Inr t \<and> fmlookup f' path = Some (CONFIG_HEADER @ t)"
    using save_outcome [OF assms(1)] by (auto simp: validate_ok)
  then obtain t where "to_toml cfg = Inr t" "fmlookup f' path = Some (CONFIG_HEADER @ t)" by blast
  with Inr wf assms(2,3) show ?thesis by (simp add: load_def)
qed

theorem save_then_load_witness:
  "load (\<lambda>_. None) (\<lambda>s. if s = CONFIG_HEADER then Inr example_config else Inl [])
     [lit ''state'', lit ''config.toml'']
     (snd (save (\<lambda>_. None) (\<lambda>_. Inr []) [lit ''state'', lit ''config.toml''] example_config fmempty)) =
   (if is_ok (fst (save (\<lambda>_. None) (\<lambda>_. Inr []) [lit ''state'', lit ''config.toml'']
              example_config fmempty))
    then Inr example_config
    else load (\<lambda>_. None) (\<lambda>s. if s = CONFIG_HEADER then Inr example_config else Inl [])
           [lit ''state'', lit ''config.toml''] fmempty)"
  by (rule save_then_load [where os = "\<lambda>_. None" and to_toml = "\<lambda>_. Inr []"]) simp_all



section \<open>The admin token\<close>

text \<open>Two lower-case hexadecimal digits per byte; \<open>bytes\<close> comes from the random generator.\<close>

definition hex_digit :: "nat \<Rightarrow> rchar" where
  "hex_digit n = (if n < 10 then 48 + n else 87 + n)"

definition hex_byte :: "u8 \<Rightarrow> rstring" where
  "hex_byte b = [hex_digit (unat b div 16), hex_digit (unat b mod 16)]"

definition mint_token :: "u8 list \<Rightarrow> rstring" where
  "mint_token bytes = concat (map hex_byte bytes)"

text \<open>
  \<open>read\<close> is the result of reading the token file as text (\<open>None\<close> for any failure, a missing file
  included); the token is minted only when there is no usable one.
\<close>

text \<open>
  A failure to open the file leaves it alone and is reported with its path; a failure while
  writing leaves a prefix and is reported as it is.
\<close>

definition write_secret :: "os \<Rightarrow> path \<Rightarrow> rstring \<Rightarrow> fs \<Rightarrow> ('id error + unit) \<times> fs" where
  "write_secret os path s f =
     (case os (WriteFile path s) of
        None \<Rightarrow> (Inr (), fs_apply (WriteFile path s) f)
      | Some (e, None) \<Rightarrow> (Inl (Context (CtxCreating path) (Os e)), f)
      | Some (e, Some n) \<Rightarrow> (Inl (Os e), fs_partial (WriteFile path s) (Some n) f))"

definition token_path :: "path \<Rightarrow> path" where
  "token_path dir = dir @ [lit ''admin.token'']"

definition stored_token :: "(path \<Rightarrow> bool) \<Rightarrow> path \<Rightarrow> fs \<Rightarrow> rstring option" where
  "stored_token read_fails dir f =
     (if read_fails (token_path dir) then None
      else (case fmlookup f (token_path dir) of
              None \<Rightarrow> None
            | Some s \<Rightarrow> if trim s \<noteq> [] then Some (trim s) else None))"

definition load_or_create_token ::
  "os \<Rightarrow> (path \<Rightarrow> bool) \<Rightarrow> u8 list \<Rightarrow> path \<Rightarrow> fs \<Rightarrow> ('id error + rstring) \<times> fs" where
  "load_or_create_token os read_fails bytes dir f =
     (case stored_token read_fails dir f of
        Some t \<Rightarrow> (Inr t, f)
      | None \<Rightarrow>
          (case fs_exec os [CreateDirAll dir] f of
             (Inl e, f1) \<Rightarrow> (Inl e, f1)
           | (Inr _, f1) \<Rightarrow>
               (case write_secret os (token_path dir) (mint_token bytes) f1 of
                  (Inl e, f2) \<Rightarrow> (Inl e, f2)
                | (Inr _, f2) \<Rightarrow> (Inr (mint_token bytes), f2))))"

lemma dropWhile_none: "\<forall>c \<in> set s. \<not> p c \<Longrightarrow> dropWhile p s = s"
  by (cases s) auto

lemma trim_id: "\<forall>c \<in> set s. \<not> is_whitespace c \<Longrightarrow> trim s = s"
  by (simp add: trim_def dropWhile_none)

definition is_hex :: "rchar \<Rightarrow> bool" where
  "is_hex c \<longleftrightarrow> (48 \<le> c \<and> c \<le> 57) \<or> (97 \<le> c \<and> c \<le> 102)"

lemma hex_digit_is_hex: "n < 16 \<Longrightarrow> is_hex (hex_digit n)"
  by (auto simp: hex_digit_def is_hex_def)

lemma unat_u8_div16: "unat (b :: u8) div 16 < 16"
  using unsigned_less [of b, where ?'a = nat] by (simp add: less_mult_imp_div_less)

lemma mint_token_hex: "c \<in> set (mint_token bytes) \<Longrightarrow> is_hex c"
  by (auto simp: mint_token_def hex_byte_def intro!: hex_digit_is_hex unat_u8_div16)

lemma is_hex_not_whitespace: "is_hex c \<Longrightarrow> \<not> is_whitespace c"
  by (auto simp: is_hex_def is_whitespace_def)

lemma mint_token_length: "length (mint_token bytes) = 2 * length bytes"
  by (induction bytes) (auto simp: mint_token_def hex_byte_def)

lemma trim_mint_token: "trim (mint_token bytes) = mint_token bytes"
  by (intro trim_id ballI is_hex_not_whitespace mint_token_hex)

lemma load_or_create_token_minted:
  assumes "load_or_create_token os read_fails bytes dir f = (Inr t, f')"
    and "stored_token read_fails dir f = None"
  shows "t = mint_token bytes \<and> f' = fmupd (token_path dir) (mint_token bytes) f"
proof (cases "os (CreateDirAll dir)")
  case None
  then show ?thesis
    using assms by (auto simp: load_or_create_token_def write_secret_def split: option.splits)
next
  case (Some e)
  then show ?thesis
    using assms by (cases e) (simp add: load_or_create_token_def)
qed

text \<open>
  The admin token is stable and never empty. Whatever the token file held, a start that
  obtains a token obtains a non-empty one, and every later start, with whatever fresh random
  bytes, obtains the same one and writes nothing.
\<close>
theorem token_stable:
  assumes "load_or_create_token os read_fails bytes dir f = (Inr t, f')"
    and "bytes \<noteq> []" and "\<not> read_fails (token_path dir)"
  shows "t \<noteq> [] \<and> load_or_create_token os' read_fails bytes' dir f' = (Inr t, f')"
proof -
  have "stored_token read_fails dir f' = Some t \<and> t \<noteq> []"
  proof (cases "stored_token read_fails dir f")
    case (Some t0)
    then have "t0 \<noteq> []" by (auto simp: stored_token_def split: option.splits if_splits)
    with Some assms(1) show ?thesis by (auto simp: load_or_create_token_def)
  next
    case None
    have "mint_token bytes \<noteq> []" using assms(2) mint_token_length [of bytes] by auto
    with load_or_create_token_minted [OF assms(1) None] assms(3) show ?thesis
      by (simp add: stored_token_def trim_mint_token)
  qed
  then show ?thesis by (simp add: load_or_create_token_def)
qed

theorem token_stable_witness:
  "mint_token [0, 171] \<noteq> [] \<and>
   load_or_create_token (\<lambda>_. Some ([], None)) (\<lambda>_. False) [7] []
     (fmupd (token_path []) (mint_token [0, 171]) (fmupd (token_path []) [32, 10] fmempty)) =
     (Inr (mint_token [0, 171]) :: nat error + rstring,
      fmupd (token_path []) (mint_token [0, 171]) (fmupd (token_path []) [32, 10] fmempty))"
  by (rule token_stable [where os = "\<lambda>_. None" and bytes = "[0, 171]" and
        f = "fmupd (token_path []) [32, 10] fmempty"])
     (simp_all add: load_or_create_token_def stored_token_def write_secret_def trim_def
        is_whitespace_def)

text \<open>
  \<open>token_eq\<close>: the lengths in bytes first, then one pass over all byte pairs, accumulating the
  differences.
\<close>

definition token_eq :: "rstring \<Rightarrow> rstring \<Rightarrow> bool" where
  "token_eq a b =
     (let x = as_bytes a; y = as_bytes b
      in if length x \<noteq> length y then False
         else foldl (\<lambda>acc (p, q). acc OR (p XOR q)) (0 :: u8) (zip x y) = 0)"

lemma foldl_or_xor_zero:
  "length xs = length ys \<Longrightarrow>
     foldl (\<lambda>acc (p, q). acc OR (p XOR q)) (a :: u8) (zip xs ys) = 0 \<longleftrightarrow> a = 0 \<and> xs = ys"
proof (induction xs ys arbitrary: a rule: list_induct2)
  case Nil
  then show ?case by simp
next
  case (Cons x xs y ys)
  have "a OR (x XOR y) = 0 \<longleftrightarrow> a = 0 \<and> x = y"
    by (metis or_eq_0_iff xor_self_eq xor.right_neutral xor.assoc xor.left_neutral)
  with Cons.IH show ?case by auto
qed

lemma token_eq_bytes: "token_eq a b \<longleftrightarrow> as_bytes a = as_bytes b"
  using foldl_or_xor_zero [of "as_bytes a" "as_bytes b" 0] by (auto simp: token_eq_def Let_def)

text \<open>
  The constant-time comparison accepts exactly equal tokens: two strings compare equal under
  the byte-wise accumulation exactly when they are the same string.
\<close>
theorem token_eq_exact:
  assumes "valid_str a" and "valid_str b"
  shows "token_eq a b \<longleftrightarrow> a = b"
  using assms by (simp add: token_eq_bytes as_bytes_inj)

theorem token_eq_exact_witness: "token_eq [97, 233] [97, 8364] \<longleftrightarrow> [97, 233] = [97, 8364 :: nat]"
  by (rule token_eq_exact) (simp_all add: valid_str_def scalar_def)

end
