(* ===== verification/State.thy ===== *)
theory State
  imports Persist
begin

text \<open>
  The shared state of \<open>src/state.rs\<close>: the running configuration, changed only by \<open>mutate\<close>, and the
  runtime facts the admin panel reports. Time is an argument, in nanoseconds; the printed forms of
  an endpoint id come from the \<open>iroh\<close> crate and are arguments.
\<close>

section \<open>Data\<close>

definition SEC :: nat where
  "SEC = 1000000000"

datatype Role = RoleServe | RoleConnect

datatype BindState = Listening | Failed rstring

record PathInfo =
  pi_path :: rstring
  pi_addr :: "rstring option"
  pi_rtt :: "nat option"

definition default_path_info :: PathInfo where
  "default_path_info = \<lparr>pi_path = [], pi_addr = None, pi_rtt = None\<rparr>"

record PeerLive =
  pl_id :: rstring
  pl_short :: rstring
  pl_path :: rstring
  pl_addr :: "rstring option"
  pl_rtt :: "nat option"
  pl_since :: nat

record 'id Runtime =
  rt_peers :: "('id, nat \<times> PathInfo) fmap"
  rt_binds :: "(Proto \<times> u16, BindState) fmap"

record 'id Shared =
  sh_path :: path
  sh_role :: Role
  sh_cfg :: "'id Config"
  sh_runtime :: "'id Runtime"
  sh_started :: nat

definition shared_new :: "'id Config \<Rightarrow> path \<Rightarrow> Role \<Rightarrow> nat \<Rightarrow> 'id Shared" where
  "shared_new cfg path role now =
     \<lparr>sh_path = path, sh_role = role, sh_cfg = cfg,
      sh_runtime = \<lparr>rt_peers = fmempty, rt_binds = fmempty\<rparr>, sh_started = now\<rparr>"

definition uptime_secs :: "nat \<Rightarrow> 'id Shared \<Rightarrow> nat" where
  "uptime_secs now s = (now - sh_started s) div SEC"

section \<open>The one writer path\<close>

text \<open>
  \<open>mutate\<close> edits a copy, validates it, writes it and only then publishes it. It runs under the
  \<open>write\<close> lock, so it is one step. The state is the shared state and the file system.
\<close>

definition mutate ::
  "('id Config \<Rightarrow> rstring + rstring) \<Rightarrow> os \<Rightarrow> ('id Config \<Rightarrow> 'id error + 'id Config \<times> 'a) \<Rightarrow>
     'id Shared \<times> fs \<Rightarrow> ('id error + 'a) \<times> 'id Shared \<times> fs" where
  "mutate to_toml os f st =
     (let (s, files) = st
      in case f (sh_cfg s) of
           Inl e \<Rightarrow> (Inl e, s, files)
         | Inr (next, out) \<Rightarrow>
             (case validate next of
                Inl e \<Rightarrow> (Inl e, s, files)
              | Inr _ \<Rightarrow>
                  (case save os to_toml (sh_path s) next files of
                     (Inl e, files') \<Rightarrow> (Inl (Context (CtxPersisting (sh_path s)) e), s, files')
                   | (Inr _, files') \<Rightarrow> (Inr out, s\<lparr>sh_cfg := next\<rparr>, files'))))"

definition node_running :: "'id Shared \<times> fs \<Rightarrow> 'id Config" where
  "node_running st = sh_cfg (fst st)"

definition node_disk :: "'id Shared \<times> fs \<Rightarrow> rstring option" where
  "node_disk st = fmlookup (snd st) (sh_path (fst st))"

definition renders :: "('id Config \<Rightarrow> rstring + rstring) \<Rightarrow> 'id Config \<Rightarrow> rstring option \<Rightarrow> bool" where
  "renders to_toml c d \<longleftrightarrow> (\<exists>t. to_toml c = Inr t \<and> d = Some (CONFIG_HEADER @ t))"

text \<open>
  A sequence of edits, each with the behaviour of the disk at its time; an edit that fails is
  reported to its caller and the next one starts from the state it left.
\<close>

definition run_edits :: "('o \<Rightarrow> 'f \<Rightarrow> 's \<Rightarrow> 'r \<times> 's) \<Rightarrow> ('o \<times> 'f) list \<Rightarrow> 's \<Rightarrow> 's" where
  "run_edits commit es s = fold (\<lambda>(os, f) t. snd (commit os f t)) es s"

lemma run_edits_simps [simp]:
  "run_edits commit [] s = s"
  "run_edits commit ((os, f) # es) s = run_edits commit es (snd (commit os f s))"
  by (simp_all add: run_edits_def)

text \<open>
  The contract of a transactional store, which is what the admin handlers rely on: an accepted
  edit is what its function computed, is valid, and is on disk as well as running; a refused one
  changes neither.
\<close>

locale config_store =
  fixes running :: "'s \<Rightarrow> 'c"
    and ondisk :: "'s \<Rightarrow> 'd"
    and valid :: "'c \<Rightarrow> bool"
    and rendered :: "'c \<Rightarrow> 'd \<Rightarrow> bool"
    and commit :: "'o \<Rightarrow> ('c \<Rightarrow> 'e + 'c \<times> 'a) \<Rightarrow> 's \<Rightarrow> ('e + 'a) \<times> 's"
  assumes commit_ok: "commit os f s = (Inr a, s') \<Longrightarrow>
      f (running s) = Inr (running s', a) \<and> valid (running s') \<and> rendered (running s') (ondisk s')"
    and commit_err: "commit os f s = (Inl e, s') \<Longrightarrow> running s' = running s \<and> ondisk s' = ondisk s"
begin

lemma commit_keeps:
  assumes "P (running s) (ondisk s)"
    and "\<And>c d. valid c \<Longrightarrow> rendered c d \<Longrightarrow> P c d"
    and "commit os f s = (r, s')"
  shows "P (running s') (ondisk s')"
proof (cases r)
  case (Inl e)
  with assms show ?thesis using commit_err [of os f s e s'] by simp
next
  case (Inr a)
  with assms show ?thesis using commit_ok [of os f s a s'] by simp
qed

lemma edits_keep:
  assumes "P (running s) (ondisk s)"
    and "\<And>c d. valid c \<Longrightarrow> rendered c d \<Longrightarrow> P c d"
  shows "P (running (run_edits commit es s)) (ondisk (run_edits commit es s))"
  using assms(1)
proof (induction es arbitrary: s)
  case Nil
  then show ?case by simp
next
  case (Cons e es)
  obtain os f where e: "e = (os, f)" by (cases e)
  have "P (running (snd (commit os f s))) (ondisk (snd (commit os f s)))"
    using Cons.prems assms(2) prod.collapse [symmetric] by (rule commit_keeps)
  then show ?case using Cons.IH by (simp add: e)
qed

lemma edits_valid:
  assumes "valid (running s)"
  shows "valid (running (run_edits commit es s))"
  using edits_keep [where P = "\<lambda>c _. valid c", OF assms] by simp

end

lemma mutate_cases:
  assumes "mutate to_toml os f (s, files) = (r, s', files')"
  obtains (closure) e where "f (sh_cfg s) = Inl e" "r = Inl e" "s' = s" "files' = files"
  | (invalid) c a e where "f (sh_cfg s) = Inr (c, a)" "validate c = Inl e" "r = Inl e" "s' = s"
      "files' = files"
  | (unsaved) c a e where "f (sh_cfg s) = Inr (c, a)" "config_wf c"
      "save os to_toml (sh_path s) c files = (Inl e, files')"
      "r = Inl (Context (CtxPersisting (sh_path s)) e)" "s' = s"
  | (committed) c a where "f (sh_cfg s) = Inr (c, a)" "config_wf c"
      "save os to_toml (sh_path s) c files = (Inr (), files')" "r = Inr a" "s' = s\<lparr>sh_cfg := c\<rparr>"
proof (cases "f (sh_cfg s)")
  case (Inl e)
  show thesis by (rule closure [OF Inl]) (use assms Inl in \<open>simp_all add: mutate_def\<close>)
next
  case (Inr ca)
  then obtain c a where f: "f (sh_cfg s) = Inr (c, a)" by (cases ca) simp
  show thesis
  proof (cases "validate c")
    case (Inl e)
    show thesis by (rule invalid [OF f Inl]) (use assms f Inl in \<open>simp_all add: mutate_def\<close>)
  next
    case (Inr u)
    then have wf: "validate c = Inr ()" "config_wf c" by (simp_all add: validate_ok)
    obtain w files2 where sv: "save os to_toml (sh_path s) c files = (w, files2)"
      by (cases "save os to_toml (sh_path s) c files")
    show thesis
    proof (cases w)
      case (Inl e)
      with assms f wf sv have eqs: "r = Inl (Context (CtxPersisting (sh_path s)) e)" "s' = s" "files' = files2"
        by (auto simp: mutate_def)
      show thesis by (rule unsaved [OF f wf(2) _ eqs(1,2)]) (simp add: sv Inl eqs)
    next
      case (Inr u)
      with assms f wf sv have eqs: "r = Inr a" "s' = s\<lparr>sh_cfg := c\<rparr>" "files' = files2"
        by (auto simp: mutate_def)
      show thesis by (rule committed [OF f wf(2) _ eqs(1,2)]) (simp add: sv Inr eqs)
    qed
  qed
qed

lemma mutate_Inr:
  assumes "mutate to_toml os f st = (Inr a, st')"
  shows "f (node_running st) = Inr (node_running st', a) \<and> config_wf (node_running st') \<and>
         renders to_toml (node_running st') (node_disk st')"
proof -
  obtain s files s' files' where st: "st = (s, files)" "st' = (s', files')"
    by (cases st, cases st')
  show ?thesis
  proof (cases rule: mutate_cases [OF assms [unfolded st], case_names closure invalid unsaved committed])
    case (committed c b)
    then show ?thesis
      using save_outcome [OF committed(3)] by (simp add: st node_running_def node_disk_def renders_def)
  qed simp_all
qed

lemma mutate_Inl:
  assumes "mutate to_toml os f st = (Inl e, st')"
  shows "node_running st' = node_running st \<and> node_disk st' = node_disk st"
proof -
  obtain s files s' files' where st: "st = (s, files)" "st' = (s', files')"
    by (cases st, cases st')
  show ?thesis
  proof (cases rule: mutate_cases [OF assms [unfolded st], case_names closure invalid unsaved committed])
    case (unsaved c b d)
    then show ?thesis
      using save_outcome [OF unsaved(3)] by (simp add: st node_running_def node_disk_def)
  qed (simp_all add: st node_running_def node_disk_def)
qed

interpretation store: config_store node_running node_disk config_wf "renders to_toml"
    "mutate to_toml :: os \<Rightarrow> ('id Config \<Rightarrow> 'id error + 'id Config \<times> 'a) \<Rightarrow>
       'id Shared \<times> fs \<Rightarrow> ('id error + 'a) \<times> 'id Shared \<times> fs"
  for to_toml :: "'id Config \<Rightarrow> rstring + rstring"
  by unfold_locales (rule mutate_Inr mutate_Inl, assumption)+

lemma mutate_frame:
  assumes "mutate to_toml os f (s, files) = (r, s', files')"
  shows "sh_path s' = sh_path s \<and> sh_role s' = sh_role s \<and> sh_runtime s' = sh_runtime s \<and>
         sh_started s' = sh_started s"
  using assms by (cases rule: mutate_cases) simp_all

text \<open>
  C7: \<open>mutate\<close> is all or nothing. If it reports success, the running configuration is what the
  edit computed from the old one, it is valid, and the file holds it; if it reports an error, for
  whatever reason, neither the running configuration nor the file has changed.
\<close>
theorem mutate_all_or_nothing:
  assumes "mutate to_toml os f (s, files) = (r, s', files')"
  shows "(case r of
            Inr a \<Rightarrow> f (sh_cfg s) = Inr (sh_cfg s', a) \<and> config_wf (sh_cfg s') \<and>
              (\<exists>t. to_toml (sh_cfg s') = Inr t \<and>
                 fmlookup files' (sh_path s) = Some (CONFIG_HEADER @ t))
          | Inl e \<Rightarrow> s' = s \<and> fmlookup files' (sh_path s) = fmlookup files (sh_path s))"
proof (cases r)
  case (Inr a)
  with assms store.commit_ok [of to_toml os f "(s, files)" a "(s', files')"] mutate_frame [OF assms]
  show ?thesis by (simp add: node_running_def node_disk_def renders_def)
next
  case (Inl e)
  have "s' = s" using assms by (cases rule: mutate_cases) (simp_all add: Inl)
  with assms Inl store.commit_err [of to_toml os f "(s, files)" e "(s', files')"]
  show ?thesis by (simp add: node_disk_def)
qed

lemma run_edits_path: "sh_path (fst (run_edits (mutate to_toml) es st)) = sh_path (fst st)"
proof (induction es arbitrary: st)
  case Nil
  then show ?case by simp
next
  case (Cons e es)
  obtain os f where e: "e = (os, f)" by (cases e)
  obtain s files where st: "st = (s, files)" by (cases st)
  obtain r s' files' where m: "mutate to_toml os f (s, files) = (r, s', files')"
    by (cases "mutate to_toml os f (s, files)") auto
  then show ?case using Cons.IH mutate_frame [OF m] by (simp add: e st)
qed

definition example_shared :: "nat Shared" where
  "example_shared = shared_new default_config [lit ''state'', lit ''config.toml''] RoleServe 0"

theorem mutate_all_or_nothing_witness:
  "case mutate (\<lambda>_. Inr [35]) (\<lambda>_. None) (\<lambda>_. Inr (example_config, True)) (example_shared, fmempty)
   of (r, s', files') \<Rightarrow>
     r = Inr True \<and> sh_cfg s' = example_config \<and> config_wf (sh_cfg s') \<and>
     fmlookup files' (sh_path example_shared) = Some (CONFIG_HEADER @ [35])"
proof -
  have valid: "validate example_config = Inr ()"
    using example_config_wf by (simp add: validate_ok)
  have run: "mutate (\<lambda>_. Inr [35]) (\<lambda>_. None) (\<lambda>_. Inr (example_config, True)) (example_shared, fmempty) =
      (Inr True, example_shared\<lparr>sh_cfg := example_config\<rparr>,
       snd (fs_exec (\<lambda>_. None) (save_ops (sh_path example_shared) [35]) fmempty
              :: (nat error + unit) \<times> fs))"
    by (simp add: mutate_def valid save_def save_ops_def example_shared_def shared_new_def path_parent_def)
  show ?thesis
    using mutate_all_or_nothing [OF run] example_config_wf by (simp add: run)
qed

text \<open>
  What is running is always what a restart would load. Start from a state that agrees with
  its file; then after any sequence of edits, with any closures, any failures of the disk and any
  rejected edit among them, the running configuration is still valid and loading the file gives
  exactly it. The law used of the TOML library: it parses what it printed for a valid configuration.
\<close>
theorem running_is_on_disk:
  fixes es :: "(os \<times> ('id Config \<Rightarrow> 'id error + 'id Config \<times> 'a)) list"
  assumes "config_wf (sh_cfg s)"
    and "load (\<lambda>_. None) from_toml (sh_path s) files = Inr (sh_cfg s)"
    and "\<And>c t. config_wf c \<Longrightarrow> to_toml c = Inr t \<Longrightarrow> from_toml (CONFIG_HEADER @ t) = Inr c"
    and "run_edits (mutate to_toml) es (s, files) = (s', files')"
  shows "config_wf (sh_cfg s') \<and> load (\<lambda>_. None) from_toml (sh_path s') files' = Inr (sh_cfg s')"
proof -
  define agree where "agree c d \<longleftrightarrow> config_wf c \<and> load (\<lambda>_. None) from_toml (sh_path s)
      (case d of None \<Rightarrow> fmempty | Some t \<Rightarrow> fmupd (sh_path s) t fmempty) = Inr c" for c d
  have agree_iff: "agree c (fmlookup f (sh_path s)) \<longleftrightarrow>
      config_wf c \<and> load (\<lambda>_. None) from_toml (sh_path s) f = Inr c" for c f
    unfolding agree_def
    by (rule conj_cong [OF refl], rule arg_cong [where f = "\<lambda>x. x = Inr c"], rule load_cong)
       (simp split: option.splits)
  have path: "sh_path s' = sh_path s"
    using run_edits_path [of to_toml es "(s, files)"] assms(4) by simp
  have "agree (node_running (run_edits (mutate to_toml) es (s, files)))
      (node_disk (run_edits (mutate to_toml) es (s, files)))"
  proof (rule store.edits_keep)
    show "agree (node_running (s, files)) (node_disk (s, files))"
      using assms(1,2) by (simp add: node_running_def node_disk_def agree_iff)
    show "agree c d" if "config_wf c" "renders to_toml c d" for c d
      using that assms(3) by (auto simp: agree_def renders_def load_def validate_wf)
  qed
  then show ?thesis
    by (simp add: assms(4) node_running_def node_disk_def path agree_iff)
qed

theorem running_is_on_disk_witness:
  fixes to_toml :: "nat Config \<Rightarrow> rstring + rstring"
  defines "to_toml \<equiv> \<lambda>c. if c = example_config then Inr [] else Inl []"
  shows "config_wf (sh_cfg (fst (run_edits (mutate to_toml)
           [(\<lambda>_. None, \<lambda>_. Inr (example_config, ()))] (example_shared, fmempty)))) \<and>
         load (\<lambda>_. None) (\<lambda>s. if s = CONFIG_HEADER then Inr example_config else Inl [])
           (sh_path (fst (run_edits (mutate to_toml)
             [(\<lambda>_. None, \<lambda>_. Inr (example_config, ()))] (example_shared, fmempty))))
           (snd (run_edits (mutate to_toml)
             [(\<lambda>_. None, \<lambda>_. Inr (example_config, ()))] (example_shared, fmempty))) =
         Inr (sh_cfg (fst (run_edits (mutate to_toml)
           [(\<lambda>_. None, \<lambda>_. Inr (example_config, ()))] (example_shared, fmempty))))"
  by (rule running_is_on_disk [where s = example_shared and files = fmempty and to_toml = to_toml
        and es = "[(\<lambda>_. None, \<lambda>_. Inr (example_config, ()))]"])
     (auto simp: example_shared_def shared_new_def load_def to_toml_def split: if_splits)

section \<open>Runtime facts\<close>

definition with_peers_rt :: "'id Shared \<Rightarrow> ('id, nat \<times> PathInfo) fmap \<Rightarrow> 'id Shared" where
  "with_peers_rt s m = s\<lparr>sh_runtime := (sh_runtime s)\<lparr>rt_peers := m\<rparr>\<rparr>"

definition with_binds_rt :: "'id Shared \<Rightarrow> (Proto \<times> u16, BindState) fmap \<Rightarrow> 'id Shared" where
  "with_binds_rt s m = s\<lparr>sh_runtime := (sh_runtime s)\<lparr>rt_binds := m\<rparr>\<rparr>"

abbreviation live_of :: "'id Shared \<Rightarrow> ('id, nat \<times> PathInfo) fmap" where
  "live_of s \<equiv> rt_peers (sh_runtime s)"

abbreviation binds_of :: "'id Shared \<Rightarrow> (Proto \<times> u16, BindState) fmap" where
  "binds_of s \<equiv> rt_binds (sh_runtime s)"

text \<open>\<open>entry(id).or_insert_with(..)\<close>: an entry that is there already is kept as it is.\<close>

definition peer_connected :: "nat \<Rightarrow> 'id \<Rightarrow> 'id Shared \<Rightarrow> 'id Shared" where
  "peer_connected now i s =
     (case fmlookup (live_of s) i of
        Some _ \<Rightarrow> s
      | None \<Rightarrow> with_peers_rt s (fmupd i (now, default_path_info) (live_of s)))"

definition peer_disconnected :: "'id \<Rightarrow> 'id Shared \<Rightarrow> 'id Shared" where
  "peer_disconnected i s = with_peers_rt s (fmdrop i (live_of s))"

definition peer_path ::
  "'id \<Rightarrow> rstring \<Rightarrow> rstring option \<Rightarrow> nat option \<Rightarrow> 'id Shared \<Rightarrow> 'id Shared" where
  "peer_path i path addr rtt s =
     (case fmlookup (live_of s) i of
        None \<Rightarrow> s
      | Some (since, _) \<Rightarrow>
          with_peers_rt s
            (fmupd i (since, \<lparr>pi_path = path, pi_addr = addr, pi_rtt = rtt\<rparr>) (live_of s)))"

text \<open>
  The rows of the panel, in the order of the \<open>BTreeMap\<close>: ascending ids. \<open>to_string\<close> and \<open>fmt_short\<close>
  print an id.
\<close>

definition live_row ::
  "('id \<Rightarrow> rstring) \<Rightarrow> ('id \<Rightarrow> rstring) \<Rightarrow> nat \<Rightarrow> 'id \<times> nat \<times> PathInfo \<Rightarrow> PeerLive" where
  "live_row to_string fmt_short now =
     (\<lambda>(i, since, info).
        \<lparr>pl_id = to_string i, pl_short = fmt_short i,
         pl_path = (if pi_path info = [] then lit ''pending'' else pi_path info),
         pl_addr = pi_addr info, pl_rtt = pi_rtt info, pl_since = (now - since) div SEC\<rparr>)"

definition live_peers ::
  "('id::linorder \<Rightarrow> rstring) \<Rightarrow> ('id \<Rightarrow> rstring) \<Rightarrow> nat \<Rightarrow> 'id Shared \<Rightarrow> PeerLive list" where
  "live_peers to_string fmt_short now s =
     map (live_row to_string fmt_short now) (hm_iter (live_of s))"

definition set_bind :: "Proto \<Rightarrow> u16 \<Rightarrow> BindState \<Rightarrow> 'id Shared \<Rightarrow> 'id Shared" where
  "set_bind proto port st s = with_binds_rt s (fmupd (proto, port) st (binds_of s))"

definition clear_bind :: "Proto \<Rightarrow> u16 \<Rightarrow> 'id Shared \<Rightarrow> 'id Shared" where
  "clear_bind proto port s = with_binds_rt s (fmdrop (proto, port) (binds_of s))"

definition bind_state :: "Binding \<Rightarrow> 'id Shared \<Rightarrow> BindState option" where
  "bind_state b s = fmlookup (binds_of s) (b_proto b, b_local b)"

lemma rt_simps [simp]:
  "live_of (with_peers_rt s m) = m" "binds_of (with_peers_rt s m) = binds_of s"
  "live_of (with_binds_rt s b) = live_of s" "binds_of (with_binds_rt s b) = b"
  "sh_cfg (with_peers_rt s m) = sh_cfg s" "sh_cfg (with_binds_rt s b) = sh_cfg s"
  "sh_path (with_peers_rt s m) = sh_path s" "sh_path (with_binds_rt s b) = sh_path s"
  "sh_role (with_peers_rt s m) = sh_role s" "sh_role (with_binds_rt s b) = sh_role s"
  "sh_started (with_peers_rt s m) = sh_started s" "sh_started (with_binds_rt s b) = sh_started s"
  by (simp_all add: with_peers_rt_def with_binds_rt_def)

lemma runtime_frame [simp]:
  "sh_cfg (peer_connected now i s) = sh_cfg s" "sh_cfg (peer_disconnected i s) = sh_cfg s"
  "sh_cfg (peer_path i p a r s) = sh_cfg s" "sh_cfg (set_bind pr port st s) = sh_cfg s"
  "sh_cfg (clear_bind pr port s) = sh_cfg s"
  "binds_of (peer_connected now i s) = binds_of s" "binds_of (peer_disconnected i s) = binds_of s"
  "binds_of (peer_path i p a r s) = binds_of s"
  "live_of (set_bind pr port st s) = live_of s" "live_of (clear_bind pr port s) = live_of s"
  "binds_of (set_bind pr port st s) = fmupd (pr, port) st (binds_of s)"
  "binds_of (clear_bind pr port s) = fmdrop (pr, port) (binds_of s)"
  by (auto simp: peer_connected_def peer_disconnected_def peer_path_def set_bind_def clear_bind_def
      split: option.splits)

subsection \<open>What the runtime record means\<close>

datatype 'id rt_event =
    Connected nat 'id
  | Disconnected 'id
  | PathReport 'id rstring "rstring option" "nat option"

fun rt_apply :: "'id rt_event \<Rightarrow> 'id Shared \<Rightarrow> 'id Shared" where
  "rt_apply (Connected now i) s = peer_connected now i s"
| "rt_apply (Disconnected i) s = peer_disconnected i s"
| "rt_apply (PathReport i p a r) s = peer_path i p a r s"

fun rt_peer :: "'id rt_event \<Rightarrow> 'id" where
  "rt_peer (Connected now i) = i"
| "rt_peer (Disconnected i) = i"
| "rt_peer (PathReport i p a r) = i"

text \<open>One peer seen alone: not connected, or connected since a time with the last path reported.\<close>

fun peer_view :: "(nat \<times> PathInfo) option \<Rightarrow> 'id rt_event \<Rightarrow> (nat \<times> PathInfo) option" where
  "peer_view None (Connected now i) = Some (now, default_path_info)"
| "peer_view (Some v) (Connected now i) = Some v"
| "peer_view v (Disconnected i) = None"
| "peer_view None (PathReport i p a r) = None"
| "peer_view (Some (since, _)) (PathReport i p a r) =
     Some (since, \<lparr>pi_path = p, pi_addr = a, pi_rtt = r\<rparr>)"

lemma rt_apply_lookup:
  "fmlookup (live_of (rt_apply e s)) i =
     (if rt_peer e = i then peer_view (fmlookup (live_of s) i) e else fmlookup (live_of s) i)"
  by (cases e) (auto simp: peer_connected_def peer_disconnected_def peer_path_def split: option.splits)

text \<open>
  The runtime record of a peer is a function of that peer's own events, in their order: no
  event of another peer touches it, a path report for a peer that is not connected does not
  resurrect it, and a report never changes the time the connection was made.
\<close>
theorem runtime_per_peer:
  "fmlookup (live_of (fold rt_apply es s)) i =
     foldl peer_view (fmlookup (live_of s) i) (filter (\<lambda>e. rt_peer e = i) es)"
  by (induction es arbitrary: s) (auto simp: rt_apply_lookup)

text \<open>
  The panel lists exactly the connected peers, each once, in ascending order of their ids; a
  row shows the last path reported for its peer, \<open>pending\<close> when there is none, and whole seconds
  since it connected.
\<close>
theorem live_peers_rows:
  fixes s :: "('id::linorder) Shared"
  shows "map pl_id (live_peers to_string fmt_short now s) =
           map to_string (sorted_list_of_set {i. fmlookup (live_of s) i \<noteq> None}) \<and>
         (row \<in> set (live_peers to_string fmt_short now s) \<longleftrightarrow>
           (\<exists>i since info. fmlookup (live_of s) i = Some (since, info) \<and>
              row = \<lparr>pl_id = to_string i, pl_short = fmt_short i,
                     pl_path = (if pi_path info = [] then lit ''pending'' else pi_path info),
                     pl_addr = pi_addr info, pl_rtt = pi_rtt info,
                     pl_since = (now - since) div SEC\<rparr>))"
proof
  have ids: "sorted_list_of_fset (fmdom m) = sorted_list_of_set {i. fmlookup m i \<noteq> None}"
    for m :: "('id, nat \<times> PathInfo) fmap"
    by (simp add: sorted_list_of_fset.rep_eq fmdom.rep_eq dom_def)
  have "map pl_id (live_peers to_string fmt_short now s) =
      map to_string (map fst (hm_iter (live_of s)))"
    by (simp add: live_peers_def live_row_def case_prod_unfold)
  then show "map pl_id (live_peers to_string fmt_short now s) =
      map to_string (sorted_list_of_set {i. fmlookup (live_of s) i \<noteq> None})"
    unfolding hm_iter_keys ids .
  have "row \<in> set (live_peers to_string fmt_short now s) \<longleftrightarrow>
      (\<exists>i since info. (i, since, info) \<in> set (hm_iter (live_of s)) \<and>
         row = live_row to_string fmt_short now (i, since, info))"
    unfolding live_peers_def by (auto simp only: set_map image_iff)
  then show "row \<in> set (live_peers to_string fmt_short now s) \<longleftrightarrow>
      (\<exists>i since info. fmlookup (live_of s) i = Some (since, info) \<and>
         row = \<lparr>pl_id = to_string i, pl_short = fmt_short i,
                pl_path = (if pi_path info = [] then lit ''pending'' else pi_path info),
                pl_addr = pi_addr info, pl_rtt = pi_rtt info, pl_since = (now - since) div SEC\<rparr>)"
    by (simp only: hm_iter_mem live_row_def prod.case)
qed

end
