(* ===== verification/Cli.thy ===== *)
theory Cli
  imports State
begin

text \<open>
  What \<open>src/main.rs\<close> does before the data plane runs: where the state lives, the endpoint key, the
  address of the admin panel (\<open>admin_addr\<close> of \<open>src/config.rs\<close>) and the start of the two roles up
  to the shared state. The argument parser, the logging and the binding of the QUIC endpoint are
  not modelled.
\<close>

section \<open>The state directory\<close>

text \<open>\<open>env\<close> is \<open>env::var\<close>, \<open>windows\<close> the target of the build.\<close>

definition state_dir :: "bool \<Rightarrow> (rstring \<Rightarrow> rstring option) \<Rightarrow> 'id error + path" where
  "state_dir windows env =
     (case List.find (\<lambda>k. case env k of None \<Rightarrow> False | Some d \<Rightarrow> d \<noteq> [])
             [lit ''RTUN_STATE_DIR'', lit ''STATE_DIRECTORY''] of
        Some k \<Rightarrow> Inr [the (env k)]
      | None \<Rightarrow>
          map_err (\<lambda>_. NoStateDir)
            (and_then
               (if windows then ok_or () (map_option (\<lambda>d. [d]) (env (lit ''APPDATA'')))
                else ok_or () (map_option (\<lambda>h. [h, lit ''.local'', lit ''state'']) (env (lit ''HOME''))))
               (\<lambda>base. Inr (base @ [lit ''rtun'']))))"

definition config_path :: "bool \<Rightarrow> (rstring \<Rightarrow> rstring option) \<Rightarrow> 'id error + path" where
  "config_path windows env =
     and_then (state_dir windows env) (\<lambda>d. Inr (d @ [lit ''config.toml'']))"

section \<open>The endpoint key\<close>

definition key_path :: "path \<Rightarrow> path" where
  "key_path dir = dir @ [lit ''secret.key'']"

text \<open>
  On Unix the file is created with \<open>create_new\<close>, which fails when it is there; elsewhere it is
  written over. A failure while writing leaves a prefix.
\<close>

definition write_key :: "bool \<Rightarrow> os \<Rightarrow> path \<Rightarrow> rstring \<Rightarrow> fs \<Rightarrow> ('id error + unit) \<times> fs" where
  "write_key windows os path key f =
     (if windows
      then (case os (WriteFile path key) of
              None \<Rightarrow> (Inr (), fs_apply (WriteFile path key) f)
            | Some (e, n) \<Rightarrow> (Inl (Context (CtxCreating path) (Os e)), fs_partial (WriteFile path key) n f))
      else if fmlookup f path \<noteq> None
      then (Inl (Context (CtxCreating path) (Os (lit ''file exists''))), f)
      else write_secret os path key f)"

text \<open>The content of a key file is its bytes; \<open>fresh\<close> is \<open>SecretKey::generate\<close>.\<close>

definition load_or_create_key ::
  "bool \<Rightarrow> os \<Rightarrow> (path \<Rightarrow> rstring option) \<Rightarrow> rstring \<Rightarrow> path \<Rightarrow> fs \<Rightarrow> ('id error + rstring) \<times> fs" where
  "load_or_create_key windows os read_fails fresh dir f =
     (case read_fails (key_path dir) of
        Some e \<Rightarrow> (Inl (Context (CtxReading (key_path dir)) (Os e)), f)
      | None \<Rightarrow>
          (case fmlookup f (key_path dir) of
             Some bytes \<Rightarrow>
               if length bytes = 32 then (Inr bytes, f) else (Inl (BadKey (key_path dir)), f)
           | None \<Rightarrow>
               (case fs_exec os [CreateDirAll dir] f of
                  (Inl e, f1) \<Rightarrow> (Inl e, f1)
                | (Inr _, f1) \<Rightarrow>
                    (case write_key windows os (key_path dir) fresh f1 of
                       (Inl e, f2) \<Rightarrow> (Inl e, f2)
                     | (Inr _, f2) \<Rightarrow> (Inr fresh, f2)))))"

lemma write_key_ok:
  "write_key windows os path key f = (Inr u, f') \<Longrightarrow> f' = fmupd path key f"
  by (auto simp: write_key_def write_secret_def split: if_splits option.splits)

lemma load_key_makes:
  fixes r :: "'id error + rstring"
  assumes "load_or_create_key windows os read_fails fresh dir f = (r, f')"
    and "read_fails (key_path dir) = None" and "fmlookup f (key_path dir) = None"
  shows "r = Inr fresh \<and> f' = fmupd (key_path dir) fresh f \<or> (\<exists>e. r = Inl e)"
proof (cases "os (CreateDirAll dir)")
  case None
  obtain w :: "'id error + unit" and f2
    where w: "write_key windows os (key_path dir) fresh f = (w, f2)" by fastforce
  show ?thesis
  proof (cases w)
    case (Inl e)
    with assms None w show ?thesis by (auto simp: load_or_create_key_def)
  next
    case (Inr u)
    with w have "f2 = fmupd (key_path dir) fresh f" by (simp add: write_key_ok)
    with Inr assms None w show ?thesis by (auto simp: load_or_create_key_def)
  qed
next
  case (Some e)
  with assms show ?thesis by (cases e) (auto simp: load_or_create_key_def)
qed

text \<open>
  The identity of a machine is made once. A start that obtains a key obtains 32 bytes that are
  in the file, and every later start, on either platform, with whatever key it would generate,
  obtains the same and writes nothing; a file of any other length is refused and left alone.
\<close>
theorem key_stable:
  fixes r :: "'id error + rstring"
  assumes "load_or_create_key windows os read_fails fresh dir f = (r, f')"
    and "length fresh = 32" and "read_fails (key_path dir) = None"
  shows "(case r of
            Inr key \<Rightarrow> length key = 32 \<and> fmlookup f' (key_path dir) = Some key \<and>
              load_or_create_key windows' os' read_fails fresh' dir f' = (Inr key :: 'id error + rstring, f')
          | Inl e \<Rightarrow> (fmlookup f (key_path dir) \<noteq> None \<longrightarrow> f' = f \<and> e = BadKey (key_path dir)))"
proof (cases "fmlookup f (key_path dir)")
  case None
  then have "r = Inr fresh \<and> f' = fmupd (key_path dir) fresh f \<or> (\<exists>e. r = Inl e)"
    using load_key_makes assms(1,3) by blast
  with None assms(2,3) show ?thesis by (auto simp: load_or_create_key_def)
next
  case (Some bytes)
  with assms show ?thesis by (auto simp: load_or_create_key_def split: if_splits)
qed

theorem key_stable_witness:
  "fmlookup (fmupd (key_path [lit ''d'']) (replicate 32 7) fmempty) (key_path [lit ''d'']) = Some (replicate 32 7) \<and>
   load_or_create_key True (\<lambda>_. Some ([], None)) (\<lambda>_. None) [] [lit ''d'']
     (fmupd (key_path [lit ''d'']) (replicate 32 7) fmempty) =
     (Inr (replicate 32 7) :: nat error + rstring, fmupd (key_path [lit ''d'']) (replicate 32 7) fmempty)"
proof -
  have "load_or_create_key False (\<lambda>_. None) (\<lambda>_. None) (replicate 32 7) [lit ''d''] fmempty =
      (Inr (replicate 32 7) :: nat error + rstring, fmupd (key_path [lit ''d'']) (replicate 32 7) fmempty)"
    by (simp add: load_or_create_key_def write_key_def write_secret_def)
  from key_stable [OF this, where windows' = True and os' = "\<lambda>_. Some ([], None)" and fresh' = "[]"]
  show ?thesis by simp
qed

section \<open>The admin address\<close>

text \<open>
  The IPv4 form of \<open>SocketAddr::from_str\<close>: four decimal octets without leading zeros, a colon, a
  decimal port below 65536. The IPv6 form is the argument \<open>parse_v6\<close>.
\<close>

datatype 'v6 ip = V4 u8 u8 u8 u8 | V6 'v6

definition parse_octet :: "rstring \<Rightarrow> u8 option" where
  "parse_octet s =
     (if s = [] \<or> length s > 3 \<or> (hd s = 48 \<and> length s > 1) then None
      else (case dec_value 0 s of None \<Rightarrow> None | Some n \<Rightarrow> if n < 256 then Some (word_of_nat n) else None))"

definition parse_v4 :: "rstring \<Rightarrow> ('v6 ip \<times> u16) option" where
  "parse_v4 s =
     (case split_once 58 s of
        None \<Rightarrow> None
      | Some (host, port) \<Rightarrow>
          (case (map parse_octet (split_on 46 host), if port = [] then None else dec_value 0 port) of
             ([Some a, Some b, Some c, Some d], Some p) \<Rightarrow> Some (V4 a b c d, word_of_nat p)
           | _ \<Rightarrow> None))"

definition admin_addr :: "(rstring \<Rightarrow> ('v6 \<times> u16) option) \<Rightarrow> rstring \<Rightarrow> 'id error + 'v6 ip \<times> u16" where
  "admin_addr parse_v6 spec =
     (case parse_u16 spec of
        Some port \<Rightarrow>
          and_then (check_port port AdminPort) (\<lambda>_. Inr (V4 127 0 0 1, port))
      | None \<Rightarrow>
          and_then
            (ok_or (BadAdminSpec spec)
               (case parse_v4 spec of
                  Some a \<Rightarrow> Some a
                | None \<Rightarrow> map_option (\<lambda>(h, p). (V6 h, p)) (parse_v6 spec)))
            (\<lambda>(h, p). and_then (check_port p AdminPort) (\<lambda>_. Inr (h, p))))"

lemma admin_addr_Inr:
  "(admin_addr parse_v6 spec :: 'id error + 'v6 ip \<times> u16) = Inr (h, p) \<longleftrightarrow>
     (case parse_u16 spec of
        Some q \<Rightarrow> q \<noteq> 0 \<and> h = V4 127 0 0 1 \<and> p = q
      | None \<Rightarrow> p \<noteq> 0 \<and>
          (parse_v4 spec = Some (h, p) \<or>
           (parse_v4 spec :: ('v6 ip \<times> u16) option) = None \<and> (\<exists>h6. parse_v6 spec = Some (h6, p) \<and> h = V6 h6)))"
proof (cases "parse_u16 spec")
  case None
  show ?thesis
  proof (cases "parse_v4 spec :: ('v6 ip \<times> u16) option")
    case (Some a)
    with None show ?thesis by (cases a) (auto simp: admin_addr_def res_simps)
  next
    case v4: None
    with None show ?thesis by (cases "parse_v6 spec") (auto simp: admin_addr_def res_simps)
  qed
next
  case (Some q)
  then show ?thesis by (auto simp: admin_addr_def res_simps)
qed

text \<open>
  Exposing the panel is deliberate. An accepted address has a nonzero port, and it is the IPv4
  loopback address unless the text itself names a host; a bare number is never anything but a
  loopback port, and zero is refused in every form.
\<close>
theorem admin_addr_loopback:
  fixes h :: "'v6 ip"
  shows "((admin_addr parse_v6 spec :: 'id error + 'v6 ip \<times> u16) = Inr (h, p) \<longrightarrow>
      p \<noteq> 0 \<and> (h = V4 127 0 0 1 \<or> parse_u16 spec = None \<and> (\<exists>q. parse_v4 spec = Some (h, q)) \<or>
                parse_u16 spec = None \<and> (\<exists>h6. h = V6 h6 \<and> parse_v6 spec = Some (h6, p)))) \<and>
   (admin_addr parse_v6 (show_u16 port) :: 'id error + 'v6 ip \<times> u16) =
     (if port = 0 then Inl (BadPort AdminPort) else Inr (V4 127 0 0 1, port))"
proof
  show "(admin_addr parse_v6 spec :: 'id error + 'v6 ip \<times> u16) = Inr (h, p) \<longrightarrow>
      p \<noteq> 0 \<and> (h = V4 127 0 0 1 \<or> parse_u16 spec = None \<and> (\<exists>q. parse_v4 spec = Some (h, q)) \<or>
                parse_u16 spec = None \<and> (\<exists>h6. h = V6 h6 \<and> parse_v6 spec = Some (h6, p)))"
    unfolding admin_addr_Inr by (cases "parse_u16 spec") auto
  show "(admin_addr parse_v6 (show_u16 port) :: 'id error + 'v6 ip \<times> u16) =
     (if port = 0 then Inl (BadPort AdminPort) else Inr (V4 127 0 0 1, port))"
    by (simp add: admin_addr_def parse_show_u16 check_port_def)
qed

theorem admin_addr_loopback_witness:
  "admin_addr (\<lambda>_. None) (lit ''0.0.0.0:7000'') = (Inr (V4 0 0 0 0, 7000) :: nat error + nat ip \<times> u16) \<and>
   (7000 :: u16) \<noteq> 0"
proof
  show addr: "admin_addr (\<lambda>_. None) (lit ''0.0.0.0:7000'') = (Inr (V4 0 0 0 0, 7000) :: nat error + nat ip \<times> u16)"
    by (simp add: admin_addr_def parse_u16_def parse_v4_def parse_octet_def lit_def is_digit_def
        check_port_def)
  show "(7000 :: u16) \<noteq> 0"
    using admin_addr_loopback [of "\<lambda>_. None" "lit ''0.0.0.0:7000''" "V4 0 0 0 0" 7000 1] by (simp add: addr)
qed

end
