(* ===== verification/Keyed_Edits.thy ===== *)
theory Keyed_Edits
  imports Prelude
begin

text \<open>
  The three edits that \<open>src/admin.rs\<close> makes to every list of the configuration: push an entry whose
  key is not listed, patch the first entry of a key, and drop the entries of a key, each with an
  error when it does not apply. The contract says what they do to the look-up by key; \<open>Admin\<close>
  interprets it on the peers, the two kinds of offer lists and the bindings.
\<close>

section \<open>The edits of a list\<close>

definition push_new :: "('a \<Rightarrow> 'k) \<Rightarrow> ('a \<Rightarrow> 'e) \<Rightarrow> 'a \<Rightarrow> 'a list \<Rightarrow> 'e + 'a list" where
  "push_new key dup x xs = (if list_ex (\<lambda>y. key y = key x) xs then Inl (dup x) else Inr (xs @ [x]))"

definition patch_key :: "('a \<Rightarrow> 'k) \<Rightarrow> 'e \<Rightarrow> 'k \<Rightarrow> ('a \<Rightarrow> 'a) \<Rightarrow> 'a list \<Rightarrow> 'e + 'a list" where
  "patch_key key missing k f xs = ok_or missing (update_first (\<lambda>y. key y = k) f xs)"

definition drop_key :: "('a \<Rightarrow> 'k) \<Rightarrow> 'e \<Rightarrow> 'k \<Rightarrow> 'a list \<Rightarrow> 'e + 'a list" where
  "drop_key key missing k xs =
     (let ys = filter (\<lambda>y. key y \<noteq> k) xs
      in if length ys = length xs then Inl missing else Inr ys)"

definition lookup_key :: "('a \<Rightarrow> 'k) \<Rightarrow> 'a list \<Rightarrow> 'k \<Rightarrow> 'a option" where
  "lookup_key key xs k = List.find (\<lambda>y. key y = k) xs"

lemma lookup_key_simps [simp]:
  "lookup_key key [] k = None"
  "lookup_key key (x # xs) k = (if key x = k then Some x else lookup_key key xs k)"
  by (simp_all add: lookup_key_def)

lemma lookup_key_append:
  "lookup_key key (xs @ ys) k = (case lookup_key key xs k of None \<Rightarrow> lookup_key key ys k | Some x \<Rightarrow> Some x)"
  by (induction xs) simp_all

lemma lookup_key_None: "lookup_key key xs k = None \<longleftrightarrow> k \<notin> key ` set xs"
  by (auto simp: lookup_key_def find_None_iff)

lemma lookup_key_Some: "lookup_key key xs k = Some x \<Longrightarrow> x \<in> set xs \<and> key x = k"
  by (auto simp: lookup_key_def dest: find_SomeD)

lemma push_new_Inr [res_simps]:
  "push_new key dup x xs = Inr ys \<longleftrightarrow> lookup_key key xs (key x) = None \<and> ys = xs @ [x]"
  by (auto simp: push_new_def lookup_key_None list_ex_key)

lemma push_new_Inl [res_simps]:
  "push_new key dup x xs = Inl e \<longleftrightarrow> lookup_key key xs (key x) \<noteq> None \<and> e = dup x"
  by (auto simp: push_new_def lookup_key_None list_ex_key)

lemma lookup_push: "lookup_key key xs (key x) = None \<Longrightarrow>
    lookup_key key (xs @ [x]) = (lookup_key key xs)(key x \<mapsto> x)"
  by (rule ext) (auto simp: lookup_key_append split: option.splits)

lemma patch_key_Inl [res_simps]:
  "patch_key key missing k f xs = Inl e \<longleftrightarrow> lookup_key key xs k = None \<and> e = missing"
  by (auto simp: patch_key_def ok_or_Inl_iff update_first_None lookup_key_def find_None_iff)

lemma patch_key_lookup:
  assumes "patch_key key missing k f xs = Inr ys" and "\<And>x. key (f x) = key x"
  shows "\<exists>x. lookup_key key xs k = Some x \<and> lookup_key key ys = (lookup_key key xs)(k \<mapsto> f x)"
proof -
  from assms(1) have "update_first (\<lambda>y. key y = k) f xs = Some ys"
    by (simp add: patch_key_def ok_or_Inr_iff)
  then obtain us x vs where split: "xs = us @ x # vs" "ys = us @ f x # vs" "key x = k" "\<forall>u \<in> set us. key u \<noteq> k"
    by (rule update_first_split)
  then have us: "lookup_key key us k = None" by (auto simp: lookup_key_None)
  have "lookup_key key ys j = ((lookup_key key xs)(k \<mapsto> f x)) j" for j
    using us split(3) assms(2)
    by (auto simp: split(1,2) lookup_key_append split: option.splits)
  moreover have "lookup_key key xs k = Some x"
    using us split(3) by (simp add: split(1) lookup_key_append)
  ultimately show ?thesis by blast
qed

lemma lookup_filter: "lookup_key key (filter (\<lambda>y. key y \<noteq> k) xs) = (lookup_key key xs)(k := None)"
  by (rule ext) (induction xs; auto)

lemma drop_key_Inl [res_simps]:
  "drop_key key missing k xs = Inl e \<longleftrightarrow> lookup_key key xs k = None \<and> e = missing"
  by (auto simp: drop_key_def Let_def filter_length_eq_iff lookup_key_None)

lemma drop_key_Inr [res_simps]:
  "drop_key key missing k xs = Inr ys \<longleftrightarrow> lookup_key key xs k \<noteq> None \<and> ys = filter (\<lambda>y. key y \<noteq> k) xs"
  by (auto simp: drop_key_def Let_def filter_length_eq_iff lookup_key_None)

text \<open>What was pushed last is what a drop of its key takes away: the list is the old one again.\<close>

lemma drop_after_push:
  assumes "push_new key dup x xs = Inr ys"
  shows "drop_key key missing (key x) ys = Inr xs"
proof -
  have "k \<notin> key ` set xs \<Longrightarrow> filter (\<lambda>y. key y \<noteq> k) xs = xs" for k
    by (induction xs) auto
  with assms show ?thesis
    by (auto simp: push_new_Inr drop_key_Inr lookup_key_None)
qed

lemma patch_key_keys:
  assumes "patch_key key missing k f xs = Inr ys" and "\<And>x. key (f x) = key x"
  shows "map key ys = map key xs"
  using assms by (auto simp: patch_key_def ok_or_Inr_iff intro: map_update_first)

section \<open>The contract\<close>

locale keyed_edits =
  fixes look :: "'s \<Rightarrow> 'k \<Rightarrow> 'a option"
    and key :: "'a \<Rightarrow> 'k"
    and add :: "'a \<Rightarrow> 's \<Rightarrow> 'e + 's"
    and patch :: "'k \<Rightarrow> ('a \<Rightarrow> 'a) \<Rightarrow> 's \<Rightarrow> 'e + 's"
    and del :: "'k \<Rightarrow> 's \<Rightarrow> 'e + 's"
  assumes add_ok: "add x s = Inr s' \<Longrightarrow> look s (key x) = None \<and> look s' = (look s)(key x \<mapsto> x)"
    and add_err: "add x s = Inl e \<Longrightarrow> look s (key x) \<noteq> None"
    and patch_ok: "patch k f s = Inr s' \<Longrightarrow> (\<And>x. key (f x) = key x) \<Longrightarrow>
      \<exists>x. look s k = Some x \<and> look s' = (look s)(k \<mapsto> f x)"
    and patch_err: "patch k f s = Inl e \<Longrightarrow> look s k = None"
    and del_ok: "del k s = Inr s' \<Longrightarrow> look s k \<noteq> None \<and> look s' = (look s)(k := None)"
    and del_err: "del k s = Inl e \<Longrightarrow> look s k = None"
begin

lemma add_iff: "is_ok (add x s) \<longleftrightarrow> look s (key x) = None"
  using add_ok [of x s] add_err [of x s] by (cases "add x s") auto

lemma del_iff: "is_ok (del k s) \<longleftrightarrow> look s k \<noteq> None"
  using del_ok [of k s] del_err [of k s] by (cases "del k s") auto

lemma patch_iff: "(\<And>x. key (f x) = key x) \<Longrightarrow> is_ok (patch k f s) \<longleftrightarrow> look s k \<noteq> None"
  using patch_ok [of k f s] patch_err [of k f s] by (cases "patch k f s") auto

text \<open>An entry that was added is found, can be dropped, and then the look-up is the old one.\<close>

lemma add_then_del:
  assumes "add x s = Inr s1"
  shows "\<exists>s2. del (key x) s1 = Inr s2 \<and> look s2 = look s"
proof -
  have "is_ok (del (key x) s1)" using add_ok [OF assms] by (simp add: del_iff)
  then obtain s2 where s2: "del (key x) s1 = Inr s2" by (auto simp: is_ok_iff)
  have "look s2 = look s"
    using add_ok [OF assms] del_ok [OF s2] by (auto simp: fun_upd_idem)
  with s2 show ?thesis by blast
qed

lemma del_is_gone: "del k s = Inr s' \<Longrightarrow> \<not> is_ok (del k s')"
  using del_ok [of k s s'] by (auto simp: del_iff)

lemma other_keys:
  "add x s = Inr s' \<Longrightarrow> j \<noteq> key x \<Longrightarrow> look s' j = look s j"
  "del k s = Inr s' \<Longrightarrow> j \<noteq> k \<Longrightarrow> look s' j = look s j"
  using add_ok [of x s s'] del_ok [of k s s'] by simp_all

end

text \<open>The list operations keep it.\<close>

interpretation list_edits: keyed_edits "lookup_key key" key "push_new key dup" "patch_key key missing"
    "drop_key key missing" for key :: "'a \<Rightarrow> 'k" and dup :: "'a \<Rightarrow> 'e" and missing :: 'e
  by unfold_locales
     (simp_all add: push_new_Inr push_new_Inl patch_key_Inl drop_key_Inr drop_key_Inl lookup_push
        lookup_filter patch_key_lookup)

end
