(* ===== verification/Admin.thy ===== *)
theory Admin
  imports State Keyed_Edits
begin

text \<open>
  The admin surface, \<open>src/admin.rs\<close>: authentication, routing, the reading of bodies and the nine
  editing handlers, each a transaction on the shared state, and the view of the state. HTTP, JSON,
  TOML, the parsing of an endpoint id and the text of an error are parameters, the fields of
  \<open>AdminEnv\<close>; a JSON value is the tree the code builds.
\<close>

section \<open>Requests and responses\<close>

definition MAX_BODY :: nat where
  "MAX_BODY = 64 * 1024"

datatype Method = GET | POST | PATCH | DELETE | OtherMethod rstring

text \<open>\<open>'h\<close> is a header value; \<open>rq_upper\<close> is the upper bound of the body's size hint.\<close>

record 'h Request =
  rq_method :: Method
  rq_path :: rstring
  rq_query :: "rstring option"
  rq_auth :: "'h option"
  rq_upper :: "nat option"
  rq_body :: "rstring + u8 list"

datatype json =
    JNull
  | JBool bool
  | JNum nat
  | JStr rstring
  | JArr "json list"
  | JObj "(rstring \<times> json) list"

datatype body = Html rstring | Json json

record Response =
  rs_status :: nat
  rs_headers :: "(rstring \<times> rstring) list"
  rs_body :: body

record PeerAdd =
  pa_id :: rstring
  pa_name :: rstring

record PeerPatch =
  pp_id :: rstring
  pp_name :: "rstring option"
  pp_enabled :: "bool option"

record IdRef =
  ir_id :: rstring

record OfferRef =
  or_peer :: "rstring option"
  or_proto :: Proto
  or_port :: u16

record OfferAdd =
  oa_peer :: "rstring option"
  oa_proto :: Proto
  oa_port :: u16
  oa_name :: rstring

record OfferPatch =
  op_peer :: "rstring option"
  op_proto :: Proto
  op_port :: u16
  op_name :: "rstring option"
  op_enabled :: "bool option"

record BindingAdd =
  ba_proto :: Proto
  ba_local :: u16
  ba_remote :: u16
  ba_name :: rstring

record BindingPatch =
  bp_proto :: Proto
  bp_local :: u16
  bp_remote :: "u16 option"
  bp_name :: "rstring option"
  bp_enabled :: "bool option"

record BindingRef =
  br_proto :: Proto
  br_local :: u16

text \<open>\<open>serde_json::from_slice\<close> at the nine body types.\<close>

record Serde =
  de_peer_add :: "u8 list \<Rightarrow> rstring + PeerAdd"
  de_peer_patch :: "u8 list \<Rightarrow> rstring + PeerPatch"
  de_id_ref :: "u8 list \<Rightarrow> rstring + IdRef"
  de_offer_add :: "u8 list \<Rightarrow> rstring + OfferAdd"
  de_offer_patch :: "u8 list \<Rightarrow> rstring + OfferPatch"
  de_offer_ref :: "u8 list \<Rightarrow> rstring + OfferRef"
  de_binding_add :: "u8 list \<Rightarrow> rstring + BindingAdd"
  de_binding_patch :: "u8 list \<Rightarrow> rstring + BindingPatch"
  de_binding_ref :: "u8 list \<Rightarrow> rstring + BindingRef"

record ('id, 'h) AdminEnv =
  ae_os :: os
  ae_to_toml :: "'id Config \<Rightarrow> rstring + rstring"
  ae_serde :: Serde
  ae_to_str :: "'h \<Rightarrow> rstring option"
  ae_parse_id :: "rstring \<Rightarrow> rstring + 'id"
  ae_id_string :: "'id \<Rightarrow> rstring"
  ae_id_short :: "'id \<Rightarrow> rstring"
  ae_render :: "'id error \<Rightarrow> rstring"
  ae_display :: "path \<Rightarrow> rstring"
  ae_index_html :: rstring
  ae_now :: nat

record Admin =
  ad_token :: rstring
  ad_id :: rstring

type_synonym 'id node = "'id Shared \<times> fs"

definition json_response :: "nat \<Rightarrow> json \<Rightarrow> Response" where
  "json_response status b =
     \<lparr>rs_status = status,
      rs_headers =
        [(lit ''content-type'', lit ''application/json''), (lit ''cache-control'', lit ''no-store''),
         (lit ''x-content-type-options'', lit ''nosniff'')],
      rs_body = Json b\<rparr>"

definition err :: "nat \<Rightarrow> rstring \<Rightarrow> Response" where
  "err status msg = json_response status (JObj [(lit ''error'', JStr msg)])"

definition ok_response :: Response where
  "ok_response = json_response 200 (JObj [(lit ''ok'', JBool True)])"

definition page :: "rstring \<Rightarrow> Response" where
  "page html =
     \<lparr>rs_status = 200,
      rs_headers =
        [(lit ''content-type'', lit ''text/html; charset=utf-8''), (lit ''cache-control'', lit ''no-store''),
         (lit ''x-content-type-options'', lit ''nosniff''), (lit ''referrer-policy'', lit ''no-referrer'')],
      rs_body = Html html\<rparr>"

section \<open>The token of a request\<close>

definition query_token :: "rstring option \<Rightarrow> rstring option" where
  "query_token q =
     (case q of
        None \<Rightarrow> None
      | Some s \<Rightarrow>
          map_option snd
            (List.find (\<lambda>(k, _). k = lit ''t'')
              (List.map_filter (split_once (of_char (CHR ''=''))) (split_on (of_char (CHR ''&'')) s))))"

definition bearer_token :: "('id, 'h) AdminEnv \<Rightarrow> 'h option \<Rightarrow> rstring option" where
  "bearer_token env auth =
     (case auth of
        None \<Rightarrow> None
      | Some v \<Rightarrow>
          (case ae_to_str env v of
             None \<Rightarrow> None
           | Some s \<Rightarrow> map_option trim (strip_prefix (lit ''Bearer '') s)))"

definition presented_token :: "('id, 'h) AdminEnv \<Rightarrow> 'h Request \<Rightarrow> rstring option" where
  "presented_token env req =
     (case bearer_token env (rq_auth req) of
        Some t \<Rightarrow> Some t
      | None \<Rightarrow> query_token (rq_query req))"

section \<open>Bodies\<close>

definition with_body ::
  "('id, 'h) AdminEnv \<Rightarrow> (u8 list \<Rightarrow> rstring + 'b) \<Rightarrow> ('b \<Rightarrow> 'id node \<Rightarrow> ('id error + unit) \<times> 'id node) \<Rightarrow>
     'h Request \<Rightarrow> 'id node \<Rightarrow> Response \<times> 'id node" where
  "with_body env from_slice f req st =
     (if (case rq_upper req of None \<Rightarrow> 2 ^ 64 - 1 | Some n \<Rightarrow> n) > MAX_BODY
      then (err 413 (lit ''body too large''), st)
      else
        (case rq_body req of
           Inl e \<Rightarrow> (err 400 (lit ''reading body: '' @ e), st)
         | Inr bytes \<Rightarrow>
             (case from_slice bytes of
                Inl e \<Rightarrow> (err 400 (lit ''invalid json: '' @ e), st)
              | Inr parsed \<Rightarrow>
                  (case f parsed st of
                     (Inr _, st') \<Rightarrow> (ok_response, st')
                   | (Inl e, st') \<Rightarrow> (err 422 (ae_render env e), st')))))"

section \<open>Edits of the configuration\<close>

text \<open>One of the lists of the configuration, edited in place.\<close>

definition on_peers :: "('id Peer list \<Rightarrow> 'e + 'id Peer list) \<Rightarrow> 'id Config \<Rightarrow> 'e + 'id Config" where
  "on_peers g c = and_then (g (peers_of c)) (\<lambda>ps. Inr (with_peers c ps))"

definition on_bindings :: "(Binding list \<Rightarrow> 'e + Binding list) \<Rightarrow> 'id Config \<Rightarrow> 'e + 'id Config" where
  "on_bindings g c = and_then (g (bindings_of c)) (\<lambda>bs. Inr (with_bindings c bs))"

definition parse_id :: "('id, 'h) AdminEnv \<Rightarrow> rstring \<Rightarrow> 'id error + 'id" where
  "parse_id env s = map_err (\<lambda>_. BadId (trim s)) (ae_parse_id env (trim s))"

text \<open>\<open>offers_of\<close>: the shared list, or the list of the first peer with the given id.\<close>

definition on_peer_offers :: "'id \<Rightarrow> (Offer list \<Rightarrow> 'id error + Offer list) \<Rightarrow> 'id Config \<Rightarrow> 'id error + 'id Config"
where
  "on_peer_offers i g c =
     (case cfg_peer c i of
        None \<Rightarrow> Inl (PeerUnknown i)
      | Some p \<Rightarrow>
          and_then (g (p_offers p)) (\<lambda>os.
            on_peers (patch_key p_id (PeerUnknown i) i (\<lambda>q. q\<lparr>p_offers := os\<rparr>)) c))"

definition on_offers ::
  "('id, 'h) AdminEnv \<Rightarrow> rstring option \<Rightarrow> (Offer list \<Rightarrow> 'id error + Offer list) \<Rightarrow>
     'id Config \<Rightarrow> 'id error + 'id Config" where
  "on_offers env peer g c =
     (case peer of
        None \<Rightarrow> and_then (g (shared_of c)) (\<lambda>os. Inr (with_shared c os))
      | Some p \<Rightarrow> and_then (parse_id env p) (\<lambda>i. on_peer_offers i g c))"

definition offer_known :: "Offer \<Rightarrow> 'id error" where
  "offer_known o' = OfferKnown (o_proto o') (o_port o')"

definition binding_known :: "Binding \<Rightarrow> 'id error" where
  "binding_known b = BindingKnown (b_proto b) (b_local b)"

definition set_peer :: "rstring option \<Rightarrow> bool option \<Rightarrow> 'id Peer \<Rightarrow> 'id Peer" where
  "set_peer name enabled p =
     (let p1 = (case name of None \<Rightarrow> p | Some n \<Rightarrow> p\<lparr>p_name := n\<rparr>)
      in case enabled of None \<Rightarrow> p1 | Some e \<Rightarrow> p1\<lparr>p_enabled := e\<rparr>)"

definition set_offer :: "rstring option \<Rightarrow> bool option \<Rightarrow> Offer \<Rightarrow> Offer" where
  "set_offer name enabled o' =
     (let o1 = (case name of None \<Rightarrow> o' | Some n \<Rightarrow> o'\<lparr>o_name := n\<rparr>)
      in case enabled of None \<Rightarrow> o1 | Some e \<Rightarrow> o1\<lparr>o_enabled := e\<rparr>)"

definition set_binding :: "u16 option \<Rightarrow> rstring option \<Rightarrow> bool option \<Rightarrow> Binding \<Rightarrow> Binding" where
  "set_binding remote name enabled b =
     (let b1 = (case remote of None \<Rightarrow> b | Some r \<Rightarrow> b\<lparr>b_remote := r\<rparr>);
          b2 = (case name of None \<Rightarrow> b1 | Some n \<Rightarrow> b1\<lparr>b_name := n\<rparr>)
      in case enabled of None \<Rightarrow> b2 | Some e \<Rightarrow> b2\<lparr>b_enabled := e\<rparr>)"

section \<open>Handlers\<close>

text \<open>\<open>admin.shared.mutate(..)?\<close> with a closure that returns nothing.\<close>

definition commit ::
  "('id, 'h) AdminEnv \<Rightarrow> ('id Config \<Rightarrow> 'id error + 'id Config) \<Rightarrow> 'id node \<Rightarrow> ('id error + unit) \<times> 'id node"
where
  "commit env f st = mutate (ae_to_toml env) (ae_os env) (\<lambda>c. and_then (f c) (\<lambda>c'. Inr (c', ()))) st"

definition add_peer :: "('id, 'h) AdminEnv \<Rightarrow> PeerAdd \<Rightarrow> 'id node \<Rightarrow> ('id error + unit) \<times> 'id node" where
  "add_peer env b st =
     (case parse_id env (pa_id b) of
        Inl e \<Rightarrow> (Inl e, st)
      | Inr i \<Rightarrow>
          commit env
            (on_peers (push_new p_id (\<lambda>p. PeerKnown (p_id p))
               \<lparr>p_id = i, p_name = pa_name b, p_enabled = True, p_offers = []\<rparr>)) st)"

definition patch_peer :: "('id, 'h) AdminEnv \<Rightarrow> PeerPatch \<Rightarrow> 'id node \<Rightarrow> ('id error + unit) \<times> 'id node" where
  "patch_peer env b st =
     (case parse_id env (pp_id b) of
        Inl e \<Rightarrow> (Inl e, st)
      | Inr i \<Rightarrow>
          commit env (on_peers (patch_key p_id (PeerUnknown i) i (set_peer (pp_name b) (pp_enabled b)))) st)"

definition del_peer :: "('id, 'h) AdminEnv \<Rightarrow> IdRef \<Rightarrow> 'id node \<Rightarrow> ('id error + unit) \<times> 'id node" where
  "del_peer env b st =
     (case parse_id env (ir_id b) of
        Inl e \<Rightarrow> (Inl e, st)
      | Inr i \<Rightarrow> commit env (on_peers (drop_key p_id (PeerUnknown i) i)) st)"

definition add_offer :: "('id, 'h) AdminEnv \<Rightarrow> OfferAdd \<Rightarrow> 'id node \<Rightarrow> ('id error + unit) \<times> 'id node" where
  "add_offer env b st =
     commit env
       (on_offers env (oa_peer b)
          (push_new offer_key offer_known
             \<lparr>o_proto = oa_proto b, o_port = oa_port b, o_name = oa_name b, o_enabled = True\<rparr>)) st"

definition patch_offer :: "('id, 'h) AdminEnv \<Rightarrow> OfferPatch \<Rightarrow> 'id node \<Rightarrow> ('id error + unit) \<times> 'id node" where
  "patch_offer env b st =
     commit env
       (on_offers env (op_peer b)
          (patch_key offer_key (OfferUnknown (op_proto b) (op_port b)) (op_proto b, op_port b)
             (set_offer (op_name b) (op_enabled b)))) st"

definition del_offer :: "('id, 'h) AdminEnv \<Rightarrow> OfferRef \<Rightarrow> 'id node \<Rightarrow> ('id error + unit) \<times> 'id node" where
  "del_offer env b st =
     commit env
       (on_offers env (or_peer b)
          (drop_key offer_key (OfferUnknown (or_proto b) (or_port b)) (or_proto b, or_port b))) st"

definition add_binding :: "('id, 'h) AdminEnv \<Rightarrow> BindingAdd \<Rightarrow> 'id node \<Rightarrow> ('id error + unit) \<times> 'id node" where
  "add_binding env b st =
     commit env
       (on_bindings (push_new binding_key binding_known
          \<lparr>b_proto = ba_proto b, b_local = ba_local b, b_remote = ba_remote b, b_name = ba_name b,
           b_enabled = True\<rparr>)) st"

definition patch_binding :: "('id, 'h) AdminEnv \<Rightarrow> BindingPatch \<Rightarrow> 'id node \<Rightarrow> ('id error + unit) \<times> 'id node" where
  "patch_binding env b st =
     commit env
       (on_bindings (patch_key binding_key (BindingUnknown (bp_proto b) (bp_local b)) (bp_proto b, bp_local b)
          (set_binding (bp_remote b) (bp_name b) (bp_enabled b)))) st"

definition del_binding :: "('id, 'h) AdminEnv \<Rightarrow> BindingRef \<Rightarrow> 'id node \<Rightarrow> ('id error + unit) \<times> 'id node" where
  "del_binding env b st =
     commit env
       (on_bindings (drop_key binding_key (BindingUnknown (br_proto b) (br_local b)) (br_proto b, br_local b))) st"

section \<open>The view of the state\<close>

definition opt_json :: "('a \<Rightarrow> json) \<Rightarrow> 'a option \<Rightarrow> json" where
  "opt_json f v = (case v of None \<Rightarrow> JNull | Some x \<Rightarrow> f x)"

text \<open>The derived \<open>Serialize\<close> of an offer skips an empty name.\<close>

definition offer_json :: "Offer \<Rightarrow> json" where
  "offer_json o' =
     JObj ([(lit ''proto'', JStr (as_str (o_proto o'))), (lit ''port'', JNum (unat (o_port o')))] @
           (if o_name o' = [] then [] else [(lit ''name'', JStr (o_name o'))]) @
           [(lit ''enabled'', JBool (o_enabled o'))])"

definition bind_json :: "BindState \<Rightarrow> json" where
  "bind_json b =
     (case b of
        Listening \<Rightarrow> JObj [(lit ''state'', JStr (lit ''listening''))]
      | Failed e \<Rightarrow> JObj [(lit ''state'', JStr (lit ''failed'')), (lit ''error'', JStr e)])"

definition live_json :: "PeerLive \<Rightarrow> json" where
  "live_json l =
     JObj [(lit ''id'', JStr (pl_id l)), (lit ''short'', JStr (pl_short l)), (lit ''path'', JStr (pl_path l)),
           (lit ''addr'', opt_json JStr (pl_addr l)), (lit ''rtt_ms'', opt_json JNum (pl_rtt l)),
           (lit ''since_secs'', JNum (pl_since l))]"

definition role_str :: "Role \<Rightarrow> rstring" where
  "role_str r = (case r of RoleServe \<Rightarrow> lit ''serve'' | RoleConnect \<Rightarrow> lit ''connect'')"

definition binding_row :: "'id Shared \<Rightarrow> Binding \<Rightarrow> json" where
  "binding_row s b =
     JObj [(lit ''proto'', JStr (as_str (b_proto b))), (lit ''local'', JNum (unat (b_local b))),
           (lit ''remote'', JNum (unat (b_remote b))), (lit ''name'', JStr (b_name b)),
           (lit ''enabled'', JBool (b_enabled b)), (lit ''runtime'', opt_json bind_json (bind_state b s))]"

definition peer_row :: "('id, 'h) AdminEnv \<Rightarrow> 'id Peer \<Rightarrow> json" where
  "peer_row env p =
     JObj [(lit ''id'', JStr (ae_id_string env (p_id p))), (lit ''short'', JStr (ae_id_short env (p_id p))),
           (lit ''name'', JStr (p_name p)), (lit ''enabled'', JBool (p_enabled p)),
           (lit ''offers'', JArr (map offer_json (p_offers p)))]"

definition get_state :: "('id::linorder, 'h) AdminEnv \<Rightarrow> Admin \<Rightarrow> 'id Shared \<Rightarrow> Response" where
  "get_state env a s =
     json_response 200
       (JObj [(lit ''role'', JStr (role_str (sh_role s))), (lit ''id'', JStr (ad_id a)),
              (lit ''config_path'', JStr (ae_display env (sh_path s))),
              (lit ''uptime_secs'', JNum (uptime_secs (ae_now env) s)),
              (lit ''shared_offers'', JArr (map offer_json (shared_of (sh_cfg s)))),
              (lit ''peers'', JArr (map (peer_row env) (peers_of (sh_cfg s)))),
              (lit ''bindings'', JArr (map (binding_row s) (bindings_of (sh_cfg s)))),
              (lit ''live_peers'',
               JArr (map live_json (live_peers (ae_id_string env) (ae_id_short env) (ae_now env) s)))])"

section \<open>Routing\<close>

definition dispatch ::
  "('id::linorder, 'h) AdminEnv \<Rightarrow> Admin \<Rightarrow> 'h Request \<Rightarrow> 'id node \<Rightarrow> Response \<times> 'id node" where
  "dispatch env a req st =
     (let m = rq_method req; p = rq_path req; sd = ae_serde env
      in if m = GET \<and> p = lit ''/api/state'' then (get_state env a (fst st), st)
         else if m = POST \<and> p = lit ''/api/peers'' then with_body env (de_peer_add sd) (add_peer env) req st
         else if m = PATCH \<and> p = lit ''/api/peers'' then with_body env (de_peer_patch sd) (patch_peer env) req st
         else if m = DELETE \<and> p = lit ''/api/peers'' then with_body env (de_id_ref sd) (del_peer env) req st
         else if m = POST \<and> p = lit ''/api/offers'' then with_body env (de_offer_add sd) (add_offer env) req st
         else if m = PATCH \<and> p = lit ''/api/offers'' then with_body env (de_offer_patch sd) (patch_offer env) req st
         else if m = DELETE \<and> p = lit ''/api/offers'' then with_body env (de_offer_ref sd) (del_offer env) req st
         else if m = POST \<and> p = lit ''/api/bindings'' then with_body env (de_binding_add sd) (add_binding env) req st
         else if m = PATCH \<and> p = lit ''/api/bindings'' then with_body env (de_binding_patch sd) (patch_binding env) req st
         else if m = DELETE \<and> p = lit ''/api/bindings'' then with_body env (de_binding_ref sd) (del_binding env) req st
         else (err 404 (lit ''no such endpoint''), st))"

definition route ::
  "('id::linorder, 'h) AdminEnv \<Rightarrow> Admin \<Rightarrow> 'h Request \<Rightarrow> 'id node \<Rightarrow> Response \<times> 'id node" where
  "route env a req st =
     (if rq_method req = GET \<and> (rq_path req = lit ''/'' \<or> rq_path req = lit ''/index.html'')
      then (page (ae_index_html env), st)
      else
        (case presented_token env req of
           None \<Rightarrow> (err 401 (lit ''missing token''), st)
         | Some tok \<Rightarrow>
             if \<not> token_eq tok (ad_token a) then (err 401 (lit ''bad token''), st)
             else if rq_method req \<noteq> GET \<and> rq_auth req = None
             then (err 401 (lit ''mutations require the Authorization header''), st)
             else dispatch env a req st))"

section \<open>The edits keep the contract\<close>

lemma cfg_peer_lookup: "cfg_peer c = lookup_key p_id (peers_of c)"
  by (rule ext) (simp add: cfg_peer_def lookup_key_def)

interpretation peer_edits: keyed_edits cfg_peer p_id
    "\<lambda>p. on_peers (push_new p_id (\<lambda>p. PeerKnown (p_id p)) p)"
    "\<lambda>i f. on_peers (patch_key p_id (PeerUnknown i) i f)"
    "\<lambda>i. on_peers (drop_key p_id (PeerUnknown i) i)"
  by unfold_locales
     (auto simp: cfg_peer_lookup on_peers_def res_simps lookup_push lookup_filter dest: patch_key_lookup)

interpretation binding_edits: keyed_edits "\<lambda>c. lookup_key binding_key (bindings_of c)" binding_key
    "\<lambda>b. on_bindings (push_new binding_key binding_known b)"
    "\<lambda>k f. on_bindings (patch_key binding_key (BindingUnknown (fst k) (snd k)) k f)"
    "\<lambda>k. on_bindings (drop_key binding_key (BindingUnknown (fst k) (snd k)) k)"
  by unfold_locales
     (auto simp: on_bindings_def res_simps lookup_push lookup_filter dest: patch_key_lookup)

interpretation shared_edits: keyed_edits "\<lambda>c. lookup_key offer_key (shared_of c)" offer_key
    "\<lambda>x. on_offers env None (push_new offer_key offer_known x)"
    "\<lambda>k f. on_offers env None (patch_key offer_key (OfferUnknown (fst k) (snd k)) k f)"
    "\<lambda>k. on_offers env None (drop_key offer_key (OfferUnknown (fst k) (snd k)) k)"
  for env :: "('id, 'h) AdminEnv"
  by unfold_locales
     (auto simp: on_offers_def res_simps lookup_push lookup_filter dest: patch_key_lookup)

lemma rights_alt:
  "k \<in> rights c i \<longleftrightarrow>
     (\<exists>p. cfg_peer c i = Some p \<and> p_enabled p \<and>
        ((\<exists>x \<in> set (shared_of c). o_enabled x \<and> offer_key x = k) \<or>
         (\<exists>x \<in> set (p_offers p). o_enabled x \<and> offer_key x = k)))"
  unfolding rights_def by blast

lemma on_peers_frame:
  "on_peers g c = Inr d \<Longrightarrow> shared_of d = shared_of c \<and> bindings_of d = bindings_of c \<and> g (peers_of c) = Inr (peers_of d)"
  by (auto simp: on_peers_def and_then_Inr_iff)

text \<open>What a peer is granted depends on its entry and the shared offers only.\<close>

lemma rights_cong: "cfg_peer c i = cfg_peer d i \<Longrightarrow> shared_of c = shared_of d \<Longrightarrow> rights c i = rights d i"
  by (simp add: rights_def)

lemma granted_cong: "cfg_peer c i = cfg_peer d i \<Longrightarrow> shared_of c = shared_of d \<Longrightarrow> granted c i = granted d i"
  by (rule ext) (simp add: granted_def split: option.splits)

lemma set_keys [simp]:
  "p_id (set_peer n e p) = p_id p" "offer_key (set_offer n e x) = offer_key x"
  "binding_key (set_binding r n e b) = binding_key b"
  by (simp_all add: set_peer_def set_offer_def set_binding_def offer_key_def binding_key_def Let_def
      split: option.splits)

section \<open>Transactions\<close>

named_theorems handlers \<open>unfolding of the editing handlers\<close>

declare add_peer_def [handlers] patch_peer_def [handlers] del_peer_def [handlers]
  add_offer_def [handlers] patch_offer_def [handlers] del_offer_def [handlers]
  add_binding_def [handlers] patch_binding_def [handlers] del_binding_def [handlers]

lemma commit_Inr:
  assumes "commit env f st = (Inr u, st')"
  shows "f (node_running st) = Inr (node_running st') \<and> config_wf (node_running st') \<and>
         renders (ae_to_toml env) (node_running st') (node_disk st')"
  using store.commit_ok [OF assms [unfolded commit_def]] by (auto simp: and_then_Inr_iff)

lemma commit_Inl:
  assumes "commit env f st = (Inl e, st')"
  shows "fst st' = fst st \<and> node_disk st' = node_disk st"
proof -
  obtain s files s' files' where st: "st = (s, files)" "st' = (s', files')" by (cases st, cases st')
  have "s' = s"
    using assms [unfolded st commit_def] by (cases rule: mutate_cases) simp_all
  then show ?thesis
    using store.commit_err [OF assms [unfolded commit_def]] by (simp add: st)
qed

text \<open>Every handler is refused before it starts or is one transaction.\<close>

definition one_commit ::
  "('id, 'h) AdminEnv \<Rightarrow> ('b \<Rightarrow> 'id node \<Rightarrow> ('id error + unit) \<times> 'id node) \<Rightarrow> bool" where
  "one_commit env h \<longleftrightarrow>
     (\<forall>b st r st'. h b st = (r, st') \<longrightarrow> (\<exists>e. r = Inl e) \<and> st' = st \<or> (\<exists>f. commit env f st = (r, st')))"

lemma one_commit_handlers:
  "one_commit env (add_peer env)" "one_commit env (patch_peer env)" "one_commit env (del_peer env)"
  "one_commit env (add_offer env)" "one_commit env (patch_offer env)" "one_commit env (del_offer env)"
  "one_commit env (add_binding env)" "one_commit env (patch_binding env)" "one_commit env (del_binding env)"
  by (auto simp: one_commit_def handlers split: sum.splits)

definition answer :: "('id, 'h) AdminEnv \<Rightarrow> 'id error + unit \<Rightarrow> Response" where
  "answer env r = (case r of Inr _ \<Rightarrow> ok_response | Inl e \<Rightarrow> err 422 (ae_render env e))"

lemma status_simps [simp]:
  "rs_status (err n m) = n" "rs_status ok_response = 200" "rs_status (page h) = 200"
  "rs_status (get_state env a s) = 200"
  by (simp_all add: err_def json_response_def ok_response_def page_def get_state_def)

lemma with_body_cases:
  assumes "with_body env de h req st = (resp, st')" and "one_commit env h"
  shows "st' = st \<and> rs_status resp \<in> {400, 413, 422} \<or>
         (\<exists>f r. commit env f st = (r, st') \<and> resp = answer env r)"
proof -
  consider "st' = st \<and> rs_status resp \<in> {400, 413}"
    | b r where "h b st = (r, st')" "resp = answer env r"
    using assms(1) by (auto simp: with_body_def answer_def split: if_splits sum.splits prod.splits)
  then show ?thesis
  proof cases
    case 1
    then show ?thesis by auto
  next
    case 2
    with assms(2) consider e where "r = Inl e" "st' = st" | f where "commit env f st = (r, st')"
      unfolding one_commit_def by blast
    then show ?thesis using 2 by cases (auto simp: answer_def)
  qed
qed

definition authorised :: "('id, 'h) AdminEnv \<Rightarrow> Admin \<Rightarrow> 'h Request \<Rightarrow> bool" where
  "authorised env a req \<longleftrightarrow>
     (\<exists>tok. presented_token env req = Some tok \<and> token_eq tok (ad_token a)) \<and>
     (rq_method req = GET \<or> rq_auth req \<noteq> None)"

text \<open>What a response may be: a refusal or a read that changes nothing, or the answer to a transaction.\<close>

definition fair :: "('id, 'h) AdminEnv \<Rightarrow> 'h Request \<Rightarrow> 'id node \<Rightarrow> Response \<times> 'id node \<Rightarrow> bool" where
  "fair env req st out \<longleftrightarrow>
     snd out = st \<and>
       (rs_status (fst out) \<in> {400, 401, 404, 413, 422} \<or> rs_status (fst out) = 200 \<and> rq_method req = GET) \<or>
     rq_method req \<noteq> GET \<and> (\<exists>f r. commit env f st = (r, snd out) \<and> fst out = answer env r)"

lemma fair_if: "(c \<Longrightarrow> fair env req st x) \<Longrightarrow> fair env req st y \<Longrightarrow> fair env req st (if c then x else y)"
  by simp

lemma fair_edit:
  assumes "one_commit env h" and "rq_method req \<noteq> GET"
  shows "fair env req st (with_body env de h req st)"
  using with_body_cases [OF prod.collapse [symmetric] assms(1), of de req st] assms(2)
  unfolding fair_def by auto

lemma fair_dispatch: "fair env req st (dispatch env a req st)"
  unfolding dispatch_def Let_def
  by (intro fair_if fair_edit one_commit_handlers) (auto simp: fair_def)

lemma fair_route: "fair env req st (route env a req st)"
  unfolding route_def by (auto simp: fair_dispatch intro!: fair_if split: option.splits) (auto simp: fair_def)

lemma route_unauthorised:
  assumes "\<not> authorised env a req"
  shows "snd (route env a req st) = st"
  using assms by (auto simp: route_def authorised_def split: option.splits)

lemma fair_edit_truth:
  assumes "fair env req st (resp, st')" and "rq_method req \<noteq> GET"
  shows "if rs_status resp = 200
         then config_wf (node_running st') \<and> renders (ae_to_toml env) (node_running st') (node_disk st')
         else fst st' = fst st \<and> node_disk st' = node_disk st"
proof -
  from assms consider
    "st' = st" "rs_status resp \<noteq> 200" | f r where "commit env f st = (r, st')" "resp = answer env r"
    by (auto simp: fair_def)
  then show ?thesis
  proof cases
    case 1
    then show ?thesis by simp
  next
    case (2 f r)
    then show ?thesis
      using commit_Inr [of env f st _ st'] commit_Inl [of env f st _ st']
      by (cases r) (auto simp: answer_def)
  qed
qed

section \<open>Properties\<close>

text \<open>
  C12: nobody edits anything without the token. A request that changes any part of the state, the
  file system included, is a POST, a PATCH or a DELETE, carries an Authorization header, and
  presents a token whose bytes are those of the admin token.
\<close>
theorem admin_edit_needs_token:
  assumes "route env a req st = (resp, st')" and "st' \<noteq> st"
  shows "rq_method req \<in> {POST, PATCH, DELETE} \<and> rq_auth req \<noteq> None \<and>
         (\<exists>tok. presented_token env req = Some tok \<and> as_bytes tok = as_bytes (ad_token a))"
proof -
  have auth: "authorised env a req"
    using route_unauthorised [of env a req st] assms by auto
  have "rq_method req \<noteq> GET"
    using fair_route [of env req st a] assms by (auto simp: fair_def)
  moreover have "rq_method req \<noteq> OtherMethod m" for m
  proof
    assume "rq_method req = OtherMethod m"
    then have "dispatch env a req st = (err 404 (lit ''no such endpoint''), st)"
      by (simp add: dispatch_def Let_def)
    with assms show False by (auto simp: route_def split: option.splits if_splits)
  qed
  ultimately have "rq_method req \<in> {POST, PATCH, DELETE}" by (cases "rq_method req") auto
  then show ?thesis using auth by (auto simp: authorised_def token_eq_bytes)
qed

text \<open>
  C38: the answer to an edit is the truth. Status 200 means that the running configuration is valid
  and is what the file now holds; any other status means that the running configuration, the
  runtime record and the file are what they were.
\<close>
theorem admin_answer_is_true:
  assumes "route env a req st = (resp, st')" and "rq_method req \<noteq> GET"
  shows "if rs_status resp = 200
         then config_wf (node_running st') \<and> renders (ae_to_toml env) (node_running st') (node_disk st')
         else fst st' = fst st \<and> node_disk st' = node_disk st"
  using fair_route [of env req st a] assms(2) unfolding assms(1) by (rule fair_edit_truth)

text \<open>The requests of a session, each with the behaviour of the disk at its time.\<close>

definition run_requests ::
  "Admin \<Rightarrow> (('id::linorder, 'h) AdminEnv \<times> 'h Request) list \<Rightarrow> 'id node \<Rightarrow> 'id node" where
  "run_requests a rs st = fold (\<lambda>(env, req) t. snd (route env a req t)) rs st"

text \<open>
  C13: no sequence of requests, authorised or not, well formed or not, with any failures of the disk
  among them, brings the node to a configuration that is not valid, or to one that differs from its
  file once any edit has been accepted.
\<close>
theorem admin_requests_keep_valid:
  assumes "config_wf (node_running st)" and "\<And>env req. (env, req) \<in> set rs \<Longrightarrow> ae_to_toml env = to_toml"
  shows "config_wf (node_running (run_requests a rs st)) \<and>
         (renders to_toml (node_running (run_requests a rs st)) (node_disk (run_requests a rs st)) \<or>
          node_running (run_requests a rs st) = node_running st \<and> node_disk (run_requests a rs st) = node_disk st)"
  using assms(2)
proof (induction rs rule: rev_induct)
  case Nil
  then show ?case using assms(1) by (simp add: run_requests_def)
next
  case (snoc r rs)
  obtain env req where r: "r = (env, req)" by (cases r)
  define t where "t = run_requests a rs st"
  obtain resp t' where step: "route env a req t = (resp, t')" by (cases "route env a req t")
  have last: "run_requests a (rs @ [r]) st = t'"
    using step by (simp add: run_requests_def r t_def)
  have toml: "ae_to_toml env = to_toml" by (rule snoc.prems [of env req]) (simp add: r)
  have IH: "config_wf (node_running t) \<and> (renders to_toml (node_running t) (node_disk t) \<or>
      node_running t = node_running st \<and> node_disk t = node_disk st)"
    unfolding t_def by (rule snoc.IH) (use snoc.prems in auto)
  show ?case
    unfolding last
  proof (cases "rq_method req = GET")
    case True
    then have "t' = t" using fair_route [of env req t a] step by (auto simp: fair_def)
    then show "config_wf (node_running t') \<and> (renders to_toml (node_running t') (node_disk t') \<or>
      node_running t' = node_running st \<and> node_disk t' = node_disk st)" using IH by simp
  next
    case False
    then show "config_wf (node_running t') \<and> (renders to_toml (node_running t') (node_disk t') \<or>
      node_running t' = node_running st \<and> node_disk t' = node_disk st)"
      using fair_edit_truth [OF fair_route [of env req t a, unfolded step] False] IH toml
      by (simp add: node_running_def split: if_splits)
  qed
qed

text \<open>
  Taking a peer off the list revokes it, and only it: after an accepted removal the peer is not
  admitted and has no port, whoever else was listed has exactly the grants it had, and removing it
  again is refused.
\<close>
theorem del_peer_revokes:
  assumes "del_peer env b st = (Inr u, st')" and "parse_id env (ir_id b) = Inr i"
  shows "\<not> admits (node_running st') i \<and>
         (j \<noteq> i \<longrightarrow> granted (node_running st') j proto = granted (node_running st) j proto) \<and>
         is_ok (fst (del_peer env b st')) = False"
proof -
  have edit: "on_peers (drop_key p_id (PeerUnknown i) i) (node_running st) = Inr (node_running st')"
    using assms commit_Inr [of env _ st u st'] by (auto simp: del_peer_def)
  note gone = peer_edits.del_ok [OF edit] and frame = on_peers_frame [OF edit]
  have "\<not> admits (node_running st') i" using gone by (simp add: admits_def)
  moreover have "granted (node_running st') j proto = granted (node_running st) j proto" if "j \<noteq> i"
    using gone frame that by (intro fun_cong [OF granted_cong]) simp_all
  moreover have "is_ok (fst (del_peer env b st')) = False"
  proof (rule ccontr)
    assume "is_ok (fst (del_peer env b st')) \<noteq> False"
    then obtain v st2 where "commit env (on_peers (drop_key p_id (PeerUnknown i) i)) st' = (Inr v, st2)"
      using assms(2) by (cases "del_peer env b st'") (auto simp: del_peer_def is_ok_iff)
    from commit_Inr [OF this] peer_edits.del_is_gone [OF edit] show False by simp
  qed
  ultimately show ?thesis by blast
qed

text \<open>
  Switching a peer off or on does exactly that: after an accepted patch that names a switch the
  peer is admitted as the switch says, with the offers it had; a patch of the name alone changes no
  grant; and nobody else's grants change either way.
\<close>
theorem patch_peer_switches:
  assumes "patch_peer env b st = (Inr u, st')" and "parse_id env (pp_id b) = Inr i"
  shows "(case pp_enabled b of
            Some e \<Rightarrow> admits (node_running st') i = e
          | None \<Rightarrow> granted (node_running st') i proto = granted (node_running st) i proto) \<and>
         map_option p_offers (cfg_peer (node_running st') i) = map_option p_offers (cfg_peer (node_running st) i) \<and>
         (j \<noteq> i \<longrightarrow> granted (node_running st') j proto = granted (node_running st) j proto)"
proof -
  have edit: "on_peers (patch_key p_id (PeerUnknown i) i (set_peer (pp_name b) (pp_enabled b)))
      (node_running st) = Inr (node_running st')"
    using assms commit_Inr [of env _ st u st'] by (auto simp: patch_peer_def)
  obtain p where p: "cfg_peer (node_running st) i = Some p"
    "cfg_peer (node_running st') = (cfg_peer (node_running st))(i \<mapsto> set_peer (pp_name b) (pp_enabled b) p)"
    using peer_edits.patch_ok [OF edit] by auto
  note frame = on_peers_frame [OF edit]
  show ?thesis
    using p frame
    by (auto simp: admits_def granted_def peer_granted_def set_peer_def Let_def split: option.splits)
qed

text \<open>
  A new peer starts with the shared ports and nothing more: after an accepted addition the peer
  is admitted, what it has a right to is what is offered to everybody, and nobody else's grants
  change.
\<close>
theorem add_peer_rights:
  assumes "add_peer env b st = (Inr u, st')" and "parse_id env (pa_id b) = Inr i"
  shows "admits (node_running st') i \<and>
         rights (node_running st') i = {k. \<exists>x \<in> set (shared_of (node_running st)). o_enabled x \<and> offer_key x = k} \<and>
         (j \<noteq> i \<longrightarrow> granted (node_running st') j proto = granted (node_running st) j proto)"
proof -
  have edit: "on_peers (push_new p_id (\<lambda>p. PeerKnown (p_id p))
      \<lparr>p_id = i, p_name = pa_name b, p_enabled = True, p_offers = []\<rparr>) (node_running st) = Inr (node_running st')"
    using assms commit_Inr [of env _ st u st'] by (auto simp: add_peer_def)
  note new = peer_edits.add_ok [OF edit] and frame = on_peers_frame [OF edit]
  have "granted (node_running st') j proto = granted (node_running st) j proto" if "j \<noteq> i"
    using new frame that by (intro fun_cong [OF granted_cong]) simp_all
  with new frame show ?thesis by (auto simp: admits_def rights_def)
qed

text \<open>
  Offering a port to everybody gives every admitted peer exactly that port more, and nobody else
  anything.
\<close>
theorem shared_offer_added:
  assumes "add_offer env b st = (Inr u, st')" and "oa_peer b = None"
  shows "rights (node_running st') i =
           rights (node_running st) i \<union> (if admits (node_running st) i then {(oa_proto b, oa_port b)} else {})"
proof -
  have "on_offers env None (push_new offer_key offer_known
      \<lparr>o_proto = oa_proto b, o_port = oa_port b, o_name = oa_name b, o_enabled = True\<rparr>) (node_running st) =
      Inr (node_running st')"
    using assms commit_Inr [of env _ st u st'] by (auto simp: add_offer_def)
  then have "node_running st' = with_shared (node_running st) (shared_of (node_running st) @
      [\<lparr>o_proto = oa_proto b, o_port = oa_port b, o_name = oa_name b, o_enabled = True\<rparr>])"
    by (auto simp: on_offers_def res_simps)
  then show ?thesis
    by (auto simp: rights_def admits_def cfg_peer_def offer_key_def split: option.splits)
qed

text \<open>
  Withdrawing a shared port takes exactly that port from every peer, except from one that is
  offered it by its own entry.
\<close>
theorem shared_offer_withdrawn:
  assumes "del_offer env b st = (Inr u, st')" and "or_peer b = None"
  shows "rights (node_running st') i =
           {k \<in> rights (node_running st) i. k \<noteq> (or_proto b, or_port b) \<or>
              (\<exists>p. cfg_peer (node_running st) i = Some p \<and> (\<exists>x \<in> set (p_offers p). o_enabled x \<and> offer_key x = k))}"
proof -
  have "on_offers env None (drop_key offer_key (OfferUnknown (or_proto b) (or_port b)) (or_proto b, or_port b))
      (node_running st) = Inr (node_running st')"
    using assms commit_Inr [of env _ st u st'] by (auto simp: del_offer_def)
  then have "node_running st' = with_shared (node_running st)
      (filter (\<lambda>x. offer_key x \<noteq> (or_proto b, or_port b)) (shared_of (node_running st)))"
    by (auto simp: on_offers_def res_simps)
  then have shared: "x \<in> set (shared_of (node_running st')) \<longleftrightarrow>
      x \<in> set (shared_of (node_running st)) \<and> offer_key x \<noteq> (or_proto b, or_port b)"
    and peer: "cfg_peer (node_running st') i = cfg_peer (node_running st) i" for x
    by (simp_all add: cfg_peer_def)
  show ?thesis
  proof (cases "cfg_peer (node_running st) i")
    case None
    then show ?thesis using peer by (auto simp: rights_alt)
  next
    case (Some p)
    then show ?thesis
      by (auto simp: set_eq_iff rights_alt peer Bex_def shared)
  qed
qed

text \<open>
  An offer to one peer stays with that peer: after an accepted addition to its own list it has
  exactly that port more, if it is admitted, and the rights of every other peer are what they were.
\<close>
theorem own_offer_added:
  assumes "add_offer env b st = (Inr u, st')" and "oa_peer b = Some p" and "parse_id env p = Inr i"
  shows "rights (node_running st') i =
           rights (node_running st) i \<union> (if admits (node_running st) i then {(oa_proto b, oa_port b)} else {}) \<and>
         (j \<noteq> i \<longrightarrow> rights (node_running st') j = rights (node_running st) j)"
proof -
  define x where "x = \<lparr>o_proto = oa_proto b, o_port = oa_port b, o_name = oa_name b, o_enabled = True\<rparr>"
  have "on_peer_offers i (push_new offer_key offer_known x) (node_running st) = Inr (node_running st')"
    using assms commit_Inr [of env _ st u st'] by (auto simp: add_offer_def on_offers_def x_def)
  then obtain q where q: "cfg_peer (node_running st) i = Some q"
    and edit: "on_peers (patch_key p_id (PeerUnknown i) i (\<lambda>r. r\<lparr>p_offers := p_offers q @ [x]\<rparr>))
      (node_running st) = Inr (node_running st')"
    by (auto simp: on_peer_offers_def res_simps split: option.splits)
  have new: "cfg_peer (node_running st') = (cfg_peer (node_running st))(i \<mapsto> q\<lparr>p_offers := p_offers q @ [x]\<rparr>)"
    using peer_edits.patch_ok [OF edit] q by auto
  note frame = on_peers_frame [OF edit]
  have "rights (node_running st') j = rights (node_running st) j" if "j \<noteq> i"
    using new frame that by (intro rights_cong) simp_all
  then show ?thesis
    using q new frame by (auto simp: rights_def admits_def offer_key_def x_def)
qed

text \<open>
  Adding a peer and removing it again leaves the configuration as it was, entry by entry and in
  the same order.
\<close>
theorem add_then_del_peer:
  assumes "add_peer env b st = (Inr u, st1)" and "del_peer env \<lparr>ir_id = pa_id b\<rparr> st1 = (Inr v, st2)"
  shows "node_running st2 = node_running st"
proof -
  obtain i where i: "parse_id env (pa_id b) = Inr i"
    using assms(1) by (auto simp: add_peer_def split: sum.splits)
  define p where "p = \<lparr>p_id = i, p_name = pa_name b, p_enabled = True, p_offers = []\<rparr>"
  have add: "on_peers (push_new p_id (\<lambda>p. PeerKnown (p_id p)) p) (node_running st) = Inr (node_running st1)"
    using assms(1) i commit_Inr [of env _ st u st1] by (auto simp: add_peer_def p_def)
  have del: "on_peers (drop_key p_id (PeerUnknown i) i) (node_running st1) = Inr (node_running st2)"
    using assms(2) i commit_Inr [of env _ st1 v st2] by (auto simp: del_peer_def)
  have "push_new p_id (\<lambda>p. PeerKnown (p_id p)) p (peers_of (node_running st)) = Inr (peers_of (node_running st1))"
    using on_peers_frame [OF add] by blast
  then have "drop_key p_id (PeerUnknown i) (p_id p) (peers_of (node_running st1)) = Inr (peers_of (node_running st))"
    by (rule drop_after_push)
  then have "peers_of (node_running st2) = peers_of (node_running st)"
    using on_peers_frame [OF del] by (simp add: p_def)
  then show ?thesis
    using on_peers_frame [OF add] on_peers_frame [OF del] by (intro config_eqI) simp_all
qed

section \<open>Witnesses\<close>

text \<open>
  A node with the example configuration, an environment with a disk that never fails, decimal
  endpoint ids of one digit, and header values that are strings.
\<close>

definition demo_env :: "(nat, rstring) AdminEnv" where
  "demo_env =
     \<lparr>ae_os = \<lambda>_. None, ae_to_toml = \<lambda>_. Inr [35],
      ae_serde =
        \<lparr>de_peer_add = \<lambda>_. Inr \<lparr>pa_id = [51], pa_name = []\<rparr>,
         de_peer_patch = \<lambda>_. Inl [], de_id_ref = \<lambda>_. Inl [], de_offer_add = \<lambda>_. Inl [],
         de_offer_patch = \<lambda>_. Inl [], de_offer_ref = \<lambda>_. Inl [], de_binding_add = \<lambda>_. Inl [],
         de_binding_patch = \<lambda>_. Inl [], de_binding_ref = \<lambda>_. Inl []\<rparr>,
      ae_to_str = Some, ae_parse_id = \<lambda>s. if length s = 1 then Inr (hd s - 48) else Inl [],
      ae_id_string = \<lambda>i. [48 + i], ae_id_short = \<lambda>i. [48 + i], ae_render = \<lambda>_. [], ae_display = concat,
      ae_index_html = [], ae_now = 0\<rparr>"

definition demo_node :: "nat node" where
  "demo_node = (shared_new example_config [lit ''state'', lit ''config.toml''] RoleServe 0, fmempty)"

definition demo_admin :: Admin where
  "demo_admin = \<lparr>ad_token = lit ''feed'', ad_id = []\<rparr>"

definition demo_request :: "rstring Request" where
  "demo_request =
     \<lparr>rq_method = POST, rq_path = lit ''/api/peers'', rq_query = None,
      rq_auth = Some (lit ''Bearer feed''), rq_upper = Some 2, rq_body = Inr []\<rparr>"

definition demo_after :: "nat Config \<Rightarrow> nat node" where
  "demo_after c =
     ((fst demo_node)\<lparr>sh_cfg := c\<rparr>,
      snd (fs_exec (\<lambda>_. None) (save_ops (sh_path (fst demo_node)) [35]) fmempty :: (nat error + unit) \<times> fs))"

lemma demo_running [simp]: "node_running demo_node = example_config" "node_running (demo_after c) = c"
  by (simp_all add: node_running_def demo_node_def shared_new_def demo_after_def)

lemma demo_commit:
  assumes "f example_config = Inr c" and "config_wf c"
  shows "commit demo_env f demo_node = (Inr (), demo_after c)"
  using assms validate_wf [OF assms(2)]
  by (simp add: commit_def mutate_def demo_node_def demo_after_def shared_new_def demo_env_def save_def
      path_parent_def save_ops_def)

lemma trim_digit [simp]: "trim [48 + n] = [48 + n]" if "n < 10" for n
  using that by (auto simp: trim_def is_whitespace_def)

lemma demo_id: "n < 10 \<Longrightarrow> parse_id demo_env [48 + n] = Inr n"
  by (simp add: parse_id_def) (simp add: demo_env_def)

lemmas demo_ids = demo_id [of 1, simplified] demo_id [of 3, simplified]

definition demo_without_1 :: "nat Config" where
  "demo_without_1 = with_peers example_config (tl (peers_of example_config))"

definition demo_with_3 :: "nat Config" where
  "demo_with_3 = with_peers example_config
     (peers_of example_config @ [\<lparr>p_id = 3, p_name = [], p_enabled = True, p_offers = []\<rparr>])"

definition demo_off :: "nat Config" where
  "demo_off = with_peers example_config
     [(hd (peers_of example_config))\<lparr>p_enabled := False\<rparr>, hd (tl (peers_of example_config))]"

definition demo_dns :: "nat Config" where
  "demo_dns = with_shared example_config
     (shared_of example_config @ [\<lparr>o_proto = Udp, o_port = 53, o_name = [], o_enabled = True\<rparr>])"

definition demo_no_ssh :: "nat Config" where
  "demo_no_ssh = with_shared example_config []"

definition demo_own :: "nat Config" where
  "demo_own = with_peers example_config
     [(hd (peers_of example_config))\<lparr>p_offers := p_offers (hd (peers_of example_config)) @
         [\<lparr>o_proto = Udp, o_port = 53, o_name = [], o_enabled = True\<rparr>]\<rparr>,
      hd (tl (peers_of example_config))]"

lemma demo_configs_wf:
  "config_wf demo_without_1" "config_wf demo_with_3" "config_wf demo_off" "config_wf demo_dns"
  "config_wf demo_no_ssh" "config_wf demo_own"
  by (simp_all add: demo_without_1_def demo_with_3_def demo_off_def demo_dns_def demo_no_ssh_def demo_own_def
      example_config_def with_peers_def with_shared_def config_wf_def offers_wf_def peers_wf_def bindings_wf_def
      offer_wf_def peer_wf_def binding_wf_def name_wf_def NAME_MAX_def lit_def is_control_def
      binding_key_def offer_key_def)

named_theorems demo \<open>unfolding of the example data\<close>

declare on_peers_def [demo] on_offers_def [demo] on_peer_offers_def [demo] drop_key_def [demo] push_new_def [demo]
  patch_key_def [demo] set_peer_def [demo] example_config_def [demo] with_peers_def [demo] with_shared_def [demo]
  demo_without_1_def [demo] demo_with_3_def [demo] demo_off_def [demo] demo_dns_def [demo] demo_no_ssh_def [demo]
  demo_own_def [demo] offer_key_def [demo] cfg_peer_def [demo]

lemma demo_del: "del_peer demo_env \<lparr>ir_id = [49]\<rparr> demo_node = (Inr (), demo_after demo_without_1)"
  by (simp add: del_peer_def demo_ids) (intro demo_commit demo_configs_wf, simp add: demo)

lemma demo_patch: "patch_peer demo_env \<lparr>pp_id = [49], pp_name = None, pp_enabled = Some False\<rparr> demo_node =
    (Inr (), demo_after demo_off)"
  by (simp add: patch_peer_def demo_ids) (intro demo_commit demo_configs_wf, simp add: demo)

lemma demo_add: "add_peer demo_env \<lparr>pa_id = [51], pa_name = []\<rparr> demo_node = (Inr (), demo_after demo_with_3)"
  by (simp add: add_peer_def demo_ids) (intro demo_commit demo_configs_wf, simp add: demo)

lemma demo_offer: "add_offer demo_env \<lparr>oa_peer = None, oa_proto = Udp, oa_port = 53, oa_name = []\<rparr> demo_node =
    (Inr (), demo_after demo_dns)"
  by (simp add: add_offer_def) (intro demo_commit demo_configs_wf, simp add: demo)

lemma demo_withdraw: "del_offer demo_env \<lparr>or_peer = None, or_proto = Tcp, or_port = 22\<rparr> demo_node =
    (Inr (), demo_after demo_no_ssh)"
  by (simp add: del_offer_def) (intro demo_commit demo_configs_wf, simp add: demo)

lemma demo_own_offer: "add_offer demo_env \<lparr>oa_peer = Some [49], oa_proto = Udp, oa_port = 53, oa_name = []\<rparr> demo_node =
    (Inr (), demo_after demo_own)"
  by (simp add: add_offer_def) (intro demo_commit demo_configs_wf, simp add: demo demo_ids)

lemma demo_route: "route demo_env demo_admin demo_request demo_node = (ok_response, demo_after demo_with_3)"
proof -
  have tok: "presented_token demo_env demo_request = Some (lit ''feed'')"
    by (simp add: presented_token_def bearer_token_def demo_env_def demo_request_def lit_def trim_def is_whitespace_def)
  have "with_body demo_env (de_peer_add (ae_serde demo_env)) (add_peer demo_env) demo_request demo_node =
      (ok_response, demo_after demo_with_3)"
    using demo_add by (simp add: with_body_def demo_request_def MAX_BODY_def) (simp add: demo_env_def)
  then have "dispatch demo_env demo_admin demo_request demo_node = (ok_response, demo_after demo_with_3)"
    by (simp add: dispatch_def Let_def) (simp add: demo_request_def)
  then show ?thesis
    by (simp add: route_def tok) (simp add: demo_admin_def demo_request_def token_eq_bytes)
qed

lemma demo_changes: "demo_after demo_with_3 \<noteq> demo_node"
proof
  assume "demo_after demo_with_3 = demo_node"
  then have "demo_with_3 = example_config" using demo_running by metis
  then show False by (simp add: demo)
qed

theorem admin_edit_needs_token_witness:
  "rq_method demo_request \<in> {POST, PATCH, DELETE} \<and> rq_auth demo_request \<noteq> None \<and>
   (\<exists>tok. presented_token demo_env demo_request = Some tok \<and> as_bytes tok = as_bytes (ad_token demo_admin))"
  by (rule admin_edit_needs_token [OF demo_route demo_changes])

theorem admin_answer_is_true_witness:
  "config_wf demo_with_3 \<and> node_disk (demo_after demo_with_3) = Some (CONFIG_HEADER @ [35])"
proof -
  have "config_wf demo_with_3 \<and> renders (ae_to_toml demo_env) demo_with_3 (node_disk (demo_after demo_with_3))"
    using admin_answer_is_true [OF demo_route] by (simp add: demo_request_def)
  then show ?thesis by (simp add: renders_def demo_env_def)
qed

theorem admin_requests_keep_valid_witness:
  "config_wf (node_running (run_requests demo_admin [(demo_env, demo_request), (demo_env, demo_request)] demo_node))"
  using admin_requests_keep_valid [of demo_node "[(demo_env, demo_request), (demo_env, demo_request)]"
      "ae_to_toml demo_env" demo_admin]
  by (auto simp: example_config_wf)

theorem del_peer_revokes_witness:
  "\<not> admits demo_without_1 1 \<and> granted demo_without_1 2 Tcp = granted example_config 2 Tcp"
  using del_peer_revokes [OF demo_del, of 1 2 Tcp] demo_ids by simp

theorem patch_peer_switches_witness:
  "\<not> admits demo_off 1 \<and> granted demo_off 2 Tcp = granted example_config 2 Tcp"
  using patch_peer_switches [OF demo_patch, of 1 Tcp 2] demo_ids by simp

theorem add_peer_rights_witness:
  "admits demo_with_3 3 \<and> granted demo_with_3 1 Tcp = granted example_config 1 Tcp"
  using add_peer_rights [OF demo_add, of 3 1 Tcp] demo_ids by simp

theorem shared_offer_added_witness:
  "rights demo_dns 1 = rights example_config 1 \<union> (if admits example_config 1 then {(Udp, 53)} else {})"
  using shared_offer_added [OF demo_offer, of 1] by simp

theorem shared_offer_withdrawn_witness:
  "rights demo_no_ssh 1 =
     {k \<in> rights example_config 1. k \<noteq> (Tcp, 22) \<or>
        (\<exists>p. cfg_peer example_config 1 = Some p \<and> (\<exists>x \<in> set (p_offers p). o_enabled x \<and> offer_key x = k))}"
  using shared_offer_withdrawn [OF demo_withdraw, of 1] by simp

theorem own_offer_added_witness:
  "rights demo_own 1 = rights example_config 1 \<union> (if admits example_config 1 then {(Udp, 53)} else {}) \<and>
   rights demo_own 2 = rights example_config 2"
  using own_offer_added [OF demo_own_offer, of "[49]" 1 2] demo_ids by simp

lemma demo_commit_any:
  assumes "f (node_running st) = Inr c" and "config_wf c"
    and "sh_path (fst st) = [lit ''state'', lit ''config.toml'']"
  shows "\<exists>st2. commit demo_env f st = (Inr (), st2)"
  using assms validate_wf [OF assms(2)]
  by (cases st)
     (simp add: commit_def mutate_def node_running_def demo_env_def save_def path_parent_def save_ops_def)

lemma demo_del_again: "\<exists>st2. del_peer demo_env \<lparr>ir_id = [51]\<rparr> (demo_after demo_with_3) = (Inr (), st2)"
proof -
  have "on_peers (drop_key p_id (PeerUnknown (3 :: nat)) 3) (node_running (demo_after demo_with_3)) = Inr example_config"
    by (simp add: demo)
  moreover have "sh_path (fst (demo_after demo_with_3)) = [lit ''state'', lit ''config.toml'']"
    by (simp add: demo_after_def demo_node_def shared_new_def)
  ultimately show ?thesis
    using demo_commit_any [OF _ example_config_wf] by (simp add: del_peer_def demo_ids)
qed

theorem add_then_del_peer_witness:
  "\<exists>st2. del_peer demo_env \<lparr>ir_id = [51]\<rparr> (demo_after demo_with_3) = (Inr (), st2) \<and>
     node_running st2 = node_running demo_node"
proof -
  obtain st2 where del: "del_peer demo_env \<lparr>ir_id = [51]\<rparr> (demo_after demo_with_3) = (Inr (), st2)"
    using demo_del_again by blast
  have "node_running st2 = node_running demo_node"
    by (rule add_then_del_peer [OF demo_add]) (simp add: del)
  with del show ?thesis by blast
qed

end
