(* ===== verification/Startup.thy ===== *)
theory Startup
  imports Cli Admin
begin

text \<open>
  The \<open>serve\<close> and \<open>connect\<close> arms of \<open>main\<close> in \<open>src/main.rs\<close>, up to the call of the data plane:
  loading and seeding the configuration, the endpoint, the shared state and the admin panel. The
  parsed command line is a list of arguments; what the machine decides is one record.
\<close>

section \<open>The environment of a start\<close>

text \<open>
  \<open>se_public\<close> prints the public half of a key, \<open>se_bind\<close> is the binding of the QUIC endpoint for a key (the printed endpoint id, or an error),
  \<open>se_listen\<close> the binding of the admin listener.
\<close>

record ('id, 'v6) StartEnv =
  se_windows :: bool
  se_env :: "rstring \<Rightarrow> rstring option"
  se_os :: os
  se_read_fails :: "path \<Rightarrow> rstring option"
  se_from_toml :: "rstring \<Rightarrow> rstring + 'id Config"
  se_to_toml :: "'id Config \<Rightarrow> rstring + rstring"
  se_fresh_key :: rstring
  se_token_bytes :: "u8 list"
  se_parse_v6 :: "rstring \<Rightarrow> ('v6 \<times> u16) option"
  se_public :: "rstring \<Rightarrow> rstring"
  se_bind :: "bool \<Rightarrow> rstring \<Rightarrow> rstring + rstring"
  se_listen :: "'v6 ip \<times> u16 \<Rightarrow> rstring option"
  se_now :: nat

section \<open>The steps of a start\<close>

definition load_key_here :: "('id, 'v6) StartEnv \<Rightarrow> fs \<Rightarrow> ('id error + rstring) \<times> fs" where
  "load_key_here E f =
     (case state_dir (se_windows E) (se_env E) of
        Inl e \<Rightarrow> (Inl e, f)
      | Inr dir \<Rightarrow>
          load_or_create_key (se_windows E) (se_os E) (se_read_fails E) (se_fresh_key E) dir f)"

definition bind_endpoint ::
  "('id, 'v6) StartEnv \<Rightarrow> bool \<Rightarrow> fs \<Rightarrow> ('id error + rstring) \<times> fs" where
  "bind_endpoint E relay_only f =
     (case load_key_here E f of
        (Inl e, f1) \<Rightarrow> (Inl e, f1)
      | (Inr key, f1) \<Rightarrow> (map_err Os (se_bind E relay_only key), f1))"

definition start_admin ::
  "('id, 'v6) StartEnv \<Rightarrow> rstring \<Rightarrow> rstring \<Rightarrow> fs \<Rightarrow> ('id error + Admin) \<times> fs" where
  "start_admin E spec eid f =
     (case admin_addr (se_parse_v6 E) spec of
        Inl e \<Rightarrow> (Inl e, f)
      | Inr addr \<Rightarrow>
          (case state_dir (se_windows E) (se_env E) of
             Inl e \<Rightarrow> (Inl e, f)
           | Inr dir \<Rightarrow>
               (case load_or_create_token (se_os E) (\<lambda>p. se_read_fails E p \<noteq> None)
                       (se_token_bytes E) dir f of
                  (Inl e, f1) \<Rightarrow> (Inl e, f1)
                | (Inr token, f1) \<Rightarrow>
                    (case se_listen E addr of
                       Some e \<Rightarrow> (Inl (Os e), f1)
                     | None \<Rightarrow> (Inr \<lparr>ad_token = token, ad_id = eid\<rparr>, f1)))))"

text \<open>The panel is optional; the data plane runs only when it started or was not asked for.\<close>

definition start_panel ::
  "('id, 'v6) StartEnv \<Rightarrow> rstring option \<Rightarrow> rstring \<Rightarrow> fs \<Rightarrow> ('id error + Admin option) \<times> fs" where
  "start_panel E admin eid f =
     (case admin of
        None \<Rightarrow> (Inr None, f)
      | Some spec \<Rightarrow>
          (case start_admin E spec eid f of
             (Inl e, f1) \<Rightarrow> (Inl e, f1)
           | (Inr a, f1) \<Rightarrow> (Inr (Some a), f1)))"

text \<open>The file is loaded, seeded with the flags, and written back only when a flag added something.\<close>

definition seed_config ::
  "('id, 'v6) StartEnv \<Rightarrow> ('id Config \<Rightarrow> 'id Config \<times> bool) \<Rightarrow> path \<Rightarrow> fs \<Rightarrow>
     ('id error + 'id Config) \<times> fs" where
  "seed_config E seed path f =
     (case load (se_read_fails E) (se_from_toml E) path f of
        Inl e \<Rightarrow> (Inl e, f)
      | Inr c \<Rightarrow>
          (let (cfg, changed) = seed c
           in if changed
              then (case save (se_os E) (se_to_toml E) path cfg f of
                      (Inl e, f1) \<Rightarrow> (Inl e, f1)
                    | (Inr _, f1) \<Rightarrow> (Inr cfg, f1))
              else (Inr cfg, f)))"

text \<open>
  The common shape of the two arms: a role, its seeding, when its configuration is of no use
  without a panel, and the refusal in that case.
\<close>

definition start_role ::
  "('id, 'v6) StartEnv \<Rightarrow> Role \<Rightarrow> ('id Config \<Rightarrow> 'id Config \<times> bool) \<Rightarrow> ('id Config \<Rightarrow> bool) \<Rightarrow>
     'id error \<Rightarrow> rstring option \<Rightarrow> bool \<Rightarrow> fs \<Rightarrow> ('id error + 'id Shared \<times> Admin option) \<times> fs" where
  "start_role E role seed useless refusal admin relay_only f =
     (case config_path (se_windows E) (se_env E) of
        Inl e \<Rightarrow> (Inl e, f)
      | Inr path \<Rightarrow>
          (case seed_config E seed path f of
             (Inl e, f1) \<Rightarrow> (Inl e, f1)
           | (Inr cfg, f1) \<Rightarrow>
               if useless cfg \<and> admin = None then (Inl refusal, f1)
               else
                 (case bind_endpoint E relay_only f1 of
                    (Inl e, f2) \<Rightarrow> (Inl e, f2)
                  | (Inr eid, f2) \<Rightarrow>
                      (case start_panel E admin eid f2 of
                         (Inl e, f3) \<Rightarrow> (Inl e, f3)
                       | (Inr a, f3) \<Rightarrow> (Inr (shared_new cfg path role (se_now E), a), f3)))))"

definition serve_main ::
  "('id, 'v6) StartEnv \<Rightarrow> u16 list \<Rightarrow> u16 list \<Rightarrow> 'id list \<Rightarrow> rstring option \<Rightarrow> bool \<Rightarrow> fs \<Rightarrow>
     ('id error + 'id Shared \<times> Admin option) \<times> fs" where
  "serve_main E tcp udp allow admin relay_only f =
     start_role E RoleServe (\<lambda>c. seed_from_flags c allow tcp udp) (\<lambda>c. peers_of c = []) NoPeers
       admin relay_only f"

definition connect_main ::
  "('id, 'v6) StartEnv \<Rightarrow> PortMap list \<Rightarrow> PortMap list \<Rightarrow> rstring option \<Rightarrow> bool \<Rightarrow> fs \<Rightarrow>
     ('id error + 'id Shared \<times> Admin option) \<times> fs" where
  "connect_main E tcp udp admin relay_only f =
     start_role E RoleConnect (\<lambda>c. seed_bindings c tcp udp) (\<lambda>c. bindings_of c = []) NoBindings
       admin relay_only f"

text \<open>\<open>enum Cmd\<close> and the match of \<open>main\<close>; a call of \<open>serve::run\<close> or \<open>connect::run\<close> is an outcome.\<close>

datatype 'id Cmd =
    CmdServe "u16 list" "u16 list" "'id list" "rstring option" bool
  | CmdConnect 'id "PortMap list" "PortMap list" "rstring option" bool
  | CmdId

datatype 'id Outcome =
    Printed rstring
  | Serving "'id Shared" "Admin option"
  | Dialing 'id "'id Shared" "Admin option"

fun main_run ::
  "('id, 'v6) StartEnv \<Rightarrow> 'id Cmd \<Rightarrow> fs \<Rightarrow> ('id error + 'id Outcome) \<times> fs" where
  "main_run E CmdId f =
     (case load_key_here E f of
        (Inl e, f1) \<Rightarrow> (Inl e, f1)
      | (Inr key, f1) \<Rightarrow> (Inr (Printed (se_public E key)), f1))"
| "main_run E (CmdServe tcp udp allow admin relay_only) f =
     (case serve_main E tcp udp allow admin relay_only f of
        (Inl e, f1) \<Rightarrow> (Inl e, f1)
      | (Inr (s, a), f1) \<Rightarrow> (Inr (Serving s a), f1))"
| "main_run E (CmdConnect peer tcp udp admin relay_only) f =
     (case connect_main E tcp udp admin relay_only f of
        (Inl e, f1) \<Rightarrow> (Inl e, f1)
      | (Inr (s, a), f1) \<Rightarrow> (Inr (Dialing peer s a), f1))"

section \<open>The seeding contract\<close>

text \<open>What a start relies on: the flag is true exactly when something changed, and a second run adds nothing.\<close>

locale flag_seed =
  fixes seed :: "'c \<Rightarrow> 'c \<times> bool"
  assumes changed_iff: "snd (seed c) \<longleftrightarrow> fst (seed c) \<noteq> c"
    and again: "seed (fst (seed c)) = (fst (seed c), False)"
begin

lemma unchanged: "seed c = (d, False) \<Longrightarrow> d = c"
  using changed_iff [of c] by simp

lemma settled: "seed c = (d, b) \<Longrightarrow> seed d = (d, False)"
  using again [of c] by simp

end

interpretation serve_flags: flag_seed "\<lambda>c. seed_from_flags c allow tcp udp" for allow tcp udp
  by unfold_locales (simp_all add: seed_from_flags_flag seed_from_flags_again)

lemma seed_bindings_parts:
  "fst (seed_bindings c tcp udp) =
     with_bindings c (fst (push_missing binding_key (flag_bindings tcp udp) (bindings_of c, False)))"
  "snd (seed_bindings c tcp udp) = snd (push_missing binding_key (flag_bindings tcp udp) (bindings_of c, False))"
  by (simp_all add: seed_bindings_eq split: prod.splits)

lemma with_bindings_eq_iff: "with_bindings c bs = c \<longleftrightarrow> bs = bindings_of c"
  using config_eqI [of "with_bindings c bs" c] by (metis with_simps(7-9))

interpretation connect_flags: flag_seed "\<lambda>c. seed_bindings c tcp udp" for tcp udp
proof unfold_locales
  fix c :: "'id Config"
  show "snd (seed_bindings c tcp udp) \<longleftrightarrow> fst (seed_bindings c tcp udp) \<noteq> c"
    by (simp add: seed_bindings_parts with_bindings_eq_iff push_missing_flag)
  let ?c' = "fst (seed_bindings c tcp udp)"
  have bs: "push_missing binding_key (flag_bindings tcp udp) (bindings_of ?c', False) = (bindings_of ?c', False)"
    by (rule push_missing_noop) (simp add: seed_bindings_parts push_missing_keys)
  have "with_bindings ?c' (bindings_of ?c') = ?c'"
    by (rule config_eqI) simp_all
  then show "seed_bindings ?c' tcp udp = (?c', False)"
    by (simp add: seed_bindings_eq [of ?c'] bs)
qed


section \<open>What a start leaves on disk\<close>

definition stored_key :: "(path \<Rightarrow> rstring option) \<Rightarrow> path \<Rightarrow> fs \<Rightarrow> rstring option" where
  "stored_key read_fails dir f =
     (if read_fails (key_path dir) \<noteq> None then None
      else (case fmlookup f (key_path dir) of
              None \<Rightarrow> None
            | Some k \<Rightarrow> if length k = 32 then Some k else None))"

lemma load_key_stored:
  "stored_key read_fails dir f = Some k \<Longrightarrow>
     load_or_create_key windows os read_fails fresh dir f = (Inr k, f)"
  by (auto simp: stored_key_def load_or_create_key_def split: option.splits if_splits)

lemma load_key_ok:
  fixes k :: rstring
  assumes "load_or_create_key windows os read_fails fresh dir f = (Inr k :: 'id error + rstring, f')"
  shows "length fresh = 32 \<Longrightarrow> stored_key read_fails dir f' = Some k"
    and "q \<noteq> key_path dir \<Longrightarrow> fmlookup f' q = fmlookup f q"
proof -
  have rd: "read_fails (key_path dir) = None"
    using assms by (cases "read_fails (key_path dir)") (simp_all add: load_or_create_key_def)
  have "f' = f \<and> fmlookup f (key_path dir) = Some k \<and> length k = 32 \<or>
      k = fresh \<and> f' = fmupd (key_path dir) fresh f"
    using assms rd load_key_makes [OF assms rd]
    by (cases "fmlookup f (key_path dir)") (auto simp: load_or_create_key_def split: if_splits)
  then show "length fresh = 32 \<Longrightarrow> stored_key read_fails dir f' = Some k"
    and "q \<noteq> key_path dir \<Longrightarrow> fmlookup f' q = fmlookup f q"
    using rd by (auto simp: stored_key_def)
qed

lemma load_token_stored:
  "stored_token read_fails dir f = Some t \<Longrightarrow> load_or_create_token os read_fails bytes dir f = (Inr t, f)"
  by (simp add: load_or_create_token_def)

lemma load_token_ok:
  assumes "load_or_create_token os read_fails bytes dir f = (Inr t, f')"
  shows "bytes \<noteq> [] \<Longrightarrow> \<not> read_fails (token_path dir) \<Longrightarrow> stored_token read_fails dir f' = Some t"
    and "q \<noteq> token_path dir \<Longrightarrow> fmlookup f' q = fmlookup f q"
proof -
  have minted: "t = mint_token bytes \<and> f' = fmupd (token_path dir) (mint_token bytes) f"
    if "stored_token read_fails dir f = None"
    using assms that by (rule load_or_create_token_minted)
  have "stored_token read_fails dir f = Some t \<and> f' = f" if "stored_token read_fails dir f \<noteq> None"
    using assms that by (auto simp: load_or_create_token_def)
  with minted show "q \<noteq> token_path dir \<Longrightarrow> fmlookup f' q = fmlookup f q"
    by (cases "stored_token read_fails dir f") auto
  assume "bytes \<noteq> []" "\<not> read_fails (token_path dir)"
  then have "mint_token bytes \<noteq> []" using mint_token_length [of bytes] by auto
  with minted \<open>\<not> read_fails (token_path dir)\<close> assms show "stored_token read_fails dir f' = Some t"
    by (cases "stored_token read_fails dir f")
      (auto simp: load_or_create_token_def stored_token_def trim_mint_token)
qed

text \<open>The three files of a state directory do not overlap.\<close>

lemma state_paths:
  "key_path dir \<noteq> dir @ [lit ''config.toml'']" "token_path dir \<noteq> dir @ [lit ''config.toml'']"
  "key_path dir \<noteq> token_path dir"
  by (simp_all add: key_path_def token_path_def lit_def)

lemma seed_config_ok:
  assumes "seed_config E seed path f = (Inr cfg, f')" and "flag_seed seed"
    and "\<And>t. se_to_toml E cfg = Inr t \<Longrightarrow> se_from_toml E (CONFIG_HEADER @ t) = Inr cfg"
  shows "load (se_read_fails E) (se_from_toml E) path f' = Inr cfg \<and> seed cfg = (cfg, False) \<and>
         (\<exists>c. load (se_read_fails E) (se_from_toml E) path f = Inr c \<and> cfg = fst (seed c) \<and>
            (cfg = c \<longrightarrow> f' = f))"
proof (cases "load (se_read_fails E) (se_from_toml E) path f")
  case (Inl e)
  with assms(1) show ?thesis by (simp add: seed_config_def)
next
  case (Inr c)
  obtain d changed where sd: "seed c = (d, changed)" by (cases "seed c")
  show ?thesis
  proof (cases changed)
    case False
    with sd have "d = c" using flag_seed.unchanged [OF assms(2)] by simp
    with False Inr sd assms(1) show ?thesis by (auto simp: seed_config_def)
  next
    case True
    with sd have "d \<noteq> c" using flag_seed.changed_iff [OF assms(2), of c] by simp
    moreover obtain r where sv: "save (se_os E) (se_to_toml E) path cfg f = (r, f')" "r = Inr ()" "cfg = d"
      using assms(1) Inr sd True
      by (auto simp: seed_config_def split: prod.splits sum.splits)
    moreover obtain t where "validate cfg = Inr ()" "se_to_toml E cfg = Inr t"
        "fmlookup f' path = Some (CONFIG_HEADER @ t)"
      using save_outcome [OF sv(1)] sv(2) by (auto simp: validate_ok)
    moreover have "se_read_fails E path = None"
      using Inr by (auto simp: load_def split: option.splits)
    ultimately show ?thesis
      using Inr sd flag_seed.settled [OF assms(2) sd] assms(3)
      by (auto simp: load_def)
  qed
qed

lemma load_key_here_ok:
  fixes E :: "('id, 'v6) StartEnv"
  assumes "load_key_here E f = (Inr k, f')"
  obtains dir where "(state_dir (se_windows E) (se_env E) :: 'id error + path) = Inr dir"
    "load_or_create_key (se_windows E) (se_os E) (se_read_fails E) (se_fresh_key E) dir f =
       (Inr k :: 'id error + rstring, f')"
  using assms by (auto simp: load_key_here_def split: sum.splits)

lemma start_admin_ok:
  fixes E :: "('id, 'v6) StartEnv"
  assumes "start_admin E spec eid f = (Inr a, f')"
  obtains addr dir where "(admin_addr (se_parse_v6 E) spec :: 'id error + _) = Inr addr"
    "(state_dir (se_windows E) (se_env E) :: 'id error + path) = Inr dir"
    "load_or_create_token (se_os E) (\<lambda>p. se_read_fails E p \<noteq> None) (se_token_bytes E) dir f =
       (Inr (ad_token a) :: 'id error + rstring, f')"
    "se_listen E addr = None" "a = \<lparr>ad_token = ad_token a, ad_id = eid\<rparr>"
  using assms
  by (auto simp: start_admin_def split: sum.splits prod.splits option.splits)

text \<open>A later start: another disk, other random bytes, another time.\<close>

definition later :: "os \<Rightarrow> rstring \<Rightarrow> u8 list \<Rightarrow> nat \<Rightarrow> ('id, 'v6) StartEnv \<Rightarrow> ('id, 'v6) StartEnv" where
  "later os fresh bytes now E =
     E\<lparr>se_os := os, se_fresh_key := fresh, se_token_bytes := bytes, se_now := now\<rparr>"

lemma later_simps [simp]:
  "se_windows (later os fresh bytes now E) = se_windows E" "se_env (later os fresh bytes now E) = se_env E"
  "se_read_fails (later os fresh bytes now E) = se_read_fails E"
  "se_from_toml (later os fresh bytes now E) = se_from_toml E"
  "se_to_toml (later os fresh bytes now E) = se_to_toml E"
  "se_parse_v6 (later os fresh bytes now E) = se_parse_v6 E"
  "se_public (later os fresh bytes now E) = se_public E"
  "se_bind (later os fresh bytes now E) = se_bind E" "se_listen (later os fresh bytes now E) = se_listen E"
  "se_now (later os fresh bytes now E) = now" "se_os (later os fresh bytes now E) = os"
  by (simp_all add: later_def)

lemma load_key_later:
  fixes E :: "('id, 'v6) StartEnv"
  assumes "load_key_here E f = (Inr k, f')" and "length (se_fresh_key E) = 32"
    and "(state_dir (se_windows E) (se_env E) :: 'id error + path) = Inr dir"
    and "fmlookup g (key_path dir) = fmlookup f' (key_path dir)"
  shows "load_key_here (later os fresh bytes now E) g = (Inr k, g)"
proof -
  have "load_or_create_key (se_windows E) (se_os E) (se_read_fails E) (se_fresh_key E) dir f =
      (Inr k :: 'id error + rstring, f')"
    using assms(1,3) by (simp add: load_key_here_def)
  from load_key_ok(1) [OF this assms(2)] assms(4)
  have "stored_key (se_read_fails E) dir g = Some k" by (simp only: stored_key_def)
  then show ?thesis using assms(3) by (simp add: load_key_here_def load_key_stored)
qed

lemma start_admin_later:
  fixes E :: "('id, 'v6) StartEnv"
  assumes "start_admin E spec eid f = (Inr a, f')" and "se_token_bytes E \<noteq> []"
    and "(state_dir (se_windows E) (se_env E) :: 'id error + path) = Inr dir"
    and "se_read_fails E (token_path dir) = None"
  shows "start_admin (later os fresh bytes now E) spec eid f' = (Inr a, f')"
  using assms(1)
proof (rule start_admin_ok)
  fix addr dir'
  assume steps: "(admin_addr (se_parse_v6 E) spec :: 'id error + _) = Inr addr"
    "(state_dir (se_windows E) (se_env E) :: 'id error + path) = Inr dir'"
    "load_or_create_token (se_os E) (\<lambda>p. se_read_fails E p \<noteq> None) (se_token_bytes E) dir' f =
       (Inr (ad_token a) :: 'id error + rstring, f')"
    "se_listen E addr = None" "a = \<lparr>ad_token = ad_token a, ad_id = eid\<rparr>"
  with assms(3) have "dir' = dir" by simp
  with load_token_ok(1) [OF steps(3) assms(2)] assms(4)
  have "stored_token (\<lambda>p. se_read_fails E p \<noteq> None) dir f' = Some (ad_token a)" by simp
  with steps assms(3) show ?thesis
    by (simp add: start_admin_def load_token_stored del: not_None_eq)
qed

text \<open>The start of a role, step by step.\<close>

lemma start_role_ok:
  fixes E :: "('id, 'v6) StartEnv"
  assumes "start_role E role seed useless refusal admin relay_only f = (Inr (s, a), f')"
  obtains dir cfg f1 k f2 eid where
    "(state_dir (se_windows E) (se_env E) :: 'id error + path) = Inr dir"
    "seed_config E seed (dir @ [lit ''config.toml'']) f = (Inr cfg, f1)"
    "\<not> (useless cfg \<and> admin = None)"
    "load_key_here E f1 = (Inr k, f2)" "se_bind E relay_only k = Inr eid"
    "start_panel E admin eid f2 = (Inr a, f')"
    "s = shared_new cfg (dir @ [lit ''config.toml'']) role (se_now E)"
  using assms
  by (auto simp: start_role_def config_path_def bind_endpoint_def res_simps
      split: sum.splits prod.splits if_splits)

lemma start_panel_frame:
  fixes E :: "('id, 'v6) StartEnv"
  assumes "start_panel E admin eid f = (Inr a, f')"
    and dir: "(state_dir (se_windows E) (se_env E) :: 'id error + path) = Inr dir"
    and "q \<noteq> token_path dir"
  shows "fmlookup f' q = fmlookup f q"
proof (cases admin)
  case None
  with assms(1) show ?thesis by (simp add: start_panel_def)
next
  case (Some spec)
  with assms(1) obtain p where "start_admin E spec eid f = (Inr p, f')"
    by (auto simp: start_panel_def split: sum.splits prod.splits)
  then show ?thesis
  proof (rule start_admin_ok)
    fix addr dir'
    assume d': "(state_dir (se_windows E) (se_env E) :: 'id error + path) = Inr dir'"
      and tok: "load_or_create_token (se_os E) (\<lambda>p. se_read_fails E p \<noteq> None) (se_token_bytes E) dir' f =
       (Inr (ad_token p) :: 'id error + rstring, f')"
    from d' dir have "dir' = dir" by simp
    with load_token_ok(2) [OF tok] assms(3) show ?thesis by simp
  qed
qed

lemma start_panel_later:
  fixes E :: "('id, 'v6) StartEnv"
  assumes "start_panel E admin eid f = (Inr a, f')" and "se_token_bytes E \<noteq> []"
    and "(state_dir (se_windows E) (se_env E) :: 'id error + path) = Inr dir"
    and "se_read_fails E (token_path dir) = None"
  shows "start_panel (later os fresh bytes now E) admin eid f' = (Inr a, f')"
proof (cases admin)
  case None
  with assms(1) show ?thesis by (simp add: start_panel_def)
next
  case (Some spec)
  with assms(1) obtain p where p: "start_admin E spec eid f = (Inr p, f')" "a = Some p"
    by (auto simp: start_panel_def split: sum.splits prod.splits)
  from start_admin_later [OF p(1) assms(2-4)] Some p(2) show ?thesis
    by (simp add: start_panel_def)
qed

lemma load_wf: "load read_fails from_toml path f = Inr c \<Longrightarrow> config_wf c"
  by (auto simp: load_def res_simps default_config_def config_wf_def offers_wf_def peers_wf_def
      bindings_wf_def split: option.splits)

definition toml_faithful :: "('id, 'v6) StartEnv \<Rightarrow> bool" where
  "toml_faithful E \<longleftrightarrow>
     (\<forall>c t. se_to_toml E c = Inr t \<longrightarrow> se_from_toml E (CONFIG_HEADER @ t) = Inr c)"

lemma start_role_runs:
  fixes E :: "('id, 'v6) StartEnv"
  assumes "start_role E role seed useless refusal admin relay_only f = (Inr (s, a), f')"
    and "flag_seed seed" and "toml_faithful E"
  shows "(config_path (se_windows E) (se_env E) :: 'id error + path) = Inr (sh_path s) \<and>
         load (se_read_fails E) (se_from_toml E) (sh_path s) f' = Inr (sh_cfg s) \<and>
         (\<exists>c. load (se_read_fails E) (se_from_toml E) (sh_path s) f = Inr c \<and> sh_cfg s = fst (seed c) \<and>
            (sh_cfg s = c \<longrightarrow> fmlookup f' (sh_path s) = fmlookup f (sh_path s))) \<and>
         s = shared_new (sh_cfg s) (sh_path s) role (se_now E) \<and> sh_role s = role \<and>
         \<not> (useless (sh_cfg s) \<and> admin = None)"
  using assms(1)
proof (rule start_role_ok)
  fix dir cfg f1 k f2 eid
  assume dir: "(state_dir (se_windows E) (se_env E) :: 'id error + path) = Inr dir"
    and sd: "seed_config E seed (dir @ [lit ''config.toml'']) f = (Inr cfg, f1)"
    and ok: "\<not> (useless cfg \<and> admin = None)"
    and key: "load_key_here E f1 = (Inr k, f2)" "se_bind E relay_only k = Inr eid"
    and panel: "start_panel E admin eid f2 = (Inr a, f')"
    and s: "s = shared_new cfg (dir @ [lit ''config.toml'']) role (se_now E)"
  have "fmlookup f' (dir @ [lit ''config.toml'']) = fmlookup f2 (dir @ [lit ''config.toml''])"
    by (rule start_panel_frame [OF panel dir]) (rule state_paths(2) [symmetric])
  also have "\<dots> = fmlookup f1 (dir @ [lit ''config.toml''])"
    using key(1)
  proof (rule load_key_here_ok)
    fix dir'
    assume d: "(state_dir (se_windows E) (se_env E) :: 'id error + path) = Inr dir'"
      and l: "load_or_create_key (se_windows E) (se_os E) (se_read_fails E) (se_fresh_key E) dir' f1 =
       (Inr k :: 'id error + rstring, f2)"
    from d dir have "dir' = dir" by simp
    with load_key_ok(2) [OF l] show ?thesis using state_paths(1) [of dir] by metis
  qed
  finally have same: "fmlookup f' (dir @ [lit ''config.toml'']) = fmlookup f1 (dir @ [lit ''config.toml''])" .
  have law: "se_from_toml E (CONFIG_HEADER @ t) = Inr cfg" if "se_to_toml E cfg = Inr t" for t
    using assms(3) that by (simp add: toml_faithful_def)
  from seed_config_ok [OF sd assms(2) law] same ok s dir
    load_cong [OF same, where rf = "se_read_fails E" and from_toml = "se_from_toml E"] show ?thesis
    by (auto simp: shared_new_def config_path_def)
qed

lemma start_role_later:
  fixes E :: "('id, 'v6) StartEnv"
  assumes "start_role E role seed useless refusal admin relay_only f = (Inr (s, a), f')"
    and "flag_seed seed" and "toml_faithful E"
    and "length (se_fresh_key E) = 32" and "se_token_bytes E \<noteq> []"
    and rd: "\<And>dir. (state_dir (se_windows E) (se_env E) :: 'id error + path) = Inr dir \<Longrightarrow>
               se_read_fails E (token_path dir) = None"
  shows "start_role (later os fresh bytes now E) role seed useless refusal admin relay_only f' =
           (Inr (s\<lparr>sh_started := now\<rparr>, a), f')"
  using assms(1)
proof (rule start_role_ok)
  fix dir cfg f1 k f2 eid
  assume dir: "(state_dir (se_windows E) (se_env E) :: 'id error + path) = Inr dir"
    and sd: "seed_config E seed (dir @ [lit ''config.toml'']) f = (Inr cfg, f1)"
    and ok: "\<not> (useless cfg \<and> admin = None)"
    and key: "load_key_here E f1 = (Inr k, f2)" "se_bind E relay_only k = Inr eid"
    and panel: "start_panel E admin eid f2 = (Inr a, f')"
    and s: "s = shared_new cfg (dir @ [lit ''config.toml'']) role (se_now E)"
  have path: "sh_path s = dir @ [lit ''config.toml'']" "sh_cfg s = cfg"
    by (simp_all add: s shared_new_def)
  have "load (se_read_fails E) (se_from_toml E) (dir @ [lit ''config.toml'']) f' = Inr cfg"
    using start_role_runs [OF assms(1-3)] by (simp add: path)
  moreover have "seed cfg = (cfg, False)"
    using start_role_runs [OF assms(1-3)] flag_seed.again [OF assms(2)] by (auto simp: path)
  ultimately have sd': "seed_config (later os fresh bytes now E) seed (dir @ [lit ''config.toml'']) f' = (Inr cfg, f')"
    by (simp add: seed_config_def)
  have "fmlookup f' (key_path dir) = fmlookup f2 (key_path dir)"
    by (rule start_panel_frame [OF panel dir]) (rule state_paths(3))
  then have "load_key_here (later os fresh bytes now E) f' = (Inr k, f')"
    by (rule load_key_later [OF key(1) assms(4) dir])
  moreover have "start_panel (later os fresh bytes now E) admin eid f' = (Inr a, f')"
    by (rule start_panel_later [OF panel assms(5) dir rd [OF dir]])
  ultimately show ?thesis
    using sd' ok key(2) dir
    by (auto simp: start_role_def config_path_def bind_endpoint_def s shared_new_def)
qed

section \<open>Starting the program\<close>

fun outcome_shared :: "'id Outcome \<Rightarrow> ('id Shared \<times> Admin option) option" where
  "outcome_shared (Printed t) = None"
| "outcome_shared (Serving s a) = Some (s, a)"
| "outcome_shared (Dialing i s a) = Some (s, a)"

fun restamp :: "nat \<Rightarrow> 'id Outcome \<Rightarrow> 'id Outcome" where
  "restamp now (Printed t) = Printed t"
| "restamp now (Serving s a) = Serving (s\<lparr>sh_started := now\<rparr>) a"
| "restamp now (Dialing i s a) = Dialing i (s\<lparr>sh_started := now\<rparr>) a"

fun cmd_seed :: "'id Cmd \<Rightarrow> 'id Config \<Rightarrow> 'id Config" where
  "cmd_seed CmdId c = c"
| "cmd_seed (CmdServe tcp udp allow admin relay_only) c = fst (seed_from_flags c allow tcp udp)"
| "cmd_seed (CmdConnect peer tcp udp admin relay_only) c = fst (seed_bindings c tcp udp)"

lemma main_starts:
  fixes E :: "('id, 'v6) StartEnv"
  assumes "main_run E cmd f = (Inr out, f')" and "outcome_shared out = Some (s, a)"
    and "toml_faithful E"
  shows "(config_path (se_windows E) (se_env E) :: 'id error + path) = Inr (sh_path s) \<and>
         load (se_read_fails E) (se_from_toml E) (sh_path s) f' = Inr (sh_cfg s) \<and>
         config_wf (sh_cfg s) \<and> s = shared_new (sh_cfg s) (sh_path s) (sh_role s) (se_now E) \<and>
         (\<exists>c. load (se_read_fails E) (se_from_toml E) (sh_path s) f = Inr c \<and> sh_cfg s = cmd_seed cmd c \<and>
            (sh_cfg s = c \<longrightarrow> fmlookup f' (sh_path s) = fmlookup f (sh_path s))) \<and>
         (case out of
            Serving _ a \<Rightarrow> sh_role s = RoleServe \<and> (a = None \<longrightarrow> peers_of (sh_cfg s) \<noteq> [])
          | Dialing _ _ a \<Rightarrow> sh_role s = RoleConnect \<and> (a = None \<longrightarrow> bindings_of (sh_cfg s) \<noteq> [])
          | Printed _ \<Rightarrow> False)"
proof (cases cmd)
  case (CmdServe tcp udp allow admin relay_only)
  with assms(1,2) have out: "out = Serving s a"
    and st: "start_role E RoleServe (\<lambda>c. seed_from_flags c allow tcp udp) (\<lambda>c. peers_of c = []) NoPeers
       admin relay_only f = (Inr (s, a), f')"
    by (auto simp: serve_main_def split: sum.splits prod.splits)
  have "admin = None" if "a = None"
    using st that by (rule_tac start_role_ok [OF st]) (auto simp: start_panel_def split: option.splits sum.splits prod.splits)
  then show ?thesis
    using start_role_runs [OF st serve_flags.flag_seed_axioms assms(3)] out CmdServe
    by (auto intro: load_wf)
next
  case (CmdConnect peer tcp udp admin relay_only)
  with assms(1,2) have out: "out = Dialing peer s a"
    and st: "start_role E RoleConnect (\<lambda>c. seed_bindings c tcp udp) (\<lambda>c. bindings_of c = []) NoBindings
       admin relay_only f = (Inr (s, a), f')"
    by (auto simp: connect_main_def split: sum.splits prod.splits)
  have "admin = None" if "a = None"
    using st that by (rule_tac start_role_ok [OF st]) (auto simp: start_panel_def split: option.splits sum.splits prod.splits)
  then show ?thesis
    using start_role_runs [OF st connect_flags.flag_seed_axioms assms(3)] out CmdConnect
    by (auto intro: load_wf)
next
  case CmdId
  with assms(1,2) show ?thesis by (auto split: sum.splits prod.splits)
qed

text \<open>
  C20: a data plane only ever starts on a valid configuration that is the one on disk. When a
  command gets as far as serving or dialing, the shared state is a fresh one around exactly what
  the file now loads as, which is what it loaded as before with the flags seeded into it, and the
  file is untouched when the flags added nothing. Without a panel there is something to do: a
  peer to serve or a port to bind.
\<close>
theorem start_runs_the_file:
  fixes E :: "('id, 'v6) StartEnv"
  assumes "main_run E cmd f = (Inr out, f')" and "outcome_shared out = Some (s, a)"
    and "toml_faithful E"
  shows "(config_path (se_windows E) (se_env E) :: 'id error + path) = Inr (sh_path s) \<and>
         load (se_read_fails E) (se_from_toml E) (sh_path s) f' = Inr (sh_cfg s) \<and>
         config_wf (sh_cfg s) \<and> s = shared_new (sh_cfg s) (sh_path s) (sh_role s) (se_now E) \<and>
         (\<exists>c. load (se_read_fails E) (se_from_toml E) (sh_path s) f = Inr c \<and> sh_cfg s = cmd_seed cmd c \<and>
            (sh_cfg s = c \<longrightarrow> fmlookup f' (sh_path s) = fmlookup f (sh_path s))) \<and>
         (case out of
            Serving _ a \<Rightarrow> sh_role s = RoleServe \<and> (a = None \<longrightarrow> peers_of (sh_cfg s) \<noteq> [])
          | Dialing _ _ a \<Rightarrow> sh_role s = RoleConnect \<and> (a = None \<longrightarrow> bindings_of (sh_cfg s) \<noteq> [])
          | Printed _ \<Rightarrow> False)"
  by (rule main_starts [OF assms])

text \<open>
  C21: a restart changes nothing. Once a command has succeeded, running it again on the files it
  left behind succeeds with the same outcome, whatever the disk would do and whatever fresh
  random bytes are drawn: the same endpoint id, the same configuration, the same admin token,
  only the start time differs. No file changes.
\<close>
theorem restart_is_identical:
  fixes E :: "('id, 'v6) StartEnv"
  assumes "main_run E cmd f = (Inr out, f')" and "toml_faithful E"
    and "length (se_fresh_key E) = 32" and "se_token_bytes E \<noteq> []"
    and "\<And>dir. (state_dir (se_windows E) (se_env E) :: 'id error + path) = Inr dir \<Longrightarrow>
           se_read_fails E (token_path dir) = None"
  shows "main_run (later os fresh bytes now E) cmd f' = (Inr (restamp now out), f')"
proof (cases cmd)
  case (CmdServe tcp udp allow admin relay_only)
  with assms(1) obtain s a where out: "out = Serving s a"
    and st: "start_role E RoleServe (\<lambda>c. seed_from_flags c allow tcp udp) (\<lambda>c. peers_of c = []) NoPeers
       admin relay_only f = (Inr (s, a), f')"
    by (auto simp: serve_main_def split: sum.splits prod.splits)
  from start_role_later [OF st serve_flags.flag_seed_axioms assms(2-5)] show ?thesis
    by (simp add: CmdServe out serve_main_def)
next
  case (CmdConnect peer tcp udp admin relay_only)
  with assms(1) obtain s a where out: "out = Dialing peer s a"
    and st: "start_role E RoleConnect (\<lambda>c. seed_bindings c tcp udp) (\<lambda>c. bindings_of c = []) NoBindings
       admin relay_only f = (Inr (s, a), f')"
    by (auto simp: connect_main_def split: sum.splits prod.splits)
  from start_role_later [OF st connect_flags.flag_seed_axioms assms(2-5)] show ?thesis
    by (simp add: CmdConnect out connect_main_def)
next
  case CmdId
  with assms(1) obtain k where k: "load_key_here E f = (Inr k, f')" "out = Printed (se_public E k)"
    by (auto split: sum.splits prod.splits)
  then obtain dir where "(state_dir (se_windows E) (se_env E) :: 'id error + path) = Inr dir"
    by (auto elim: load_key_here_ok)
  from load_key_later [OF k(1) assms(3) this refl] k(2) CmdId show ?thesis by simp
qed

text \<open>A first start on an empty machine: one flag of each kind, no panel.\<close>

definition demo_cfg :: "nat Config" where
  "demo_cfg =
     \<lparr>cfg_serve = \<lparr>sc_shared = [new_offer Tcp 22, new_offer Udp 53], sc_peers = [new_peer 3]\<rparr>,
      cfg_connect = \<lparr>cc_bindings = []\<rparr>\<rparr>"

definition demo_start :: "(nat, nat) StartEnv" where
  "demo_start =
     \<lparr>se_windows = False,
      se_env = (\<lambda>k. if k = lit ''RTUN_STATE_DIR'' then Some (lit ''d'') else None),
      se_os = (\<lambda>_. None), se_read_fails = (\<lambda>_. None),
      se_from_toml = (\<lambda>s. if s = CONFIG_HEADER then Inr demo_cfg else Inl []),
      se_to_toml = (\<lambda>c. if c = demo_cfg then Inr [] else Inl []),
      se_fresh_key = replicate 32 7, se_token_bytes = [2], se_parse_v6 = (\<lambda>_. None),
      se_public = (\<lambda>k. k), se_bind = (\<lambda>_ k. Inr k), se_listen = (\<lambda>_. None), se_now = 0\<rparr>"

definition demo_path :: path where
  "demo_path = [lit ''d'', lit ''config.toml'']"

definition demo_shared :: "nat Shared" where
  "demo_shared = shared_new demo_cfg demo_path RoleServe 0"

definition demo_saved :: fs where
  "demo_saved = snd (fs_exec (\<lambda>_. None) (save_ops demo_path []) fmempty :: (nat error + unit) \<times> fs)"

definition demo_files :: fs where
  "demo_files = fmupd (key_path [lit ''d'']) (replicate 32 7) demo_saved"

lemma demo_start_simps:
  "se_windows demo_start = False" "se_os demo_start = (\<lambda>_. None)" "se_read_fails demo_start = (\<lambda>_. None)"
  "se_from_toml demo_start CONFIG_HEADER = Inr demo_cfg" "se_to_toml demo_start demo_cfg = Inr []"
  "se_fresh_key demo_start = replicate 32 7" "se_token_bytes demo_start = [2]"
  "se_bind demo_start b k = Inr k" "se_now demo_start = 0"
  "(state_dir False (se_env demo_start) :: nat error + path) = Inr [lit ''d'']"
  by (simp_all add: demo_start_def state_dir_def lit_def)

lemma demo_seed:
  "seed_from_flags default_config [3] [22] [53] = (demo_cfg, True)" "validate demo_cfg = Inr ()"
  unfolding validate_ok
  by (simp_all add: demo_cfg_def seed_from_flags_def default_config_def with_peers_def with_shared_def
      config_wf_def offers_wf_def peers_wf_def bindings_wf_def)

lemma demo_toml: "toml_faithful demo_start"
  by (simp add: toml_faithful_def demo_start_def)

lemma demo_save:
  "save (\<lambda>_. None) (se_to_toml demo_start) demo_path demo_cfg fmempty = (Inr (), demo_saved)"
  by (simp add: save_def demo_seed demo_start_simps demo_path_def path_parent_def demo_saved_def save_ops_def)

lemma demo_no_key: "fmlookup demo_saved (key_path [lit ''d'']) = None"
proof -
  have "key_path [lit ''d''] \<noteq> tmp_path demo_path" "key_path [lit ''d''] \<noteq> demo_path"
    by (simp_all add: key_path_def demo_path_def tmp_path_def with_extension_def file_stem_def lit_def)
  then show ?thesis
    using save_outcome [OF demo_save, where q = "key_path [lit ''d'']"] by simp
qed

lemma demo_start_run:
  "main_run demo_start (CmdServe [22] [53] [3] None False) fmempty = (Inr (Serving demo_shared None), demo_files)"
proof -
  have "seed_config demo_start (\<lambda>c. seed_from_flags c [3] [22] [53]) demo_path fmempty = (Inr demo_cfg, demo_saved)"
    by (simp add: seed_config_def load_def demo_start_simps demo_seed demo_save)
  moreover have "load_key_here demo_start demo_saved = (Inr (replicate 32 7), demo_files)"
    by (simp add: load_key_here_def demo_start_simps load_or_create_key_def demo_no_key write_key_def
        write_secret_def demo_files_def)
  ultimately show ?thesis
    by (simp add: serve_main_def start_role_def config_path_def bind_endpoint_def start_panel_def
        demo_start_simps demo_shared_def demo_path_def demo_cfg_def)
qed

theorem start_runs_the_file_witness:
  "load (\<lambda>_. None) (se_from_toml demo_start) demo_path demo_files = Inr demo_cfg \<and> config_wf demo_cfg"
  using start_runs_the_file [OF demo_start_run _ demo_toml, of demo_shared None]
  by (simp add: demo_shared_def shared_new_def demo_start_simps)

theorem restart_is_identical_witness:
  "main_run (later (\<lambda>_. Some ([], None)) [] [] 9 demo_start) (CmdServe [22] [53] [3] None False) demo_files =
     (Inr (Serving (demo_shared\<lparr>sh_started := 9\<rparr>) None), demo_files)"
  using restart_is_identical [OF demo_start_run demo_toml, where now = 9 and os = "\<lambda>_. Some ([], None)"
      and fresh = "[]" and bytes = "[]"]
  by (simp add: demo_start_simps)

end
