(* ===== verification/Idle_Table.thy ===== *)
theory Idle_Table
  imports State
begin

text \<open>
  The idle timers that both ends keep on their UDP sessions (the constants of \<open>src/main.rs\<close>): the
  contract of a table whose entries are refreshed by traffic and dropped by a periodic reaper, and
  what follows from it about the life of an entry. \<open>Serve_Side\<close> and \<open>Connect_Side\<close> interpret it on
  their two tables. Times are nanoseconds; \<open>Instant::elapsed\<close> saturates at zero, as \<open>-\<close> does here.
\<close>

definition PATH_HEARTBEAT :: nat where
  "PATH_HEARTBEAT = 60 * SEC"

definition UDP_IDLE :: nat where
  "UDP_IDLE = 60 * SEC"

definition UDP_REAP_INTERVAL :: nat where
  "UDP_REAP_INTERVAL = 5 * SEC"

lemma udp_times: "0 < UDP_IDLE" "0 < UDP_REAP_INTERVAL"
  by (simp_all add: UDP_IDLE_def UDP_REAP_INTERVAL_def SEC_def)

datatype 'k idle_op = Touch nat 'k | Reap nat

text \<open>One entry seen alone: its last use, if it is still there.\<close>

fun entry_step :: "'k \<Rightarrow> nat option \<Rightarrow> 'k idle_op \<Rightarrow> nat option" where
  "entry_step k None e = None"
| "entry_step k (Some l) (Touch now j) = Some (if j = k then now else l)"
| "entry_step k (Some l) (Reap now) = (if now - l < UDP_IDLE then Some l else None)"

lemma entry_step_None [simp]: "foldl (entry_step k) None es = None"
  by (induction es) simp_all

lemma entry_survives:
  assumes "l0 \<le> l"
    and "\<And>now. Reap now \<in> set es \<Longrightarrow> now < l0 + UDP_IDLE"
    and "\<And>now. Touch now k \<in> set es \<Longrightarrow> l0 \<le> now"
  shows "\<exists>l'. foldl (entry_step k) (Some l) es = Some l' \<and> l0 \<le> l'"
  using assms
proof (induction es arbitrary: l)
  case Nil
  then show ?case by simp
next
  case (Cons e es)
  obtain m where m: "entry_step k (Some l) e = Some m" "l0 \<le> m"
  proof (cases e)
    case (Touch now j)
    with Cons.prems show thesis by (intro that [of "if j = k then now else l"]) auto
  next
    case (Reap now)
    with Cons.prems(1) Cons.prems(2) [of now] udp_times show thesis by (intro that [of l]) auto
  qed
  then show ?case using Cons.IH [OF m(2)] Cons.prems(2,3) by simp
qed

lemma entry_reaped:
  assumes "l + UDP_IDLE \<le> now" and "Reap now \<in> set es" and "\<And>t. Touch t k \<notin> set es"
  shows "foldl (entry_step k) (Some l) es = None"
  using assms(2,3)
proof (induction es)
  case Nil
  then show ?case by simp
next
  case (Cons e es)
  show ?case
  proof (cases "entry_step k (Some l) e")
    case None
    then show ?thesis by simp
  next
    case (Some m)
    with Cons.prems(2) have "m = l" by (cases e) (auto split: if_splits)
    moreover have "e \<noteq> Reap now" using Some assms(1) by (auto split: if_splits)
    ultimately show ?thesis using Some Cons by auto
  qed
qed

text \<open>
  The contract. \<open>touch\<close> refreshes the entry it names if there is one; \<open>reap\<close> drops exactly the
  entries that have been silent for \<open>UDP_IDLE\<close>.
\<close>

locale idle_table =
  fixes last_seen :: "'t \<Rightarrow> 'k \<Rightarrow> nat option"
    and touch :: "nat \<Rightarrow> 'k \<Rightarrow> 't \<Rightarrow> 't"
    and reap :: "nat \<Rightarrow> 't \<Rightarrow> 't"
  assumes touch: "last_seen (touch now j t) k =
      (if j = k \<and> last_seen t k \<noteq> None then Some now else last_seen t k)"
    and reap: "last_seen (reap now t) k =
      (case last_seen t k of None \<Rightarrow> None | Some l \<Rightarrow> if now - l < UDP_IDLE then Some l else None)"
begin

fun idle_apply :: "'k idle_op \<Rightarrow> 't \<Rightarrow> 't" where
  "idle_apply (Touch now k) t = touch now k t"
| "idle_apply (Reap now) t = reap now t"

lemma idle_apply_entry: "last_seen (idle_apply e t) k = entry_step k (last_seen t k) e"
  by (cases e; cases "last_seen t k") (simp_all add: touch reap)

lemma idle_run: "last_seen (fold idle_apply es t) k = foldl (entry_step k) (last_seen t k) es"
  by (induction es arbitrary: t) (simp_all add: idle_apply_entry)

text \<open>An entry cannot go while it was used less than \<open>UDP_IDLE\<close> before every reaping.\<close>

lemma kept_while_used:
  assumes "last_seen t k = Some l"
    and "\<And>now. Reap now \<in> set es \<Longrightarrow> now < l + UDP_IDLE"
    and "\<And>now. Touch now k \<in> set es \<Longrightarrow> l \<le> now"
  shows "last_seen (fold idle_apply es t) k \<noteq> None"
  using entry_survives [where l = l and es = es and k = k, OF order_refl assms(2,3)]
  by (auto simp: idle_run assms(1))

text \<open>A silent entry is gone after the first tick at or after its deadline, and does not return.\<close>

lemma gone_when_silent:
  assumes "last_seen t k = Some l" and "\<And>now. Touch now k \<notin> set es"
    and "Reap now \<in> set es" and "l + UDP_IDLE \<le> now"
  shows "last_seen (fold idle_apply es t) k = None"
  using entry_reaped [OF assms(4,3,2)] by (simp add: idle_run assms(1))

text \<open>The reaper ticks every \<open>UDP_REAP_INTERVAL\<close> from \<open>t0\<close> on, so one tick falls in every interval.\<close>

lemma gone_in_time:
  assumes "last_seen t k = Some l" and "t0 \<le> l + UDP_IDLE"
  shows "\<exists>n. l + UDP_IDLE \<le> t0 + n * UDP_REAP_INTERVAL \<and>
             t0 + n * UDP_REAP_INTERVAL < l + UDP_IDLE + UDP_REAP_INTERVAL \<and>
             (\<forall>es. (\<forall>now. Touch now k \<notin> set es) \<longrightarrow> Reap (t0 + n * UDP_REAP_INTERVAL) \<in> set es \<longrightarrow>
                last_seen (fold idle_apply es t) k = None)"
proof -
  define d where "d = l + UDP_IDLE - t0"
  define n where "n = (d + UDP_REAP_INTERVAL - 1) div UDP_REAP_INTERVAL"
  have "d \<le> n * UDP_REAP_INTERVAL \<and> n * UDP_REAP_INTERVAL < d + UDP_REAP_INTERVAL"
    using udp_times(2) div_mult_mod_eq [of "d + UDP_REAP_INTERVAL - 1" UDP_REAP_INTERVAL]
      mod_less_divisor [OF udp_times(2), of "d + UDP_REAP_INTERVAL - 1"]
    unfolding n_def by linarith
  then have "l + UDP_IDLE \<le> t0 + n * UDP_REAP_INTERVAL"
    "t0 + n * UDP_REAP_INTERVAL < l + UDP_IDLE + UDP_REAP_INTERVAL"
    using assms(2) unfolding d_def by linarith+
  then show ?thesis using gone_when_silent [OF assms(1)] by blast
qed

end

end
