(* ===== verification/Wire.thy ===== *)
theory Wire
  imports Rust_Str
begin

text \<open>
  The wire framing of \<open>src/proto.rs\<close>: a TCP data stream opens with the target port, and every
  datagram carries the session id and the target port in front of its payload. The QUIC stream
  is not code of the repository: \<open>write_all\<close> and \<open>read_exact\<close> are arguments.
\<close>

section \<open>Big-endian integers\<close>

text \<open>The contract of \<open>to_be_bytes\<close> and \<open>from_be_bytes\<close> for one integer width.\<close>

locale be_codec =
  fixes to_be :: "'w \<Rightarrow> u8 list"
    and from_be :: "u8 list \<Rightarrow> 'w"
    and width :: nat
  assumes to_be_length: "length (to_be w) = width"
    and from_to_be: "from_be (to_be w) = w"
    and to_from_be: "length b = width \<Longrightarrow> to_be (from_be b) = b"
begin

lemma take_to_be [simp]: "take width (to_be w @ xs) = to_be w"
  by (simp add: to_be_length)

lemma drop_to_be [simp]: "drop width (to_be w @ xs) = xs"
  by (simp add: to_be_length)

lemma be_split: "width \<le> length bs \<Longrightarrow> to_be (from_be (take width bs)) @ drop width bs = bs"
  by (simp add: to_from_be)

lemma be_prefix_iff: "to_be v @ xs = to_be w @ ys \<longleftrightarrow> v = w \<and> xs = ys"
  by (metis append_eq_append_conv from_to_be to_be_length)

end

definition u16_to_be :: "u16 \<Rightarrow> u8 list" where
  "u16_to_be p = [ucast (drop_bit 8 p), ucast p]"

fun u16_from_be :: "u8 list \<Rightarrow> u16" where
  "u16_from_be [a, b] = push_bit 8 (ucast a) OR ucast b"
| "u16_from_be _ = 0"

definition u32_to_be :: "u32 \<Rightarrow> u8 list" where
  "u32_to_be s = [ucast (drop_bit 24 s), ucast (drop_bit 16 s), ucast (drop_bit 8 s), ucast s]"

fun u32_from_be :: "u8 list \<Rightarrow> u32" where
  "u32_from_be [a, b, c, d] =
     push_bit 24 (ucast a) OR push_bit 16 (ucast b) OR push_bit 8 (ucast c) OR ucast d"
| "u32_from_be _ = 0"

lemma bit8_out: "8 \<le> n \<Longrightarrow> \<not> bit (x :: u8) n"
  using bit_imp_le_length [of x n] by auto

lemma length_2_conv: "length xs = 2 \<longleftrightarrow> (\<exists>a b. xs = [a, b])"
  by (auto simp: numeral_2_eq_2 length_Suc_conv)

lemma length_4_conv: "length xs = 4 \<longleftrightarrow> (\<exists>a b c d. xs = [a, b, c, d])"
  by (auto simp: eval_nat_numeral length_Suc_conv)

interpretation be16: be_codec u16_to_be u16_from_be 2
proof unfold_locales
  show "length (u16_to_be w) = 2" for w by (simp add: u16_to_be_def)
  show "u16_from_be (u16_to_be w) = w" for w
    by (rule bit_word_eqI) (auto simp: u16_to_be_def bit_simps)
  show "u16_to_be (u16_from_be b) = b" if "length b = 2" for b
    using that
    by (auto simp: length_2_conv u16_to_be_def bit_simps bit8_out intro!: bit_word_eqI)
qed

interpretation be32: be_codec u32_to_be u32_from_be 4
proof unfold_locales
  show "length (u32_to_be w) = 4" for w by (simp add: u32_to_be_def)
  show "u32_from_be (u32_to_be w) = w" for w
  proof (rule bit_word_eqI)
    fix n :: nat
    assume n: "n < LENGTH(32)"
    consider "n < 8" | "8 \<le> n" "n < 16" | "16 \<le> n" "n < 24" | "24 \<le> n" by linarith
    then show "bit (u32_from_be (u32_to_be w)) n = bit w n"
      by cases (use n in \<open>auto simp: u32_to_be_def bit_simps\<close>)
  qed
  show "u32_to_be (u32_from_be b) = b" if "length b = 4" for b
    using that
    by (auto simp: length_4_conv u32_to_be_def bit_simps bit8_out intro!: bit_word_eqI)
qed

section \<open>Stream header\<close>

text \<open>
  \<open>'s\<close> is the QUIC send or receive stream; \<open>write_all\<close> and \<open>read_exact\<close> are its operations,
  which fail with the connection. The rest of the stream is the new stream value.
\<close>

definition write_target_port ::
  "('s \<Rightarrow> u8 list \<Rightarrow> 'e + 's) \<Rightarrow> 's \<Rightarrow> u16 \<Rightarrow> 'e + 's" where
  "write_target_port write_all s port = write_all s (u16_to_be port)"

definition read_target_port ::
  "('s \<Rightarrow> nat \<Rightarrow> 'e + u8 list \<times> 's) \<Rightarrow> 's \<Rightarrow> 'e + u16 \<times> 's" where
  "read_target_port read_exact s =
     and_then (read_exact s 2) (\<lambda>(b, s'). Inr (u16_from_be b, s'))"

section \<open>Datagrams\<close>

definition DATAGRAM_HEADER :: nat where
  "DATAGRAM_HEADER = 6"

definition encode_datagram :: "u32 \<Rightarrow> u16 \<Rightarrow> u8 list \<Rightarrow> u8 list" where
  "encode_datagram session port payload = u32_to_be session @ u16_to_be port @ payload"

definition decode_datagram :: "u8 list \<Rightarrow> (u32 \<times> u16 \<times> u8 list) option" where
  "decode_datagram dg =
     (if length dg < DATAGRAM_HEADER then None
      else Some (u32_from_be (take 4 dg), u16_from_be (take 2 (drop 4 dg)), drop DATAGRAM_HEADER dg))"

lemma encode_datagram_length: "length (encode_datagram s p x) = DATAGRAM_HEADER + length x"
  by (simp add: encode_datagram_def DATAGRAM_HEADER_def be16.to_be_length be32.to_be_length)

lemma decode_encode [simp]: "decode_datagram (encode_datagram s p x) = Some (s, p, x)"
  by (simp add: decode_datagram_def encode_datagram_length)
     (simp add: encode_datagram_def DATAGRAM_HEADER_def be16.to_be_length be32.to_be_length
        be16.from_to_be be32.from_to_be)

lemma decode_datagram_Some_iff:
  "decode_datagram dg = Some (s, p, x) \<longleftrightarrow> dg = encode_datagram s p x"
proof
  assume dec: "decode_datagram dg = Some (s, p, x)"
  then have len: "6 \<le> length dg" and s: "s = u32_from_be (take 4 dg)"
    and p: "p = u16_from_be (take 2 (drop 4 dg))" and x: "x = drop 2 (drop 4 dg)"
    by (auto simp: decode_datagram_def DATAGRAM_HEADER_def not_less split: if_splits)
  have "u16_to_be p @ x = drop 4 dg"
    unfolding p x by (rule be16.be_split) (use len in simp)
  moreover have "u32_to_be s @ drop 4 dg = dg"
    unfolding s by (rule be32.be_split) (use len in simp)
  ultimately show "dg = encode_datagram s p x"
    by (simp only: encode_datagram_def)
qed simp

text \<open>
  C39: decoding a datagram gives a session, a port and a payload exactly when the datagram is
  the encoding of these three, and a datagram is rejected exactly when it is shorter than the
  header: the framing loses nothing, is unambiguous, and a runt is the only thing it refuses.
\<close>
theorem datagram_codec:
  "(decode_datagram dg = Some (s, p, x) \<longleftrightarrow> dg = encode_datagram s p x) \<and>
   (decode_datagram dg = None \<longleftrightarrow> length dg < DATAGRAM_HEADER)"
proof
  show "decode_datagram dg = Some (s, p, x) \<longleftrightarrow> dg = encode_datagram s p x"
    by (rule decode_datagram_Some_iff)
  show "decode_datagram dg = None \<longleftrightarrow> length dg < DATAGRAM_HEADER"
    by (simp add: decode_datagram_def)
qed

text \<open>
  Over any stream on which \<open>write_all\<close> appends its bytes and \<open>read_exact\<close> takes exactly the
  number asked for from the front, the reader of a stream obtains the target port its writer
  named, and is left with exactly the bytes written after it.
\<close>
theorem target_port_roundtrip:
  fixes write_all :: "u8 list \<Rightarrow> u8 list \<Rightarrow> 'e + u8 list"
    and read_exact :: "u8 list \<Rightarrow> nat \<Rightarrow> 'e + u8 list \<times> u8 list"
  assumes "\<And>s b. write_all s b = Inr (s @ b)"
    and "\<And>s n. n \<le> length s \<Longrightarrow> read_exact s n = Inr (take n s, drop n s)"
  shows "and_then (write_target_port write_all [] port)
           (\<lambda>s. and_then (write_all s rest) (read_target_port read_exact)) = Inr (port, rest)"
  using assms
  by (simp add: write_target_port_def read_target_port_def be16.to_be_length be16.from_to_be)

theorem target_port_roundtrip_witness:
  "and_then (write_target_port (\<lambda>s b. Inr (s @ b) :: unit + u8 list) [] 51820)
     (\<lambda>s. and_then (Inr (s @ [1, 2, 3]))
        (read_target_port
          (\<lambda>s n. if n \<le> length s then Inr (take n s, drop n s) else Inl ()))) =
   Inr (51820, [1, 2, 3])"
  by (rule target_port_roundtrip) simp_all

end
