(* ===== verification/Connect_Side.thy ===== *)
theory Connect_Side
  imports Idle_Table Wire
begin

text \<open>
  The reaching machine, \<open>src/connect.rs\<close>: the local listeners and their reconciliation with the
  configuration, the UDP session table keyed by local source address, the turns of the two UDP
  pumps, and the outer loop that dials, serves edits and retries. Sockets and addresses are opaque
  values; what binding a port returns is an argument \<open>os\<close>.
\<close>

section \<open>Listeners\<close>

datatype 'l Sock = SockTcp 'l | SockUdp 'l

type_synonym 'l listeners = "(Proto \<times> u16, 'l Sock \<times> u16) fmap"

fun bind_one :: "(Proto \<Rightarrow> u16 \<Rightarrow> rstring + 'l) \<Rightarrow> Binding \<Rightarrow> rstring + 'l Sock" where
  "bind_one os b =
     (case b_proto b of
        Tcp \<Rightarrow> and_then (os Tcp (b_local b)) (\<lambda>l. Inr (SockTcp l))
      | Udp \<Rightarrow> and_then (os Udp (b_local b)) (\<lambda>l. Inr (SockUdp l)))"

text \<open>The two loops of \<open>reconcile\<close>. Their state is the flag, the table and the shared state.\<close>

definition drop_stale ::
  "Proto \<times> u16 \<Rightarrow> bool \<times> 'l listeners \<times> 'id Shared \<Rightarrow> bool \<times> 'l listeners \<times> 'id Shared" where
  "drop_stale k = (\<lambda>(changed, bound, s). (True, fmdrop k bound, clear_bind (fst k) (snd k) s))"

definition reconcile_one ::
  "(Proto \<Rightarrow> u16 \<Rightarrow> rstring + 'l) \<Rightarrow> Binding \<Rightarrow> bool \<times> 'l listeners \<times> 'id Shared \<Rightarrow>
     bool \<times> 'l listeners \<times> 'id Shared" where
  "reconcile_one os b = (\<lambda>(changed, bound, s).
     (case fmlookup bound (b_proto b, b_local b) of
        Some (sock, remote) \<Rightarrow>
          if remote \<noteq> b_remote b
          then (True, fmupd (b_proto b, b_local b) (sock, b_remote b) bound, s)
          else (changed, bound, s)
      | None \<Rightarrow>
          (case bind_one os b of
             Inr sock \<Rightarrow>
               (True, fmupd (b_proto b, b_local b) (sock, b_remote b) bound,
                set_bind (b_proto b) (b_local b) Listening s)
           | Inl e \<Rightarrow> (changed, bound, set_bind (b_proto b) (b_local b) (Failed e) s))))"

definition reconcile ::
  "(Proto \<Rightarrow> u16 \<Rightarrow> rstring + 'l) \<Rightarrow> Binding list \<Rightarrow> 'l listeners \<Rightarrow> 'id Shared \<Rightarrow>
     bool \<times> 'l listeners \<times> 'id Shared" where
  "reconcile os want bound s =
     (let keys = map (\<lambda>b. (b_proto b, b_local b)) want;
          stale = filter (\<lambda>k. k \<notin> set keys) (sorted_list_of_fset (fmdom bound))
      in fold (reconcile_one os) want (fold drop_stale stale (False, bound, s)))"

definition tcp_listeners :: "'l listeners \<Rightarrow> ('l \<times> PortMap) list" where
  "tcp_listeners bound =
     List.map_filter
       (\<lambda>((_, local), (s, remote)).
          case s of SockTcp l \<Rightarrow> Some (l, \<lparr>m_local = local, m_remote = remote\<rparr>) | SockUdp _ \<Rightarrow> None)
       (hm_iter bound)"

definition udp_listeners :: "'l listeners \<Rightarrow> ('l \<times> PortMap) list" where
  "udp_listeners bound =
     List.map_filter
       (\<lambda>((_, local), (s, remote)).
          case s of SockUdp l \<Rightarrow> Some (l, \<lparr>m_local = local, m_remote = remote\<rparr>) | SockTcp _ \<Rightarrow> None)
       (hm_iter bound)"

text \<open>One key seen alone.\<close>

definition want_step ::
  "(Proto \<Rightarrow> u16 \<Rightarrow> rstring + 'l) \<Rightarrow> Binding \<Rightarrow> ('l Sock \<times> u16) option \<Rightarrow> ('l Sock \<times> u16) option" where
  "want_step os b v =
     (case v of
        Some (sock, _) \<Rightarrow> Some (sock, b_remote b)
      | None \<Rightarrow> (case bind_one os b of Inr sock \<Rightarrow> Some (sock, b_remote b) | Inl _ \<Rightarrow> None))"

definition report_step ::
  "(Proto \<Rightarrow> u16 \<Rightarrow> rstring + 'l) \<Rightarrow> Binding \<Rightarrow> ('l Sock \<times> u16) option \<Rightarrow> BindState option \<Rightarrow>
     BindState option" where
  "report_step os b v r =
     (case v of
        Some _ \<Rightarrow> r
      | None \<Rightarrow> Some (case bind_one os b of Inr _ \<Rightarrow> Listening | Inl e \<Rightarrow> Failed e))"

lemma reconcile_one_key:
  assumes "reconcile_one os b (ch, bound, s) = (ch', bound', s')"
  shows "fmlookup bound' k =
           (if k = binding_key b then want_step os b (fmlookup bound k) else fmlookup bound k)"
    and "fmlookup (binds_of s') k =
           (if k = binding_key b then report_step os b (fmlookup bound k) (fmlookup (binds_of s) k)
            else fmlookup (binds_of s) k)"
    and "ch' \<longleftrightarrow> ch \<or> bound' \<noteq> bound"
    and "sh_cfg s' = sh_cfg s \<and> live_of s' = live_of s"
  using assms
  by (auto simp: reconcile_one_def want_step_def report_step_def binding_key_def set_bind_def fmupd_same
      simp del: bind_one.simps split: option.splits sum.splits if_splits)

lemma reconcile_want:
  assumes "fold (reconcile_one os) want (ch, bound, s) = (ch', bound', s')"
    and "distinct (map binding_key want)"
  shows "(\<forall>b \<in> set want.
            fmlookup bound' (binding_key b) = want_step os b (fmlookup bound (binding_key b)) \<and>
            fmlookup (binds_of s') (binding_key b) =
              report_step os b (fmlookup bound (binding_key b)) (fmlookup (binds_of s) (binding_key b))) \<and>
         (\<forall>k. k \<notin> binding_key ` set want \<longrightarrow>
            fmlookup bound' k = fmlookup bound k \<and> fmlookup (binds_of s') k = fmlookup (binds_of s) k) \<and>
         (ch' \<longleftrightarrow> ch \<or> bound' \<noteq> bound) \<and> sh_cfg s' = sh_cfg s \<and> live_of s' = live_of s"
  using assms
proof (induction want arbitrary: ch bound s)
  case Nil
  then show ?case by simp
next
  case (Cons b want)
  obtain ch1 bound1 s1 where one: "reconcile_one os b (ch, bound, s) = (ch1, bound1, s1)"
    by (cases "reconcile_one os b (ch, bound, s)") auto
  note step = reconcile_one_key [OF one]
  from Cons.prems one have rest: "fold (reconcile_one os) want (ch1, bound1, s1) = (ch', bound', s')"
    and dist: "distinct (map binding_key want)" and new: "binding_key b \<notin> binding_key ` set want"
    by simp_all
  note IH = Cons.IH [OF rest dist]
  have b': "fmlookup bound' (binding_key b) = fmlookup bound1 (binding_key b)"
    "fmlookup (binds_of s') (binding_key b) = fmlookup (binds_of s1) (binding_key b)"
    using IH new by blast+
  have flag: "ch' \<longleftrightarrow> ch \<or> bound' \<noteq> bound"
  proof (cases "bound1 = bound")
    case True
    then show ?thesis using IH step(3) by simp
  next
    case False
    have "fmlookup bound1 (binding_key b) \<noteq> fmlookup bound (binding_key b)"
    proof
      assume eq: "fmlookup bound1 (binding_key b) = fmlookup bound (binding_key b)"
      have "fmlookup bound1 k = fmlookup bound k" for k
        using eq step(1) [of k] by (cases "k = binding_key b") simp_all
      then have "bound1 = bound" by (rule fmap_ext)
      with False show False by contradiction
    qed
    then show ?thesis using IH step(3) b' False by auto
  qed
  have this_key: "fmlookup bound' (binding_key b) = want_step os b (fmlookup bound (binding_key b)) \<and>
      fmlookup (binds_of s') (binding_key b) =
        report_step os b (fmlookup bound (binding_key b)) (fmlookup (binds_of s) (binding_key b))"
    using step(1,2) [of "binding_key b"] by (simp add: b')
  have same: "fmlookup bound1 k = fmlookup bound k \<and> fmlookup (binds_of s1) k = fmlookup (binds_of s) k"
    if "k \<noteq> binding_key b" for k
    using that step(1,2) [of k] by simp
  have other: "fmlookup bound1 (binding_key d) = fmlookup bound (binding_key d) \<and>
      fmlookup (binds_of s1) (binding_key d) = fmlookup (binds_of s) (binding_key d)"
    if "d \<in> set want" for d
    using same [of "binding_key d"] that new by (metis image_eqI)
  show ?case
  proof (intro conjI)
    show "\<forall>d \<in> set (b # want).
        fmlookup bound' (binding_key d) = want_step os d (fmlookup bound (binding_key d)) \<and>
        fmlookup (binds_of s') (binding_key d) =
          report_step os d (fmlookup bound (binding_key d)) (fmlookup (binds_of s) (binding_key d))"
      using this_key IH other by simp
    show "\<forall>k. k \<notin> binding_key ` set (b # want) \<longrightarrow>
        fmlookup bound' k = fmlookup bound k \<and> fmlookup (binds_of s') k = fmlookup (binds_of s) k"
      using IH same by simp
  qed (use flag IH step(4) in simp_all)
qed

lemma drop_stale_all:
  assumes "fold drop_stale ks (ch, bound, s) = (ch', bound', s')"
  shows "(\<forall>k. fmlookup bound' k = (if k \<in> set ks then None else fmlookup bound k) \<and>
              fmlookup (binds_of s') k = (if k \<in> set ks then None else fmlookup (binds_of s) k)) \<and>
         (ch' \<longleftrightarrow> ch \<or> ks \<noteq> []) \<and> sh_cfg s' = sh_cfg s \<and> live_of s' = live_of s"
  using assms
  by (induction ks arbitrary: ch bound s) (auto simp: drop_stale_def)

lemma reconcile_table:
  assumes "reconcile os want bound s = (changed, bound', s')" and "distinct (map binding_key want)"
  shows "(\<forall>b \<in> set want. fmlookup bound' (binding_key b) = want_step os b (fmlookup bound (binding_key b)) \<and>
            fmlookup (binds_of s') (binding_key b) =
              report_step os b (fmlookup bound (binding_key b)) (fmlookup (binds_of s) (binding_key b))) \<and>
         (\<forall>k. k \<notin> binding_key ` set want \<longrightarrow>
            fmlookup bound' k = None \<and>
            fmlookup (binds_of s') k =
              (if fmlookup bound k = None then fmlookup (binds_of s) k else None)) \<and>
         (changed \<longleftrightarrow> bound' \<noteq> bound) \<and> sh_cfg s' = sh_cfg s \<and> live_of s' = live_of s"
proof -
  define stale where "stale = filter (\<lambda>k. k \<notin> set (map (\<lambda>b. (b_proto b, b_local b)) want))
      (sorted_list_of_fset (fmdom bound))"
  have stale: "k \<in> set stale \<longleftrightarrow> k \<notin> binding_key ` set want \<and> fmlookup bound k \<noteq> None" for k
    unfolding stale_def set_filter set_fmdom_list by (auto simp: binding_key_def)
  obtain ch1 bound1 s1 where drops: "fold drop_stale stale (False, bound, s) = (ch1, bound1, s1)"
    by (cases "fold drop_stale stale (False, bound, s)") auto
  with assms(1) have wants: "fold (reconcile_one os) want (ch1, bound1, s1) = (changed, bound', s')"
    by (simp add: reconcile_def stale_def)
  note W = reconcile_want [OF wants assms(2)] and D = drop_stale_all [OF drops]
  have ch1: "ch1 \<longleftrightarrow> (\<exists>k. k \<notin> binding_key ` set want \<and> fmlookup bound k \<noteq> None)"
  proof -
    have "ch1 \<longleftrightarrow> (\<exists>k. k \<in> set stale)" using D by (cases stale) auto
    then show ?thesis unfolding stale .
  qed
  have kept: "fmlookup bound1 k = fmlookup bound k \<and> fmlookup (binds_of s1) k = fmlookup (binds_of s) k"
    if "k \<in> binding_key ` set want" for k
    using D [THEN conjunct1, THEN spec, of k] stale [of k] that by simp
  have gone: "fmlookup bound' k = None" if "k \<notin> binding_key ` set want" for k
  proof -
    have "fmlookup bound' k = fmlookup bound1 k" using W that by blast
    then show ?thesis
      using D [THEN conjunct1, THEN spec, of k] stale [of k] that
      by (cases "fmlookup bound k") simp_all
  qed
  have "changed \<longleftrightarrow> bound' \<noteq> bound"
  proof (cases ch1)
    case True
    then have "bound' \<noteq> bound" using ch1 gone by metis
    then show ?thesis using W True by blast
  next
    case False
    then have "k \<notin> set stale" for k using ch1 stale [of k] by blast
    then have "fmlookup bound1 k = fmlookup bound k" for k
      using D [THEN conjunct1, THEN spec, of k] by simp
    then have "bound1 = bound" by (rule fmap_ext)
    then show ?thesis using W False by blast
  qed
  moreover have "fmlookup (binds_of s') k =
      (if fmlookup bound k = None then fmlookup (binds_of s) k else None)"
    if "k \<notin> binding_key ` set want" for k
  proof -
    have "fmlookup (binds_of s') k = fmlookup (binds_of s1) k" using W that by blast
    then show ?thesis using D [THEN conjunct1, THEN spec, of k] stale [of k] that by simp
  qed
  moreover have "fmlookup bound1 (binding_key b) = fmlookup bound (binding_key b) \<and>
      fmlookup (binds_of s1) (binding_key b) = fmlookup (binds_of s) (binding_key b)"
    if "b \<in> set want" for b
    by (rule kept) (use that in blast)
  ultimately show ?thesis using W D gone by simp
qed

text \<open>
  C8: one reconciliation, key by key. A configured binding that is bound keeps its socket and gets
  the configured remote port; one that is not is bound if the system allows it; nothing else stays
  bound. The result says whether the table of listeners changed. Every wanted key that was not bound
  gets a fresh report, every listener that is dropped loses its report, and no other report, the
  configuration or the peers are touched.
\<close>
theorem reconcile_exact:
  assumes "reconcile os want bound s = (changed, bound', s')" and "distinct (map binding_key want)"
  shows "(\<forall>b \<in> set want. fmlookup bound' (binding_key b) = want_step os b (fmlookup bound (binding_key b)) \<and>
            fmlookup (binds_of s') (binding_key b) =
              report_step os b (fmlookup bound (binding_key b)) (fmlookup (binds_of s) (binding_key b))) \<and>
         (\<forall>k. k \<notin> binding_key ` set want \<longrightarrow>
            fmlookup bound' k = None \<and>
            fmlookup (binds_of s') k =
              (if fmlookup bound k = None then fmlookup (binds_of s) k else None)) \<and>
         (changed \<longleftrightarrow> bound' \<noteq> bound) \<and> sh_cfg s' = sh_cfg s \<and> live_of s' = live_of s"
  by (rule reconcile_table [OF assms])

definition web_want :: "Binding list" where
  "web_want =
     [\<lparr>b_proto = Tcp, b_local = 8080, b_remote = 80, b_name = [], b_enabled = True\<rparr>,
      \<lparr>b_proto = Udp, b_local = 5353, b_remote = 53, b_name = [], b_enabled = True\<rparr>]"

text \<open>An operating system that refuses the UDP port and numbers its listeners by their ports.\<close>

definition picky_os :: "Proto \<Rightarrow> u16 \<Rightarrow> rstring + nat" where
  "picky_os proto port = (if proto = Udp then Inl (lit ''in use'') else Inr (unat port))"

definition old_bound :: "nat listeners" where
  "old_bound = fmupd (Tcp, 2222) (SockTcp 2222, 22) fmempty"

lemma web_reconcile:
  "reconcile picky_os web_want old_bound (set_bind Tcp 2222 Listening example_shared) =
     (True, fmupd (Tcp, 8080) (SockTcp 8080, 80) (fmdrop (Tcp, 2222) old_bound),
      set_bind Udp 5353 (Failed (lit ''in use'')) (set_bind Tcp 8080 Listening
        (clear_bind Tcp 2222 (set_bind Tcp 2222 Listening example_shared))))"
  by (simp add: reconcile_def web_want_def old_bound_def drop_stale_def reconcile_one_def picky_os_def
      sorted_list_of_fset.rep_eq)

theorem reconcile_exact_witness:
  "fmlookup (fmupd (Tcp, 8080) (SockTcp 8080, 80) (fmdrop (Tcp, 2222) old_bound)) (Udp, 5353) = None \<and>
   fmlookup (fmupd (Tcp, 8080) (SockTcp 8080, 80) (fmdrop (Tcp, 2222) old_bound)) (Tcp, 8080) =
     Some (SockTcp (8080 :: nat), 80)"
  using reconcile_exact [OF web_reconcile]
  by (simp add: web_want_def binding_key_def want_step_def picky_os_def old_bound_def)

text \<open>
  A reconciliation that has nothing to do does nothing: when the wanted bindings are the ones of
  the last time and the ports that could not be bound still cannot, the table stays as it is and
  the answer is that nothing changed, so that no forwarder is restarted.
\<close>
theorem reconcile_again_is_idle:
  assumes "reconcile os want bound s = (changed, bound', s')" and "distinct (map binding_key want)"
    and "reconcile os' want bound' s' = (changed', bound'', s'')"
    and "\<And>b. b \<in> set want \<Longrightarrow> fmlookup bound' (binding_key b) = None \<Longrightarrow> \<not> is_ok (bind_one os' b)"
  shows "\<not> changed' \<and> bound'' = bound'"
proof -
  note first = reconcile_table [OF assms(1,2)] and second = reconcile_table [OF assms(3,2)]
  have "fmlookup bound'' k = fmlookup bound' k" for k
  proof (cases "k \<in> binding_key ` set want")
    case True
    then obtain b where b: "b \<in> set want" "k = binding_key b" by blast
    then have "fmlookup bound' k = want_step os b (fmlookup bound k)"
      and "fmlookup bound'' k = want_step os' b (fmlookup bound' k)"
      using first second by blast+
    with b assms(4) [of b] show ?thesis
      by (auto simp: want_step_def not_is_ok_iff simp del: bind_one.simps split: option.splits sum.splits)
  next
    case False
    then have "fmlookup bound' k = None" "fmlookup bound'' k = None" using first second by blast+
    then show ?thesis by simp
  qed
  then have "bound'' = bound'" by (rule fmap_ext)
  then show ?thesis using second by simp
qed

theorem reconcile_again_is_idle_witness:
  "\<not> fst (reconcile picky_os web_want (fmupd (Tcp, 8080) (SockTcp 8080, 80) (fmdrop (Tcp, 2222) old_bound))
     (set_bind Udp 5353 (Failed (lit ''in use'')) (set_bind Tcp 8080 Listening
        (clear_bind Tcp 2222 (set_bind Tcp 2222 Listening example_shared)))))"
  by (rule conjunct1 [OF reconcile_again_is_idle [OF web_reconcile _ surjective_pairing
        [THEN trans, OF arg_cong2 [where f = Pair, OF refl surjective_pairing]]]])
     (auto simp: web_want_def binding_key_def picky_os_def is_ok_iff)

section \<open>The UDP session table\<close>

record ('a, 'l) CSession =
  cs_src :: 'a
  cs_sock :: 'l
  cs_last :: nat

record ('a, 'l) CSessions =
  by_key :: "('a \<times> u16, u32) fmap"
  by_id :: "(u32, ('a, 'l) CSession) fmap"
  next_id :: u32

definition no_sessions :: "('a, 'l) CSessions" where
  "no_sessions = \<lparr>by_key = fmempty, by_id = fmempty, next_id = 0\<rparr>"

text \<open>
  \<open>None\<close> is the panic of \<open>unwrap\<close>. \<open>next_id += 1\<close> wraps, as in a release build; a debug build would
  panic there.
\<close>

definition id_for ::
  "nat \<Rightarrow> 'a \<Rightarrow> u16 \<Rightarrow> 'l \<Rightarrow> ('a, 'l) CSessions \<Rightarrow> u32 option \<times> ('a, 'l) CSessions" where
  "id_for now src port sock t =
     (case fmlookup (by_key t) (src, port) of
        Some i \<Rightarrow>
          (case fmlookup (by_id t) i of
             None \<Rightarrow> (None, t)
           | Some s \<Rightarrow> (Some i, t\<lparr>by_id := fmupd i (s\<lparr>cs_last := now\<rparr>) (by_id t)\<rparr>))
      | None \<Rightarrow>
          (let i = next_id t + 1
           in (Some i,
               \<lparr>by_key = fmupd (src, port) i (by_key t),
                by_id = fmupd i \<lparr>cs_src = src, cs_sock = sock, cs_last = now\<rparr> (by_id t),
                next_id = i\<rparr>)))"

definition reply_route ::
  "nat \<Rightarrow> u32 \<Rightarrow> ('a, 'l) CSessions \<Rightarrow> ('l \<times> 'a) option \<times> ('a, 'l) CSessions" where
  "reply_route now i t =
     (case fmlookup (by_id t) i of
        None \<Rightarrow> (None, t)
      | Some s \<Rightarrow>
          (Some (cs_sock s, cs_src s), t\<lparr>by_id := fmupd i (s\<lparr>cs_last := now\<rparr>) (by_id t)\<rparr>))"

definition conn_reap :: "nat \<Rightarrow> ('a, 'l) CSessions \<Rightarrow> ('a, 'l) CSessions" where
  "conn_reap now t =
     (let before = hm_len (by_id t);
          by_id' = hm_retain (\<lambda>_ s. now - cs_last s < UDP_IDLE) (by_id t)
      in if hm_len by_id' \<noteq> before
         then t\<lparr>by_key := hm_retain (\<lambda>_ i. fmlookup by_id' i \<noteq> None) (by_key t), by_id := by_id'\<rparr>
         else t\<lparr>by_id := by_id'\<rparr>)"

text \<open>One turn of \<open>pump_udp_out\<close> and of \<open>pump_udp_in\<close>.\<close>

definition udp_out ::
  "nat \<Rightarrow> 'a \<Rightarrow> 'l \<Rightarrow> PortMap \<Rightarrow> u8 list \<Rightarrow> ('a, 'l) CSessions \<Rightarrow> u8 list option \<times> ('a, 'l) CSessions" where
  "udp_out now src sock m payload t =
     (case id_for now src (m_remote m) sock t of
        (None, t') \<Rightarrow> (None, t')
      | (Some i, t') \<Rightarrow> (Some (encode_datagram i (m_remote m) payload), t'))"

definition udp_in ::
  "nat \<Rightarrow> u8 list \<Rightarrow> ('a, 'l) CSessions \<Rightarrow> ('l \<times> 'a \<times> u8 list) option \<times> ('a, 'l) CSessions" where
  "udp_in now dg t =
     (case decode_datagram dg of
        None \<Rightarrow> (None, t)
      | Some (i, _, payload) \<Rightarrow>
          (case reply_route now i t of
             (None, t') \<Rightarrow> (None, t')
           | (Some (sock, src), t') \<Rightarrow> (Some (sock, src, payload), t')))"

subsection \<open>What the table guarantees\<close>

datatype ('a, 'l) sess_op = IdFor nat 'a u16 'l | RouteFor nat u32 | ReapAll nat

fun sess_apply :: "('a, 'l) sess_op \<Rightarrow> ('a, 'l) CSessions \<Rightarrow> ('a, 'l) CSessions" where
  "sess_apply (IdFor now src port sock) t = snd (id_for now src port sock t)"
| "sess_apply (RouteFor now i) t = snd (reply_route now i t)"
| "sess_apply (ReapAll now) t = conn_reap now t"

definition sess_run :: "('a, 'l) sess_op list \<Rightarrow> ('a, 'l) CSessions" where
  "sess_run ops = fold sess_apply ops no_sessions"

definition keys_live :: "('a, 'l) CSessions \<Rightarrow> bool" where
  "keys_live t \<longleftrightarrow> (\<forall>k i. fmlookup (by_key t) k = Some i \<longrightarrow> fmlookup (by_id t) i \<noteq> None)"

text \<open>
  The reaper filters \<open>by_key\<close> only when \<open>by_id\<close> shrank. As every key names a live session, that is
  the same as filtering it always.
\<close>

lemma conn_reap_by_id:
  "by_id (conn_reap now t) = hm_retain (\<lambda>_ s. now - cs_last s < UDP_IDLE) (by_id t)"
  "next_id (conn_reap now t) = next_id t"
  by (simp_all add: conn_reap_def Let_def)

lemma conn_reap_by_key:
  assumes "keys_live t"
  shows "by_key (conn_reap now t) =
           hm_retain (\<lambda>_ i. fmlookup (by_id (conn_reap now t)) i \<noteq> None) (by_key t)"
proof (cases "hm_len (by_id (conn_reap now t)) = hm_len (by_id t)")
  case True
  then have same: "by_id (conn_reap now t) = by_id t"
    unfolding conn_reap_by_id by (simp add: hm_retain_len)
  have "hm_retain (\<lambda>_ i. fmlookup (by_id t) i \<noteq> None) (by_key t) = by_key t"
    using assms by (intro hm_retain_all) (simp add: keys_live_def)
  moreover have "by_key (conn_reap now t) = by_key t"
    using True unfolding conn_reap_by_id by (simp add: conn_reap_def Let_def)
  ultimately show ?thesis by (simp add: same)
next
  case False
  then show ?thesis unfolding conn_reap_by_id by (simp add: conn_reap_def Let_def)
qed

lemma keys_live_step: "keys_live t \<Longrightarrow> keys_live (sess_apply e t)"
proof (cases e)
  case (ReapAll now)
  assume "keys_live t"
  then show ?thesis by (simp add: ReapAll keys_live_def [of "conn_reap now t"] conn_reap_by_key hm_retain_Some)
qed (auto simp: keys_live_def id_for_def reply_route_def Let_def split: option.splits)

lemma keys_live_run: "keys_live t \<Longrightarrow> keys_live (fold sess_apply ops t)"
  by (induction ops arbitrary: t) (simp_all add: keys_live_step)

lemma keys_live_none: "keys_live no_sessions"
  by (simp add: keys_live_def no_sessions_def)

text \<open>
  The \<open>unwrap\<close> in \<open>id_for\<close> never panics: after any sequence of mintings, replies and reapings, of
  any length and with any wrap of the counter, a key in the table names a session that is there.
\<close>
theorem id_for_never_panics: "fst (id_for now src port sock (sess_run ops)) \<noteq> None"
proof -
  have "keys_live (sess_run ops)"
    unfolding sess_run_def by (rule keys_live_run [OF keys_live_none])
  then have "fmlookup (by_id (sess_run ops)) i \<noteq> None" if "fmlookup (by_key (sess_run ops)) (src, port) = Some i" for i
    using that unfolding keys_live_def by blast
  then show ?thesis by (auto simp: id_for_def Let_def split: option.splits)
qed

interpretation conn_idle: idle_table
    "\<lambda>t i. map_option cs_last (fmlookup (by_id (t :: ('a, 'l) CSessions)) i)"
    "\<lambda>now i t. snd (reply_route now i t)" conn_reap
proof unfold_locales
  show "map_option cs_last (fmlookup (by_id (snd (reply_route now j t))) i) =
      (if j = i \<and> map_option cs_last (fmlookup (by_id t) i) \<noteq> None then Some now
       else map_option cs_last (fmlookup (by_id t) i))"
    for now j i and t :: "('a, 'l) CSessions"
    by (auto simp: reply_route_def split: option.splits)
  show "map_option cs_last (fmlookup (by_id (conn_reap now t)) i) =
      (case map_option cs_last (fmlookup (by_id t) i) of None \<Rightarrow> None
       | Some l \<Rightarrow> if now - l < UDP_IDLE then Some l else None)"
    for now i and t :: "('a, 'l) CSessions"
    by (simp add: conn_reap_by_id hm_retain_lookup split: option.splits)
qed

text \<open>Without a wrap of the counter every session has one key, and the key names it.\<close>

definition sess_ok :: "('a, 'l) CSessions \<Rightarrow> bool" where
  "sess_ok t \<longleftrightarrow>
     (\<forall>k i. fmlookup (by_key t) k = Some i \<longrightarrow>
        (\<exists>s. fmlookup (by_id t) i = Some s \<and> cs_src s = fst k)) \<and>
     (\<forall>k k' i. fmlookup (by_key t) k = Some i \<longrightarrow> fmlookup (by_key t) k' = Some i \<longrightarrow> k = k') \<and>
     (\<forall>i s. fmlookup (by_id t) i = Some s \<longrightarrow> i \<le> next_id t \<and> (\<exists>k. fmlookup (by_key t) k = Some i))"

lemma sess_ok_keys_live: "sess_ok t \<Longrightarrow> keys_live t"
  by (fastforce simp: sess_ok_def keys_live_def)

lemma sess_ok_key:
  "sess_ok t \<Longrightarrow> fmlookup (by_key t) k = Some i \<Longrightarrow> \<exists>s. fmlookup (by_id t) i = Some s \<and> cs_src s = fst k"
  by (simp add: sess_ok_def)

lemma sess_ok_inj:
  "sess_ok t \<Longrightarrow> fmlookup (by_key t) k = Some i \<Longrightarrow> fmlookup (by_key t) k' = Some i \<Longrightarrow> k = k'"
  by (simp add: sess_ok_def)

lemma sess_ok_id:
  "sess_ok t \<Longrightarrow> fmlookup (by_id t) i = Some s \<Longrightarrow> i \<le> next_id t \<and> (\<exists>k. fmlookup (by_key t) k = Some i)"
  by (simp add: sess_ok_def)

lemma next_id_fresh:
  assumes "sess_ok t" and "next_id t \<noteq> -1"
  shows "fmlookup (by_id t) (next_id t + 1) = None" and "fmlookup (by_key t) k \<noteq> Some (next_id t + 1)"
proof -
  have less: "next_id t < next_id t + 1"
    using unat_add_one [OF assms(2)] by (simp add: word_less_nat_alt)
  show none: "fmlookup (by_id t) (next_id t + 1) = None"
  proof (rule ccontr)
    assume "fmlookup (by_id t) (next_id t + 1) \<noteq> None"
    then obtain s where "fmlookup (by_id t) (next_id t + 1) = Some s" by blast
    from sess_ok_id [OF assms(1) this] less show False by (meson leD)
  qed
  show "fmlookup (by_key t) k \<noteq> Some (next_id t + 1)"
    using sess_ok_key [OF assms(1), of k "next_id t + 1"] none by auto
qed

lemma sess_ok_intro:
  assumes "\<And>k i. fmlookup (by_key t) k = Some i \<Longrightarrow> \<exists>s. fmlookup (by_id t) i = Some s \<and> cs_src s = fst k"
    and "\<And>k k' i. fmlookup (by_key t) k = Some i \<Longrightarrow> fmlookup (by_key t) k' = Some i \<Longrightarrow> k = k'"
    and "\<And>i s. fmlookup (by_id t) i = Some s \<Longrightarrow> i \<le> next_id t"
    and "\<And>i s. fmlookup (by_id t) i = Some s \<Longrightarrow> \<exists>k. fmlookup (by_key t) k = Some i"
  shows "sess_ok t"
  using assms unfolding sess_ok_def by blast

lemma sess_ok_mint:
  assumes "sess_ok t" and "next_id t \<noteq> -1" and "fmlookup (by_key t) (src, port) = None"
  shows "sess_ok \<lparr>by_key = fmupd (src, port) (next_id t + 1) (by_key t),
                  by_id = fmupd (next_id t + 1) \<lparr>cs_src = src, cs_sock = sock, cs_last = now\<rparr> (by_id t),
                  next_id = next_id t + 1\<rparr>"
proof (rule sess_ok_intro, goal_cases)
  case (1 k i)
  then show ?case
    using sess_ok_key [OF assms(1), of k i] next_id_fresh(2) [OF assms(1,2), of k] by (auto split: if_splits)
next
  case (2 k k' i)
  then show ?case
    using sess_ok_inj [OF assms(1), of k i k'] next_id_fresh(2) [OF assms(1,2)] by (auto split: if_splits)
next
  case (3 i s)
  have "next_id t \<le> next_id t + 1" using unat_add_one [OF assms(2)] by (simp add: word_le_nat_alt)
  with 3 sess_ok_id [OF assms(1), of i s] show ?case by (auto split: if_splits)
next
  case (4 i s)
  show ?case
  proof (cases "i = next_id t + 1")
    case True
    then show ?thesis by (intro exI [of _ "(src, port)"]) simp
  next
    case False
    with 4 obtain k where "fmlookup (by_key t) k = Some i"
      using sess_ok_id [OF assms(1), of i s] by auto
    moreover from this assms(3) have "k \<noteq> (src, port)" by auto
    ultimately show ?thesis by (intro exI [of _ k]) simp
  qed
qed

lemma sess_ok_refresh:
  assumes "sess_ok t" and "fmlookup (by_id t) i = Some s"
  shows "sess_ok (t\<lparr>by_id := fmupd i (s\<lparr>cs_last := now\<rparr>) (by_id t)\<rparr>)"
proof (rule sess_ok_intro, goal_cases)
  case (1 k j)
  then show ?case using sess_ok_key [OF assms(1), of k j] assms(2) by auto
next
  case (2 k k' j)
  then show ?case using sess_ok_inj [OF assms(1), of k j k'] by simp
next
  case (3 j r)
  then show ?case
    using sess_ok_id [OF assms(1), of j] assms(2) by (auto split: if_splits)
next
  case (4 j r)
  then show ?case
    using sess_ok_id [OF assms(1), of j] assms(2) by (auto split: if_splits)
qed

lemma sess_ok_reap:
  assumes "sess_ok t"
  shows "sess_ok (conn_reap now t)"
proof (rule sess_ok_intro, goal_cases)
  case (1 k i)
  then show ?case
    using sess_ok_key [OF assms, of k i]
    by (auto simp: conn_reap_by_key [OF sess_ok_keys_live [OF assms]] conn_reap_by_id hm_retain_Some)
next
  case (2 k k' i)
  then show ?case
    using sess_ok_inj [OF assms, of k i k']
    by (simp add: conn_reap_by_key [OF sess_ok_keys_live [OF assms]] hm_retain_Some)
next
  case (3 i s)
  then show ?case using sess_ok_id [OF assms, of i s] by (simp add: conn_reap_by_id hm_retain_Some)
next
  case (4 i s)
  then show ?case
    using sess_ok_id [OF assms, of i s]
    by (simp add: conn_reap_by_key [OF sess_ok_keys_live [OF assms]] conn_reap_by_id hm_retain_Some)
qed

lemma sess_ok_step:
  assumes "sess_ok t" and "next_id t \<noteq> -1"
  shows "sess_ok (sess_apply e t)"
proof (cases e)
  case (IdFor now src port sock)
  with assms show ?thesis
    by (auto simp: id_for_def Let_def intro: sess_ok_mint sess_ok_refresh split: option.splits)
next
  case (RouteFor now i)
  with assms show ?thesis
    by (auto simp: reply_route_def intro: sess_ok_refresh split: option.splits)
next
  case (ReapAll now)
  with assms show ?thesis by (simp add: sess_ok_reap)
qed

lemma sess_apply_next: "unat (next_id (sess_apply e t)) \<le> Suc (unat (next_id t))"
proof (cases e)
  case (IdFor now src port sock)
  have "unat (next_id t + 1) \<le> Suc (unat (next_id t))"
    by (cases "next_id t = -1") (simp_all add: unat_add_one)
  then show ?thesis by (auto simp: IdFor id_for_def Let_def split: option.splits)
qed (auto simp: reply_route_def conn_reap_by_id split: option.splits)

lemma sess_run_ok:
  assumes "sess_ok t" and "unat (next_id t) + length ops < 2 ^ 32"
  shows "sess_ok (fold sess_apply ops t) \<and> unat (next_id (fold sess_apply ops t)) \<le> unat (next_id t) + length ops"
  using assms
proof (induction ops arbitrary: t)
  case Nil
  then show ?case by simp
next
  case (Cons e ops)
  from Cons.prems(2) have "next_id t \<noteq> -1"
    by (auto simp: unsigned_minus_1_eq_mask mask_eq_exp_minus_1)
  with Cons.prems(1) have "sess_ok (sess_apply e t)" by (rule sess_ok_step)
  moreover have "unat (next_id (sess_apply e t)) + length ops < 2 ^ 32"
    using Cons.prems(2) sess_apply_next [of e t] by simp
  ultimately have "sess_ok (fold sess_apply ops (sess_apply e t)) \<and>
      unat (next_id (fold sess_apply ops (sess_apply e t))) \<le> unat (next_id (sess_apply e t)) + length ops"
    by (rule Cons.IH)
  then show ?case using sess_apply_next [of e t] by simp
qed

lemma sess_ok_none: "sess_ok no_sessions"
  by (simp add: sess_ok_def no_sessions_def)

lemma sess_run_table:
  assumes "length ops < 2 ^ 32"
  shows "sess_ok (sess_run ops) \<and> unat (next_id (sess_run ops)) \<le> length ops"
  using sess_run_ok [OF sess_ok_none, of ops] assms by (simp add: sess_run_def no_sessions_def)

text \<open>An id, once minted, is never given to another client as long as the counter does not wrap.\<close>

definition belongs :: "u32 \<Rightarrow> 'a \<Rightarrow> ('a, 'l) CSessions \<Rightarrow> bool" where
  "belongs i src t \<longleftrightarrow> i \<le> next_id t \<and> (\<forall>s. fmlookup (by_id t) i = Some s \<longrightarrow> cs_src s = src)"

lemma belongs_step:
  assumes "belongs i src t" and "next_id t \<noteq> -1"
  shows "belongs i src (sess_apply e t)"
proof (cases e)
  case (IdFor now a port sock)
  have less: "next_id t < next_id t + 1"
    using unat_add_one [OF assms(2)] by (simp add: word_less_nat_alt)
  then have "i \<noteq> next_id t + 1" "i \<le> next_id t + 1"
    using assms(1) unfolding belongs_def by (auto dest: leD order_less_imp_le intro: order_trans)
  with assms(1) show ?thesis
    by (auto simp: IdFor belongs_def id_for_def Let_def split: option.splits if_splits)
qed (use assms in \<open>auto simp: belongs_def reply_route_def conn_reap_by_id hm_retain_Some
      split: option.splits if_splits\<close>)

lemma belongs_run:
  assumes "belongs i src t" and "unat (next_id t) + length ops < 2 ^ 32"
  shows "belongs i src (fold sess_apply ops t)"
  using assms
proof (induction ops arbitrary: t)
  case Nil
  then show ?case by simp
next
  case (Cons e ops)
  from Cons.prems(2) have "next_id t \<noteq> -1"
    by (auto simp: unsigned_minus_1_eq_mask mask_eq_exp_minus_1)
  with Cons.prems(1) have "belongs i src (sess_apply e t)" by (rule belongs_step)
  moreover have "unat (next_id (sess_apply e t)) + length ops < 2 ^ 32"
    using Cons.prems(2) sess_apply_next [of e t] by simp
  ultimately show ?case using Cons.IH by simp
qed

lemma id_for_belongs:
  assumes "sess_ok t" and "next_id t \<noteq> -1" and "id_for now src port sock t = (Some i, t')"
  shows "belongs i src t' \<and> fmlookup (by_key t') (src, port) = Some i"
proof (cases "fmlookup (by_key t) (src, port)")
  case None
  with assms(3) show ?thesis by (auto simp: id_for_def Let_def belongs_def)
next
  case (Some j)
  with assms(3) sess_ok_key [OF assms(1) Some] sess_ok_id [OF assms(1), of j] show ?thesis
    by (auto simp: id_for_def belongs_def split: option.splits)
qed

text \<open>
  Replies find their way back. Fewer than 2^32 operations on a table, one of them giving the id
  \<open>i\<close> to traffic from \<open>src\<close>: whatever happens after that, mintings, reapings and other replies, a
  datagram that comes in for \<open>i\<close> is handed to \<open>src\<close> with its payload intact, or dropped, and never to
  another client.
\<close>
theorem reply_reaches_its_client:
  assumes "length ops + length later < 2 ^ 32 - 1"
    and "id_for now src port sock (sess_run ops) = (Some i, t)"
    and "udp_in now' (encode_datagram i q x) (fold sess_apply later t) = (Some (l, a, y), t')"
  shows "a = src \<and> y = x"
proof -
  have run: "sess_ok (sess_run ops)" "unat (next_id (sess_run ops)) \<le> length ops"
    using sess_run_table [of ops] assms(1) by auto
  have "next_id (sess_run ops) \<noteq> -1"
    using run(2) assms(1) by (auto simp: unsigned_minus_1_eq_mask mask_eq_exp_minus_1)
  then have "belongs i src t" using id_for_belongs [OF run(1) _ assms(2)] by blast
  moreover have "unat (next_id t) + length later < 2 ^ 32"
    using sess_apply_next [of "IdFor now src port sock" "sess_run ops"] assms(1,2) run(2) by simp
  ultimately have "belongs i src (fold sess_apply later t)" by (rule belongs_run)
  with assms(3) show ?thesis
    by (auto simp: udp_in_def reply_route_def belongs_def split: option.splits)
qed

theorem reply_reaches_its_client_witness:
  "(200 :: nat) = 200 \<and> [1, 2] = [1, 2 :: u8]"
proof -
  have mint: "id_for 5 200 53 (7 :: nat) (sess_run [IdFor 1 (100 :: nat) 53 7]) =
      (Some 2, sess_apply (IdFor 5 200 53 7) (sess_run [IdFor 1 100 53 7]))"
    by (simp add: sess_run_def id_for_def no_sessions_def)
  show ?thesis
    by (rule reply_reaches_its_client [OF _ mint, of "[RouteFor 6 1, IdFor 7 300 53 7]" 8 0 "[1, 2]" 7 200 "[1, 2]"])
       (auto simp: sess_run_def id_for_def no_sessions_def udp_in_def reply_route_def)
qed

text \<open>
  C35: two clients, or one client and two target ports, never share an id, however the table was
  reached in fewer than 2^32 operations; and every live session is the one of its key.
\<close>
theorem session_ids_unique:
  assumes "length ops < 2 ^ 32"
    and "fmlookup (by_key (sess_run ops)) (src, port) = Some i"
    and "fmlookup (by_key (sess_run ops)) (src', port') = Some i"
  shows "src = src' \<and> port = port' \<and> map_option cs_src (fmlookup (by_id (sess_run ops)) i) = Some src"
proof -
  have ok: "sess_ok (sess_run ops)" using sess_run_table [OF assms(1)] by simp
  show ?thesis using sess_ok_inj [OF ok assms(2,3)] sess_ok_key [OF ok assms(2)] by auto
qed

theorem session_ids_unique_witness:
  "(200 :: nat) = 200 \<and> (53 :: u16) = 53 \<and>
   map_option cs_src (fmlookup (by_id (sess_run [IdFor 1 100 53 7, IdFor 2 200 53 (7 :: nat)])) 2) = Some (200 :: nat)"
  by (rule session_ids_unique) (simp_all add: sess_run_def id_for_def no_sessions_def)

text \<open>
  The life of a session of the reaching side: it stays while every reaping comes less than
  \<open>UDP_IDLE\<close> after its last use, and once silent it is gone within \<open>UDP_IDLE\<close> and one interval.
\<close>
theorem conn_session_life:
  assumes "fmlookup (by_id (t :: ('a, 'l) CSessions)) i = Some s" and "t0 \<le> cs_last s + UDP_IDLE"
  shows "(\<forall>es. (\<forall>now. Reap now \<in> set es \<longrightarrow> now < cs_last s + UDP_IDLE) \<longrightarrow>
            (\<forall>now. Touch now i \<in> set es \<longrightarrow> cs_last s \<le> now) \<longrightarrow>
            fmlookup (by_id (fold conn_idle.idle_apply es t)) i \<noteq> None) \<and>
         (\<exists>n. cs_last s + UDP_IDLE \<le> t0 + n * UDP_REAP_INTERVAL \<and>
              t0 + n * UDP_REAP_INTERVAL < cs_last s + UDP_IDLE + UDP_REAP_INTERVAL \<and>
              (\<forall>es. (\<forall>now. Touch now i \<notin> set es) \<longrightarrow> Reap (t0 + n * UDP_REAP_INTERVAL) \<in> set es \<longrightarrow>
                 fmlookup (by_id (fold conn_idle.idle_apply es t)) i = None))"
proof (intro conjI allI impI)
  have last: "map_option cs_last (fmlookup (by_id t) i) = Some (cs_last s)" using assms(1) by simp
  show "fmlookup (by_id (fold conn_idle.idle_apply es t)) i \<noteq> None"
    if "\<forall>now. Reap now \<in> set es \<longrightarrow> now < cs_last s + UDP_IDLE"
      "\<forall>now. Touch now i \<in> set es \<longrightarrow> cs_last s \<le> now" for es
    using conn_idle.kept_while_used [OF last, of es] that by simp
  show "\<exists>n. cs_last s + UDP_IDLE \<le> t0 + n * UDP_REAP_INTERVAL \<and>
              t0 + n * UDP_REAP_INTERVAL < cs_last s + UDP_IDLE + UDP_REAP_INTERVAL \<and>
              (\<forall>es. (\<forall>now. Touch now i \<notin> set es) \<longrightarrow> Reap (t0 + n * UDP_REAP_INTERVAL) \<in> set es \<longrightarrow>
                 fmlookup (by_id (fold conn_idle.idle_apply es t)) i = None)"
    using conn_idle.gone_in_time [OF last assms(2)] by simp
qed

theorem conn_session_life_witness:
  "fmlookup (by_id (fold conn_idle.idle_apply [Reap SEC, Touch (2 * SEC) 1]
     (sess_run [IdFor 5 (100 :: nat) 53 (7 :: nat)]))) 1 \<noteq> None"
proof -
  have one: "fmlookup (by_id (sess_run [IdFor 5 (100 :: nat) 53 (7 :: nat)])) 1 =
      Some \<lparr>cs_src = 100, cs_sock = 7, cs_last = 5\<rparr>"
    by (simp add: sess_run_def id_for_def no_sessions_def)
  show ?thesis
    using conjunct1 [OF conn_session_life [OF one le0], THEN spec, of "[Reap SEC, Touch (2 * SEC) 1]"]
    by (simp add: SEC_def UDP_IDLE_def)
qed

end
