(* ===== verification/Paths.thy ===== *)
theory Paths
  imports State
begin

text \<open>
  Which path a held connection uses, as \<open>src/main.rs\<close> reports it to the shared state (\<open>path_kind\<close>,
  \<open>log_selected\<close>, \<open>report_path\<close>). The list of paths and the path events come from the \<open>iroh\<close> crate;
  a path is what the code reads of it. Round-trip times are nanoseconds.
\<close>

record NetPath =
  np_selected :: bool
  np_relay :: bool
  np_addr :: rstring
  np_rtt :: nat

definition path_kind :: "bool \<Rightarrow> rstring" where
  "path_kind relay = (if relay then lit ''relayed'' else lit ''direct'')"

text \<open>\<open>as_millis() as u64\<close> keeps the low 64 bits.\<close>

definition rtt_millis :: "nat \<Rightarrow> nat" where
  "rtt_millis ns = (ns div 1000000) mod 2 ^ 64"

definition log_selected :: "'id \<Rightarrow> NetPath list \<Rightarrow> 'id Shared \<Rightarrow> 'id Shared" where
  "log_selected i paths s =
     (case List.find np_selected paths of
        None \<Rightarrow> s
      | Some p \<Rightarrow> peer_path i (path_kind (np_relay p)) (Some (np_addr p)) (Some (rtt_millis (np_rtt p))) s)"

text \<open>
  The task \<open>report_path\<close> spawns: one turn of its \<open>select!\<close>. \<open>None\<close> ends it, when the connection is
  closed.
\<close>

datatype path_event = PathSelected bool rstring | OtherEvent | PathsClosed | Heartbeat "NetPath list"

fun report_turn :: "'id \<Rightarrow> path_event \<Rightarrow> 'id Shared \<Rightarrow> 'id Shared option" where
  "report_turn i (PathSelected relay addr) s = Some (peer_path i (path_kind relay) (Some addr) None s)"
| "report_turn i OtherEvent s = Some s"
| "report_turn i PathsClosed s = None"
| "report_turn i (Heartbeat paths) s = Some (log_selected i paths s)"

fun report_loop :: "'id \<Rightarrow> path_event list \<Rightarrow> 'id Shared \<Rightarrow> 'id Shared" where
  "report_loop i [] s = s"
| "report_loop i (e # es) s =
     (case report_turn i e s of None \<Rightarrow> s | Some s' \<Rightarrow> report_loop i es s')"

definition report_path :: "'id \<Rightarrow> NetPath list \<Rightarrow> path_event list \<Rightarrow> 'id Shared \<Rightarrow> 'id Shared" where
  "report_path i paths events s = report_loop i events (log_selected i paths s)"

lemma log_selected_frame [simp]:
  "sh_cfg (log_selected i paths s) = sh_cfg s" "binds_of (log_selected i paths s) = binds_of s"
  by (simp_all add: log_selected_def split: option.splits)

lemma peer_path_dom: "fmdom (live_of (peer_path i p a r s)) = fmdom (live_of s)"
  by (auto simp: peer_path_def fmlookup_dom_iff split: option.splits)

lemma log_selected_dom: "fmdom (live_of (log_selected i paths s)) = fmdom (live_of s)"
  by (simp add: log_selected_def peer_path_dom split: option.splits)

lemma report_turn_frame:
  "report_turn i e s = Some s' \<Longrightarrow>
     sh_cfg s' = sh_cfg s \<and> binds_of s' = binds_of s \<and> fmdom (live_of s') = fmdom (live_of s)"
  by (cases e) (auto simp: peer_path_dom log_selected_dom)

text \<open>
  Reporting the path of a connection never lists or unlists a peer and touches nothing else: the
  configuration, the listeners, the set of connected peers and the records of the other peers are
  the same after any sequence of path events.
\<close>
theorem report_path_frame:
  "sh_cfg (report_path i paths es s) = sh_cfg s \<and> binds_of (report_path i paths es s) = binds_of s \<and>
   fmdom (live_of (report_path i paths es s)) = fmdom (live_of s) \<and>
   fmdrop i (live_of (report_path i paths es s)) = fmdrop i (live_of s)"
proof -
  have path: "fmdrop i (live_of (peer_path i p a r s)) = fmdrop i (live_of s)" for p a r and s :: "'a Shared"
    by (auto simp: peer_path_def intro: fmap_ext split: option.splits)
  have log: "fmdrop i (live_of (log_selected i paths s)) = fmdrop i (live_of s)" for paths and s :: "'a Shared"
    by (simp add: log_selected_def path split: option.splits)
  have turn: "report_turn i e s = Some s' \<Longrightarrow> fmdrop i (live_of s') = fmdrop i (live_of s)"
    for e and s s' :: "'a Shared"
    by (cases e) (auto simp: path log)
  have loop: "sh_cfg (report_loop i es s) = sh_cfg s \<and> binds_of (report_loop i es s) = binds_of s \<and>
      fmdom (live_of (report_loop i es s)) = fmdom (live_of s) \<and>
      fmdrop i (live_of (report_loop i es s)) = fmdrop i (live_of s)" for s :: "'a Shared"
  proof (induction es arbitrary: s)
    case (Cons e es)
    show ?case
    proof (cases "report_turn i e s")
      case (Some s')
      then show ?thesis using Cons.IH [of s'] report_turn_frame [OF Some] turn [OF Some] by simp
    qed simp
  qed simp
  show ?thesis unfolding report_path_def using loop [of "log_selected i paths s"]
    by (simp add: log_selected_dom log)
qed

end
