(* ===== verification/Dial_Loop.thy ===== *)
theory Dial_Loop
  imports Connect_Side Paths
begin

text \<open>
  The outer loop of \<open>src/connect.rs\<close> (\<open>run\<close> and \<open>spawn_forwarders\<close>): dialing, holding a connection
  while edits come in, waiting out a lost one with an increasing delay, and giving up only on the
  peer's own refusal. A step is one resolution of what the loop is waiting for.
\<close>

definition BACKOFF_START :: nat where
  "BACKOFF_START = 1 * SEC"

definition BACKOFF_MAX :: nat where
  "BACKOFF_MAX = 30 * SEC"

section \<open>The forwarders of a connection\<close>

datatype 'l task = AcceptTcp 'l PortMap | PumpOut 'l PortMap | PumpIn | Reaper

definition spawn_forwarders :: "'l listeners \<Rightarrow> 'l task list" where
  "spawn_forwarders bound =
     (let tcp = tcp_listeners bound; udp = udp_listeners bound
      in map (\<lambda>(l, m). AcceptTcp l m) tcp @
         (if udp \<noteq> [] then map (\<lambda>(s, m). PumpOut s m) udp @ [PumpIn, Reaper] else []))"

section \<open>State and operations\<close>

datatype close_reason = ApplicationClosed rstring nat | LinkLost rstring

datatype loop_error = NoListener | ClosedByPeer rstring nat

text \<open>\<open>Draining\<close>: the configuration channel is gone and only the end of the connection is awaited.\<close>

datatype dial_phase = Dialing | Connected | Draining | Waiting | Exited loop_error

record ('id, 'l) Dialer =
  d_peer :: 'id
  d_shared :: "'id Shared"
  d_bound :: "'l listeners"
  d_tasks :: "'l task list"
  d_delay :: nat
  d_until :: nat
  d_phase :: dial_phase

abbreviation wanted :: "'id Shared \<Rightarrow> Binding list" where
  "wanted s \<equiv> active_bindings (sh_cfg s)"

definition loop_start :: "(Proto \<Rightarrow> u16 \<Rightarrow> rstring + 'l) \<Rightarrow> 'id \<Rightarrow> 'id Shared \<Rightarrow> ('id, 'l) Dialer" where
  "loop_start os peer s =
     (case reconcile os (wanted s) fmempty s of
        (_, bound, s') \<Rightarrow>
          \<lparr>d_peer = peer, d_shared = s', d_bound = bound, d_tasks = [], d_delay = BACKOFF_START,
           d_until = 0,
           d_phase = (if wanted s \<noteq> [] \<and> bound = fmempty then Exited NoListener else Dialing)\<rparr>)"

text \<open>The order of the first two calls is the one of the source.\<close>

definition dial_ok :: "nat \<Rightarrow> 'id \<Rightarrow> NetPath list \<Rightarrow> ('id, 'l) Dialer \<Rightarrow> ('id, 'l) Dialer" where
  "dial_ok now remote paths d =
     d\<lparr>d_delay := BACKOFF_START,
       d_shared := peer_connected now remote (log_selected remote paths (d_shared d)),
       d_tasks := spawn_forwarders (d_bound d),
       d_phase := Connected\<rparr>"

definition wait_retry :: "nat \<Rightarrow> ('id, 'l) Dialer \<Rightarrow> ('id, 'l) Dialer" where
  "wait_retry now d = d\<lparr>d_until := now + d_delay d, d_phase := Waiting\<rparr>"

definition dial_failed :: "nat \<Rightarrow> ('id, 'l) Dialer \<Rightarrow> ('id, 'l) Dialer" where
  "dial_failed now d = wait_retry now d"

definition connected_changed :: "(Proto \<Rightarrow> u16 \<Rightarrow> rstring + 'l) \<Rightarrow> ('id, 'l) Dialer \<Rightarrow> ('id, 'l) Dialer" where
  "connected_changed os d =
     (case reconcile os (wanted (d_shared d)) (d_bound d) (d_shared d) of
        (changed, bound, s') \<Rightarrow>
          if changed then d\<lparr>d_bound := bound, d_shared := s', d_tasks := spawn_forwarders bound\<rparr>
          else d\<lparr>d_bound := bound, d_shared := s'\<rparr>)"

definition conn_closed :: "nat \<Rightarrow> close_reason \<Rightarrow> ('id, 'l) Dialer \<Rightarrow> ('id, 'l) Dialer" where
  "conn_closed now reason d =
     (let d' = d\<lparr>d_tasks := [], d_shared := peer_disconnected (d_peer d) (d_shared d)\<rparr>
      in case reason of
           ApplicationClosed why code \<Rightarrow> d'\<lparr>d_phase := Exited (ClosedByPeer why code)\<rparr>
         | LinkLost _ \<Rightarrow> wait_retry now d')"

definition waiting_changed :: "(Proto \<Rightarrow> u16 \<Rightarrow> rstring + 'l) \<Rightarrow> ('id, 'l) Dialer \<Rightarrow> ('id, 'l) Dialer" where
  "waiting_changed os d =
     (case reconcile os (wanted (d_shared d)) (d_bound d) (d_shared d) of
        (_, bound, s') \<Rightarrow> d\<lparr>d_bound := bound, d_shared := s'\<rparr>)"

definition retry_due :: "('id, 'l) Dialer \<Rightarrow> ('id, 'l) Dialer" where
  "retry_due d = d\<lparr>d_delay := min (d_delay d * 2) BACKOFF_MAX, d_phase := Dialing\<rparr>"

text \<open>
  The QUIC handshake proves that the remote end is the peer that was dialed, so \<open>Opened\<close> passes
  \<open>d_peer d\<close> for \<open>conn.remote_id()\<close>. An edit by the admin panel, an update of the path record and
  the passing of time can happen in any phase.
\<close>

inductive dial_step :: "('id, 'l) Dialer \<Rightarrow> ('id, 'l) Dialer \<Rightarrow> bool" where
  Edit: "mutate to_toml os f (d_shared d, files) = (r :: 'id error + unit, s', files') \<Longrightarrow>
     dial_step d (d\<lparr>d_shared := s'\<rparr>)"
| PathTurn: "report_turn (d_peer d) ev (d_shared d) = Some s' \<Longrightarrow> dial_step d (d\<lparr>d_shared := s'\<rparr>)"
| Opened: "d_phase d = Dialing \<Longrightarrow> dial_step d (dial_ok now (d_peer d) paths d)"
| Refused: "d_phase d = Dialing \<Longrightarrow> dial_step d (dial_failed now d)"
| Changed: "d_phase d = Connected \<Longrightarrow> dial_step d (connected_changed os d)"
| ChannelGone: "d_phase d = Connected \<Longrightarrow> dial_step d (d\<lparr>d_phase := Draining\<rparr>)"
| Closed: "d_phase d = Connected \<or> d_phase d = Draining \<Longrightarrow> dial_step d (conn_closed now reason d)"
| WaitChanged: "d_phase d = Waiting \<Longrightarrow> dial_step d (waiting_changed os d)"
| WaitOver: "d_phase d = Waiting \<Longrightarrow> dial_step d (retry_due d)"

inductive dial_run :: "('id, 'l) Dialer \<Rightarrow> ('id, 'l) Dialer \<Rightarrow> bool" for d0 :: "('id, 'l) Dialer" where
  start: "dial_run d0 d0"
| more: "dial_run d0 d \<Longrightarrow> dial_step d d' \<Longrightarrow> dial_run d0 d'"

section \<open>The invariant\<close>

definition online :: "('id, 'l) Dialer \<Rightarrow> bool" where
  "online d \<longleftrightarrow> d_phase d = Connected \<or> d_phase d = Draining"

text \<open>Listeners are of the kind their key says and are reported as listening.\<close>

definition bound_ok :: "'l listeners \<Rightarrow> 'id Shared \<Rightarrow> bool" where
  "bound_ok bound s \<longleftrightarrow>
     (\<forall>proto local sock remote. fmlookup bound (proto, local) = Some (sock, remote) \<longrightarrow>
        (\<exists>l. sock = (case proto of Tcp \<Rightarrow> SockTcp l | Udp \<Rightarrow> SockUdp l)) \<and>
        fmlookup (binds_of s) (proto, local) = Some Listening)"

definition dial_inv :: "('id, 'l) Dialer \<Rightarrow> bool" where
  "dial_inv d \<longleftrightarrow>
     config_wf (sh_cfg (d_shared d)) \<and> bound_ok (d_bound d) (d_shared d) \<and>
     d_tasks d = (if online d then spawn_forwarders (d_bound d) else []) \<and>
     fmdom (live_of (d_shared d)) = (if online d then {|d_peer d|} else {||}) \<and>
     BACKOFF_START \<le> d_delay d \<and> d_delay d \<le> BACKOFF_MAX"

lemma wanted_distinct: "config_wf (sh_cfg s) \<Longrightarrow> distinct (map binding_key (wanted s))"
  by (simp add: config_wf_def bindings_wf_def active_bindings_def distinct_map_filter)

lemma bound_okD:
  "bound_ok bound s \<Longrightarrow> fmlookup bound (proto, local) = Some (sock, remote) \<Longrightarrow>
     (\<exists>l. sock = (case proto of Tcp \<Rightarrow> SockTcp l | Udp \<Rightarrow> SockUdp l)) \<and>
     fmlookup (binds_of s) (proto, local) = Some Listening"
  unfolding bound_ok_def by blast

lemma bound_ok_reconcile:
  assumes "reconcile os want bound s = (changed, bound', s')" and "distinct (map binding_key want)"
    and "bound_ok bound s"
  shows "bound_ok bound' s'"
  unfolding bound_ok_def
proof (intro allI impI)
  fix proto local sock remote
  assume new: "fmlookup bound' (proto, local) = Some (sock, remote)"
  note R = reconcile_table [OF assms(1,2)]
  have "(proto, local) \<in> binding_key ` set want"
  proof (rule ccontr)
    assume "(proto, local) \<notin> binding_key ` set want"
    then have "fmlookup bound' (proto, local) = None" using R by blast
    with new show False by simp
  qed
  then obtain b where b: "b \<in> set want" "binding_key b = (proto, local)" by force
  then have step: "want_step os b (fmlookup bound (proto, local)) = Some (sock, remote)"
    and report: "fmlookup (binds_of s') (proto, local) =
      report_step os b (fmlookup bound (proto, local)) (fmlookup (binds_of s) (proto, local))"
    using R new by force+
  show "(\<exists>l. sock = (case proto of Tcp \<Rightarrow> SockTcp l | Udp \<Rightarrow> SockUdp l)) \<and>
      fmlookup (binds_of s') (proto, local) = Some Listening"
  proof (cases "fmlookup bound (proto, local)")
    case None
    with step b report show ?thesis
      by (auto simp: want_step_def report_step_def binding_key_def and_then_Inr_iff
          split: sum.splits Proto.splits)
  next
    case (Some v)
    obtain old remote0 where v: "v = (old, remote0)" by (cases v)
    with step report Some have "old = sock"
      and "fmlookup (binds_of s') (proto, local) = fmlookup (binds_of s) (proto, local)"
      by (simp_all add: want_step_def report_step_def)
    with bound_okD [OF assms(3)] Some v show ?thesis by metis
  qed
qed

lemma online_simps [simp]:
  "online (dial_ok now i paths d)" "\<not> online (wait_retry now d)" "\<not> online (retry_due d)"
  by (simp_all add: online_def dial_ok_def wait_retry_def retry_due_def)

lemma reconcile_frame:
  assumes "reconcile os (wanted s) bound s = (changed, bound', s')" and "config_wf (sh_cfg s)"
  shows "sh_cfg s' = sh_cfg s \<and> live_of s' = live_of s \<and> (changed \<longleftrightarrow> bound' \<noteq> bound)"
  using reconcile_table [OF assms(1) wanted_distinct [OF assms(2)]] by blast

lemma bound_ok_binds: "binds_of s' = binds_of s \<Longrightarrow> bound_ok bound s' = bound_ok bound s"
  by (simp add: bound_ok_def)

lemma backoff_step:
  "BACKOFF_START \<le> x \<Longrightarrow> x \<le> BACKOFF_MAX \<Longrightarrow>
     BACKOFF_START \<le> min (x * 2) BACKOFF_MAX \<and> min (x * 2) BACKOFF_MAX \<le> BACKOFF_MAX"
  by (simp add: BACKOFF_START_def BACKOFF_MAX_def SEC_def)

lemma backoff_le: "BACKOFF_START \<le> BACKOFF_MAX"
  by (simp add: BACKOFF_START_def BACKOFF_MAX_def SEC_def)

lemma dial_inv_changed:
  assumes "dial_inv d" and "d_phase d = Connected"
  shows "dial_inv (connected_changed os d)"
proof -
  obtain changed bound s' where rec: "reconcile os (wanted (d_shared d)) (d_bound d) (d_shared d) = (changed, bound, s')"
    by (cases "reconcile os (wanted (d_shared d)) (d_bound d) (d_shared d)") auto
  have wf: "config_wf (sh_cfg (d_shared d))" and ok: "bound_ok (d_bound d) (d_shared d)"
    using assms(1) by (simp_all add: dial_inv_def)
  note frame = reconcile_frame [OF rec wf] and ok' = bound_ok_reconcile [OF rec wanted_distinct [OF wf] ok]
  from assms frame ok' show ?thesis
    by (auto simp: dial_inv_def connected_changed_def rec online_def)
qed

lemma dial_inv_waiting_changed:
  assumes "dial_inv d" and "d_phase d = Waiting"
  shows "dial_inv (waiting_changed os d)"
proof -
  obtain changed bound s' where rec: "reconcile os (wanted (d_shared d)) (d_bound d) (d_shared d) = (changed, bound, s')"
    by (cases "reconcile os (wanted (d_shared d)) (d_bound d) (d_shared d)") auto
  have wf: "config_wf (sh_cfg (d_shared d))" and ok: "bound_ok (d_bound d) (d_shared d)"
    using assms(1) by (simp_all add: dial_inv_def)
  note frame = reconcile_frame [OF rec wf] and ok' = bound_ok_reconcile [OF rec wanted_distinct [OF wf] ok]
  from assms frame ok' show ?thesis
    by (auto simp: dial_inv_def waiting_changed_def rec online_def)
qed

lemma dial_inv_step: "dial_step d d' \<Longrightarrow> dial_inv d \<Longrightarrow> dial_inv d'"
proof (induction rule: dial_step.induct)
  case (Edit to_toml os f d files r s' files')
  have "config_wf (sh_cfg s')"
  proof (cases r)
    case (Inl e)
    with Edit mutate_Inl [of to_toml os f "(d_shared d, files)" e "(s', files')"] show ?thesis
      by (simp add: node_running_def dial_inv_def)
  next
    case (Inr a)
    with Edit mutate_Inr [of to_toml os f "(d_shared d, files)" a "(s', files')"] show ?thesis
      by (simp add: node_running_def)
  qed
  moreover have rt: "sh_runtime s' = sh_runtime (d_shared d)" using mutate_frame [OF Edit.hyps] by simp
  then have "bound_ok (d_bound d) s' = bound_ok (d_bound d) (d_shared d)" by (intro bound_ok_binds) simp
  ultimately show ?case using Edit.prems rt by (simp add: dial_inv_def online_def)
next
  case (PathTurn d ev s')
  note frame = report_turn_frame [OF PathTurn.hyps]
  then have "bound_ok (d_bound d) s' = bound_ok (d_bound d) (d_shared d)" by (intro bound_ok_binds) simp
  with frame PathTurn.prems show ?case by (simp add: dial_inv_def online_def)
next
  case (Opened d now paths)
  then have "\<not> online d" by (simp add: online_def)
  with Opened.prems have none: "fmdom (live_of (d_shared d)) = {||}" by (simp add: dial_inv_def)
  then have "fmlookup (live_of (log_selected (d_peer d) paths (d_shared d))) (d_peer d) = None"
    using log_selected_dom [of "d_peer d" paths "d_shared d"] by (metis fempty_iff fmdom_notI fmdom_notD)
  then have "fmdom (live_of (d_shared (dial_ok now (d_peer d) paths d))) = {|d_peer d|}"
    using none by (simp add: dial_ok_def peer_connected_def log_selected_dom)
  moreover have "bound_ok (d_bound d) (d_shared (dial_ok now (d_peer d) paths d)) = bound_ok (d_bound d) (d_shared d)"
    by (intro bound_ok_binds) (simp add: dial_ok_def)
  ultimately show ?case
    using Opened.prems backoff_le by (simp add: dial_inv_def) (simp add: dial_ok_def online_def)
next
  case (Refused d now)
  then show ?case
    by (simp add: dial_inv_def dial_failed_def wait_retry_def online_def)
next
  case (Changed d os)
  then show ?case by (simp add: dial_inv_changed)
next
  case (ChannelGone d)
  then show ?case by (simp add: dial_inv_def online_def)
next
  case (Closed d now reason)
  then have "fmdom (live_of (d_shared d)) = {|d_peer d|}" by (simp add: dial_inv_def online_def)
  then have "fmdom (live_of (peer_disconnected (d_peer d) (d_shared d))) = {||}"
    by (simp add: peer_disconnected_def)
  moreover have "bound_ok (d_bound d) (peer_disconnected (d_peer d) (d_shared d)) = bound_ok (d_bound d) (d_shared d)"
    by (intro bound_ok_binds) simp
  ultimately show ?case using Closed.prems
    by (simp add: dial_inv_def conn_closed_def wait_retry_def online_def Let_def split: close_reason.splits)
next
  case (WaitChanged d os)
  then show ?case by (simp add: dial_inv_waiting_changed)
next
  case (WaitOver d)
  then show ?case
    using backoff_step [of "d_delay d"] by (simp add: dial_inv_def retry_due_def online_def)
qed

lemma loop_start_inv:
  assumes "config_wf (sh_cfg s)" and "live_of s = fmempty"
  shows "dial_inv (loop_start os peer s)"
proof -
  obtain changed bound s' where rec: "reconcile os (wanted s) fmempty s = (changed, bound, s')"
    by (cases "reconcile os (wanted s) fmempty s") auto
  have "bound_ok fmempty s" by (simp add: bound_ok_def)
  from bound_ok_reconcile [OF rec wanted_distinct [OF assms(1)] this] reconcile_frame [OF rec assms(1)] assms
  show ?thesis
    by (auto simp: loop_start_def rec dial_inv_def online_def backoff_le)
qed

lemma dial_run_inv:
  assumes "config_wf (sh_cfg s)" and "live_of s = fmempty"
  shows "dial_run (loop_start os peer s) d \<Longrightarrow> dial_inv d"
  by (induction rule: dial_run.induct) (simp_all add: loop_start_inv [OF assms] dial_inv_step)

lemma map_filter_mem: "y \<in> set (List.map_filter f xs) \<longleftrightarrow> (\<exists>x \<in> set xs. f x = Some y)"
  by (induction xs) (auto simp: List.map_filter_simps split: option.splits)

lemma tcp_listeners_mem:
  "(l, m) \<in> set (tcp_listeners bound) \<longleftrightarrow>
     (\<exists>proto. fmlookup bound (proto, m_local m) = Some (SockTcp l, m_remote m))"
proof
  assume "(l, m) \<in> set (tcp_listeners bound)"
  then show "\<exists>proto. fmlookup bound (proto, m_local m) = Some (SockTcp l, m_remote m)"
    unfolding tcp_listeners_def map_filter_mem by (auto simp: hm_iter_mem split: Sock.splits) blast
next
  assume "\<exists>proto. fmlookup bound (proto, m_local m) = Some (SockTcp l, m_remote m)"
  then obtain proto where "((proto, m_local m), SockTcp l, m_remote m) \<in> set (hm_iter bound)"
    by (auto simp: hm_iter_mem)
  then show "(l, m) \<in> set (tcp_listeners bound)"
    unfolding tcp_listeners_def map_filter_mem by (rule rev_bexI) simp
qed

lemma udp_listeners_mem:
  "(l, m) \<in> set (udp_listeners bound) \<longleftrightarrow>
     (\<exists>proto. fmlookup bound (proto, m_local m) = Some (SockUdp l, m_remote m))"
proof
  assume "(l, m) \<in> set (udp_listeners bound)"
  then show "\<exists>proto. fmlookup bound (proto, m_local m) = Some (SockUdp l, m_remote m)"
    unfolding udp_listeners_def map_filter_mem by (auto simp: hm_iter_mem split: Sock.splits) blast
next
  assume "\<exists>proto. fmlookup bound (proto, m_local m) = Some (SockUdp l, m_remote m)"
  then obtain proto where "((proto, m_local m), SockUdp l, m_remote m) \<in> set (hm_iter bound)"
    by (auto simp: hm_iter_mem)
  then show "(l, m) \<in> set (udp_listeners bound)"
    unfolding udp_listeners_def map_filter_mem by (rule rev_bexI) simp
qed

lemma spawn_forwarders_mem:
  "AcceptTcp l m \<in> set (spawn_forwarders bound) \<longleftrightarrow> (l, m) \<in> set (tcp_listeners bound)"
  "PumpOut l m \<in> set (spawn_forwarders bound) \<longleftrightarrow> (l, m) \<in> set (udp_listeners bound)"
  by (auto simp: spawn_forwarders_def Let_def)

lemma forwarders_of_listeners:
  assumes "dial_inv d"
  shows "(AcceptTcp l m \<in> set (d_tasks d) \<longleftrightarrow>
            online d \<and> fmlookup (d_bound d) (Tcp, m_local m) = Some (SockTcp l, m_remote m)) \<and>
         (PumpOut l m \<in> set (d_tasks d) \<longleftrightarrow>
            online d \<and> fmlookup (d_bound d) (Udp, m_local m) = Some (SockUdp l, m_remote m))"
proof -
  from assms have ok: "bound_ok (d_bound d) (d_shared d)"
    and tasks: "d_tasks d = (if online d then spawn_forwarders (d_bound d) else [])"
    by (simp_all add: dial_inv_def)
  have "proto = Tcp" if "fmlookup (d_bound d) (proto, p) = Some (SockTcp l, r)" for proto p r
    using bound_okD [OF ok that] by (cases proto) auto
  then have tcp: "(l, m) \<in> set (tcp_listeners (d_bound d)) \<longleftrightarrow>
      fmlookup (d_bound d) (Tcp, m_local m) = Some (SockTcp l, m_remote m)"
    unfolding tcp_listeners_mem by blast
  have "proto = Udp" if "fmlookup (d_bound d) (proto, p) = Some (SockUdp l, r)" for proto p r
    using bound_okD [OF ok that] by (cases proto) auto
  then have udp: "(l, m) \<in> set (udp_listeners (d_bound d)) \<longleftrightarrow>
      fmlookup (d_bound d) (Udp, m_local m) = Some (SockUdp l, m_remote m)"
    unfolding udp_listeners_mem by blast
  show ?thesis unfolding tasks by (simp add: spawn_forwarders_mem tcp udp)
qed


text \<open>
  The panel of the reaching side tells the truth about the link: the peer it dials is listed as
  connected exactly while a connection is held, and nobody else ever is.
\<close>
theorem dialer_live_exact:
  assumes "config_wf (sh_cfg s)" and "live_of s = fmempty" and "dial_run (loop_start os peer s) d"
  shows "fmlookup (live_of (d_shared d)) p \<noteq> None \<longleftrightarrow> online d \<and> p = d_peer d"
proof -
  have "fmdom (live_of (d_shared d)) = (if online d then {|d_peer d|} else {||})"
    using dial_run_inv [OF assms] by (simp add: dial_inv_def)
  then have "p |\<in>| fmdom (live_of (d_shared d)) \<longleftrightarrow> online d \<and> p = d_peer d" by simp
  then show ?thesis by (simp add: fmlookup_dom_iff)
qed

lemma change_reaches_sockets:
  assumes "dial_inv d"
    and "d' = connected_changed os' d \<and> d_phase d = Connected \<or> d' = waiting_changed os' d \<and> d_phase d = Waiting"
  shows "(\<forall>k sock remote. fmlookup (d_bound d') k = Some (sock, remote) \<longrightarrow>
            (\<exists>b \<in> set (wanted (d_shared d')). binding_key b = k \<and> b_remote b = remote)) \<and>
         (\<forall>b \<in> set (wanted (d_shared d')).
            (case bind_state b (d_shared d') of
               Some Listening \<Rightarrow> (\<exists>sock. fmlookup (d_bound d') (binding_key b) = Some (sock, b_remote b))
             | Some (Failed e) \<Rightarrow> fmlookup (d_bound d') (binding_key b) = None
             | None \<Rightarrow> False))"
proof -
  have wf: "config_wf (sh_cfg (d_shared d))" and ok: "bound_ok (d_bound d) (d_shared d)"
    using assms(1) by (simp_all add: dial_inv_def)
  obtain changed bound s' where rec:
    "reconcile os' (wanted (d_shared d)) (d_bound d) (d_shared d) = (changed, bound, s')"
    by (cases "reconcile os' (wanted (d_shared d)) (d_bound d) (d_shared d)") auto
  have d': "d_bound d' = bound" "d_shared d' = s'"
    using assms(2) by (auto simp: connected_changed_def waiting_changed_def rec)
  note R = reconcile_table [OF rec wanted_distinct [OF wf]]
  have cfg: "sh_cfg s' = sh_cfg (d_shared d)" using R by blast
  have listed: "\<exists>b \<in> set (wanted (d_shared d)). binding_key b = k \<and> b_remote b = remote"
    if "fmlookup bound k = Some (sock, remote)" for k sock remote
  proof -
    have "k \<in> binding_key ` set (wanted (d_shared d))"
    proof (rule ccontr)
      assume "k \<notin> binding_key ` set (wanted (d_shared d))"
      then have "fmlookup bound k = None" using R by blast
      with that show False by simp
    qed
    then obtain b where b: "b \<in> set (wanted (d_shared d))" "k = binding_key b" by blast
    with R that have "want_step os' b (fmlookup (d_bound d) k) = Some (sock, remote)" by force
    then have "b_remote b = remote" by (auto simp: want_step_def split: option.splits sum.splits)
    with b show ?thesis by blast
  qed
  have state: "case bind_state b s' of
      Some Listening \<Rightarrow> (\<exists>sock. fmlookup bound (binding_key b) = Some (sock, b_remote b))
    | Some (Failed e) \<Rightarrow> fmlookup bound (binding_key b) = None
    | None \<Rightarrow> False" if "b \<in> set (wanted (d_shared d))" for b
  proof (cases "fmlookup (d_bound d) (binding_key b)")
    case None
    with R that show ?thesis
      by (auto simp: bind_state_def want_step_def report_step_def binding_key_def simp del: bind_one.simps
          split: sum.splits)
  next
    case (Some v)
    then have "fmlookup (binds_of (d_shared d)) (binding_key b) = Some Listening"
      using bound_okD [OF ok, of "b_proto b" "b_local b"] by (cases v) (auto simp: binding_key_def)
    with R that Some show ?thesis
      by (cases v) (auto simp: bind_state_def want_step_def report_step_def binding_key_def)
  qed
  show ?thesis unfolding d' using listed state by (auto simp: cfg)
qed

text \<open>
  C17: an edit reaches the sockets. When the loop has handled a change, in a connection or while it
  waits for one, every listener is one of an enabled binding of the configuration in force and goes
  to the port it names, and every such binding is either listening or reported with an error.
\<close>
theorem listeners_follow_config:
  assumes "config_wf (sh_cfg s)" and "live_of s = fmempty" and "dial_run (loop_start os peer s) d"
    and "d' = connected_changed os' d \<and> d_phase d = Connected \<or> d' = waiting_changed os' d \<and> d_phase d = Waiting"
  shows "(\<forall>k sock remote. fmlookup (d_bound d') k = Some (sock, remote) \<longrightarrow>
            (\<exists>b \<in> set (wanted (d_shared d')). binding_key b = k \<and> b_remote b = remote)) \<and>
         (\<forall>b \<in> set (wanted (d_shared d')).
            (case bind_state b (d_shared d') of
               Some Listening \<Rightarrow> (\<exists>sock. fmlookup (d_bound d') (binding_key b) = Some (sock, b_remote b))
             | Some (Failed e) \<Rightarrow> fmlookup (d_bound d') (binding_key b) = None
             | None \<Rightarrow> False))"
  using dial_run_inv [OF assms(1-3)] assms(4) by (rule change_reaches_sockets)

section \<open>Retrying\<close>

fun fail_times :: "nat list \<Rightarrow> ('id, 'l) Dialer \<Rightarrow> ('id, 'l) Dialer" where
  "fail_times [] d = d"
| "fail_times (t # ts) d = fail_times ts (retry_due (dial_failed t d))"

lemma fail_times_delay:
  "d_delay d = min (2 ^ n * BACKOFF_START) BACKOFF_MAX \<Longrightarrow>
     d_delay (fail_times ts d) = min (2 ^ (n + length ts) * BACKOFF_START) BACKOFF_MAX"
proof (induction ts arbitrary: d n)
  case Nil
  then show ?case by simp
next
  case (Cons t ts)
  have "d_delay (retry_due (dial_failed t d)) = min (2 ^ Suc n * BACKOFF_START) BACKOFF_MAX"
    by (simp add: retry_due_def dial_failed_def wait_retry_def Cons.prems min_def)
  from Cons.IH [OF this] show ?case by simp
qed


text \<open>
  A refusal is final and nothing else is. The only step into an exit is the end of a connection
  that the far application closed, with the reason it gave; and a loop that has not exited can
  always come back to dialing the peer.
\<close>
theorem gives_up_only_when_refused:
  assumes "dial_step d d'" and "\<And>e. d_phase d \<noteq> Exited e"
  shows "(d_phase d' = Exited e \<longrightarrow>
            (\<exists>now why code. online d \<and> e = ClosedByPeer why code \<and>
               d' = conn_closed now (ApplicationClosed why code) d)) \<and>
         (\<exists>d2. dial_run d d2 \<and> d_phase d2 = Dialing)"
proof
  show "d_phase d' = Exited e \<longrightarrow>
      (\<exists>now why code. online d \<and> e = ClosedByPeer why code \<and>
         d' = conn_closed now (ApplicationClosed why code) d)"
    using assms(1)
  proof (cases rule: dial_step.cases)
    case (Closed now reason)
    then show ?thesis
      by (cases reason) (auto simp: conn_closed_def wait_retry_def Let_def online_def)
  next
    case (Changed os)
    then show ?thesis by (auto simp: connected_changed_def split: prod.splits)
  next
    case (WaitChanged os)
    then show ?thesis by (auto simp: waiting_changed_def split: prod.splits)
  qed (use assms(2) in \<open>auto simp: dial_ok_def dial_failed_def wait_retry_def retry_due_def\<close>)
  have waiting: "dial_run d (retry_due d2)" if "dial_run d d2" "d_phase d2 = Waiting" for d2
    by (rule dial_run.more [OF that(1) dial_step.WaitOver [OF that(2)]])
  show "\<exists>d2. dial_run d d2 \<and> d_phase d2 = Dialing"
  proof (cases "d_phase d")
    case Dialing
    then show ?thesis using dial_run.start [of d] by blast
  next
    case Waiting
    then have "dial_run d (retry_due d)" by (rule waiting [OF dial_run.start])
    then show ?thesis by (intro exI [of _ "retry_due d"]) (simp add: retry_due_def)
  next
    case (Exited e)
    with assms(2) show ?thesis by blast
  next
    case Connected
    then have "dial_step d (conn_closed 0 (LinkLost []) d)" by (simp add: dial_step.Closed)
    from waiting [OF dial_run.more [OF dial_run.start this]] show ?thesis
      by (intro exI [of _ "retry_due (conn_closed 0 (LinkLost []) d)"])
         (simp add: conn_closed_def wait_retry_def retry_due_def Let_def)
  next
    case Draining
    then have "dial_step d (conn_closed 0 (LinkLost []) d)" by (simp add: dial_step.Closed)
    from waiting [OF dial_run.more [OF dial_run.start this]] show ?thesis
      by (intro exI [of _ "retry_due (conn_closed 0 (LinkLost []) d)"])
         (simp add: conn_closed_def wait_retry_def retry_due_def Let_def)
  qed
qed

section \<open>Witnesses\<close>

text \<open>The example configuration, whose one binding is 2222:22, dialed and opened.\<close>

definition link_shared :: "nat Shared" where
  "link_shared = shared_new example_config [lit ''config.toml''] RoleConnect 0"

definition link_start :: "(nat, nat) Dialer" where
  "link_start = loop_start picky_os 9 link_shared"

definition link_up :: "(nat, nat) Dialer" where
  "link_up = dial_ok 4 9 [] link_start"

lemma link_shared_ok: "config_wf (sh_cfg link_shared)" "live_of link_shared = fmempty"
  by (simp_all add: link_shared_def shared_new_def example_config_wf)

lemma link_start_simps:
  "d_peer link_start = 9" "d_phase link_start = Dialing" "d_tasks link_start = []"
  "d_bound link_start = fmupd (Tcp, 2222) (SockTcp 2222, 22) fmempty"
  by (simp_all add: link_start_def loop_start_def link_shared_def shared_new_def active_bindings_def
      example_config_def reconcile_def reconcile_one_def picky_os_def sorted_list_of_fset.rep_eq)

lemma link_up_run: "dial_run (loop_start picky_os 9 link_shared) link_up"
  using dial_run.more [OF dial_run.start dial_step.Opened [of link_start 4 "[]"]]
  by (simp add: link_start_simps link_up_def) (simp add: link_start_def)

lemma link_up_simps [simp]:
  "d_phase link_up = Connected" "online link_up" "d_peer link_up = 9"
  "d_bound link_up = fmupd (Tcp, 2222) (SockTcp 2222, 22) fmempty"
  by (simp_all add: link_up_def dial_ok_def link_start_simps online_def)


theorem dialer_live_exact_witness:
  "fmlookup (live_of (d_shared link_up)) 9 \<noteq> None \<and> fmlookup (live_of (d_shared link_up)) 8 = None"
  using dialer_live_exact [OF link_shared_ok link_up_run, of 9]
    dialer_live_exact [OF link_shared_ok link_up_run, of 8] by simp

lemma link_up_cfg: "sh_cfg (d_shared link_up) = example_config"
  by (simp add: link_up_def dial_ok_def link_start_def loop_start_def link_shared_def shared_new_def
      active_bindings_def example_config_def reconcile_def reconcile_one_def picky_os_def
      sorted_list_of_fset.rep_eq peer_connected_def log_selected_def split: option.splits)

lemma link_changed:
  "d_bound (connected_changed picky_os link_up) = fmupd (Tcp, 2222) (SockTcp 2222, 22) fmempty"
  by (simp add: connected_changed_def link_up_cfg active_bindings_def example_config_def reconcile_def
      reconcile_one_def drop_stale_def binding_key_def picky_os_def sorted_list_of_fset.rep_eq)

theorem listeners_follow_config_witness:
  "\<exists>b \<in> set (wanted (d_shared (connected_changed picky_os link_up))).
     binding_key b = (Tcp, 2222) \<and> b_remote b = 22"
  by (rule listeners_follow_config [OF link_shared_ok link_up_run, of "connected_changed picky_os link_up" picky_os,
        THEN conjunct1, THEN spec, THEN spec, THEN spec, THEN mp])
     (simp_all add: link_changed)

theorem gives_up_only_when_refused_witness:
  "\<exists>now why code. online link_up \<and> ClosedByPeer (lit ''access revoked'') 1 = ClosedByPeer why code \<and>
     conn_closed 7 (ApplicationClosed (lit ''access revoked'') 1) link_up =
       conn_closed now (ApplicationClosed why code) link_up"
  using gives_up_only_when_refused [OF dial_step.Closed [of link_up 7 "ApplicationClosed (lit ''access revoked'') 1"]]
  by (auto simp: conn_closed_def Let_def)

section \<open>Limits of the guarantees\<close>

text \<open>
  The path of a fresh connection is reported before the peer is listed, so the report is dropped:
  the panel shows \<open>pending\<close> until the next path event or heartbeat.
\<close>

lemma established_path_is_dropped:
  assumes "dial_inv d" and "d_phase d = Dialing"
  shows "fmlookup (live_of (d_shared (dial_ok now (d_peer d) paths d))) (d_peer d) =
           Some (now, default_path_info)"
proof -
  have "fmdom (live_of (d_shared d)) = {||}" using assms by (simp add: dial_inv_def online_def)
  then have "fmlookup (live_of (log_selected (d_peer d) paths (d_shared d))) (d_peer d) = None"
    using log_selected_dom [of "d_peer d" paths "d_shared d"] by (metis fempty_iff fmdom_notI fmdom_notD)
  then show ?thesis by (simp add: dial_ok_def peer_connected_def)
qed

text \<open>A binding that could not be bound keeps its error report after it is removed from the configuration.\<close>

lemma failed_report_outlives_binding:
  assumes "reconcile os [] bound s = (changed, bound', s')" and "fmlookup bound k = None"
    and "fmlookup (binds_of s) k = Some (Failed e)"
  shows "fmlookup (binds_of s') k = Some (Failed e)"
  using reconcile_table [OF assms(1)] assms(2,3) by simp

section \<open>The path of the file\<close>

text \<open>No runtime fact moves the configuration file.\<close>

lemma peer_path_path [simp]: "sh_path (peer_path i p a r s) = sh_path s"
  by (simp add: peer_path_def split: option.splits prod.splits)

lemma peer_conn_path [simp]:
  "sh_path (peer_connected now i s) = sh_path s" "sh_path (peer_disconnected i s) = sh_path s"
  "sh_path (set_bind pr port st s) = sh_path s" "sh_path (clear_bind pr port s) = sh_path s"
  by (simp_all add: peer_connected_def peer_disconnected_def set_bind_def clear_bind_def split: option.splits)

lemma log_selected_path [simp]: "sh_path (log_selected i paths s) = sh_path s"
  by (simp add: log_selected_def split: option.splits)

lemma report_turn_path: "report_turn i e s = Some s' \<Longrightarrow> sh_path s' = sh_path s"
  by (cases e) auto

lemma reconcile_path:
  fixes s :: "'id Shared" and bound :: "'l listeners"
  assumes "reconcile os want bound s = (changed, bound', s')"
  shows "sh_path s' = sh_path s"
proof -
  have one: "sh_path (snd (snd (reconcile_one os b st))) = sh_path (snd (snd st))" for b and st :: "bool \<times> 'l listeners \<times> 'id Shared"
    by (cases st) (auto simp: reconcile_one_def simp del: bind_one.simps split: option.splits sum.splits if_splits)
  have drop: "sh_path (snd (snd (drop_stale k st))) = sh_path (snd (snd st))" for k and st :: "bool \<times> 'l listeners \<times> 'id Shared"
    by (cases st) (simp add: drop_stale_def)
  have ones: "sh_path (snd (snd (fold (reconcile_one os) want st))) = sh_path (snd (snd st))"
    for st :: "bool \<times> 'l listeners \<times> 'id Shared"
    by (induction want arbitrary: st) (simp_all add: one)
  have drops: "sh_path (snd (snd (fold drop_stale ks st))) = sh_path (snd (snd st))"
    for ks and st :: "bool \<times> 'l listeners \<times> 'id Shared"
    by (induction ks arbitrary: st) (simp_all add: drop)
  have "sh_path (snd (snd (reconcile os want bound s))) = sh_path s"
    unfolding reconcile_def by (simp add: ones drops Let_def)
  then show ?thesis by (simp add: assms)
qed

end
