(* ===== verification/Serve_Side.thy ===== *)
theory Serve_Side
  imports Idle_Table Wire Paths
begin

text \<open>
  The offering machine, \<open>src/serve.rs\<close>: the check of each stream and each datagram against the
  configuration current at that moment, the UDP session table of a connection, the eviction of a
  peer whose access is withdrawn, and the life of a connection as a step relation over all of them.
  Sockets, streams and connections are values the operating system and the \<open>iroh\<close> crate hand out;
  what their operations return is an argument or, in the step relation, arbitrary.
\<close>

definition REFUSED :: u32 where
  "REFUSED = 1"

definition REFUSED_PORT :: u32 where
  "REFUSED_PORT = 2"

section \<open>TCP streams\<close>

datatype stream_act = ResetSend u32 | StopRecv u32 | ConnectLocal u16 | CopyBoth u16

text \<open>
  \<open>cfg\<close> is the configuration at the time the header has been read. \<open>copy\<close> is
  \<open>copy_bidirectional\<close>, which returns when both directions are shut.
\<close>

definition serve_stream ::
  "('s \<Rightarrow> nat \<Rightarrow> 'e + u8 list \<times> 's) \<Rightarrow> (u16 \<Rightarrow> 'e + 'tcp) \<Rightarrow> ('s \<Rightarrow> 'tcp \<Rightarrow> 'e + nat \<times> nat) \<Rightarrow>
     'id Config \<Rightarrow> 'id \<Rightarrow> 's \<Rightarrow> ('e + unit) \<times> stream_act list" where
  "serve_stream read_exact tcp_connect copy cfg peer s =
     (case read_target_port read_exact s of
        Inl e \<Rightarrow> (Inl e, [])
      | Inr (port, s') \<Rightarrow>
          if port \<notin> set (grant_list cfg peer Tcp)
          then (Inr (), [ResetSend REFUSED_PORT, StopRecv REFUSED_PORT])
          else
            (case tcp_connect port of
               Inl e \<Rightarrow> (Inl e, [ConnectLocal port])
             | Inr sock \<Rightarrow>
                 (and_then (copy s' sock) (\<lambda>_. Inr ()),
                  [ConnectLocal port, CopyBoth port])))"

section \<open>The UDP session table\<close>

text \<open>\<open>ss_reply\<close> tells whether the task behind the abort handle \<open>reply\<close> is still running.\<close>

record 'sock ServeSession =
  ss_sock :: 'sock
  ss_reply :: bool
  ss_last :: nat
  ss_port :: u16

type_synonym 'sock serve_table = "(u32, 'sock ServeSession) fmap"

definition serve_touch :: "nat \<Rightarrow> u32 \<Rightarrow> 'sock serve_table \<Rightarrow> 'sock option \<times> 'sock serve_table" where
  "serve_touch now i t =
     (case fmlookup t i of
        None \<Rightarrow> (None, t)
      | Some s \<Rightarrow> (Some (ss_sock s), fmupd i (s\<lparr>ss_last := now\<rparr>) t))"

definition serve_reap :: "nat \<Rightarrow> 'sock serve_table \<Rightarrow> 'sock serve_table" where
  "serve_reap now t = hm_retain (\<lambda>_ s. now - ss_last s < UDP_IDLE) t"

definition drop_ungranted :: "u16 list \<Rightarrow> 'sock serve_table \<Rightarrow> 'sock serve_table" where
  "drop_ungranted ports t = hm_retain (\<lambda>_ s. ss_port s \<in> set ports) t"

lemma serve_touch_fst: "fst (serve_touch now i t) = map_option ss_sock (fmlookup t i)"
  by (simp add: serve_touch_def split: option.splits)

lemma serve_touch_lookup [hmap_simps]:
  "fmlookup (snd (serve_touch now i t)) j =
     (if j = i then map_option (\<lambda>s. s\<lparr>ss_last := now\<rparr>) (fmlookup t i) else fmlookup t j)"
  by (simp add: serve_touch_def split: option.splits)

interpretation serve_idle: idle_table
    "\<lambda>t i. map_option ss_last (fmlookup (t :: 'sock serve_table) i)"
    "\<lambda>now i t. snd (serve_touch now i t)" serve_reap
proof unfold_locales
  show "map_option ss_last (fmlookup (snd (serve_touch now j t)) i) =
      (if j = i \<and> map_option ss_last (fmlookup t i) \<noteq> None then Some now
       else map_option ss_last (fmlookup t i))"
    for now j i and t :: "'sock serve_table"
    by (auto simp: serve_touch_lookup)
  show "map_option ss_last (fmlookup (serve_reap now t) i) =
      (case map_option ss_last (fmlookup t i) of None \<Rightarrow> None
       | Some l \<Rightarrow> if now - l < UDP_IDLE then Some l else None)"
    for now i and t :: "'sock serve_table"
    by (simp add: serve_reap_def hm_retain_lookup split: option.splits)
qed

section \<open>Datagrams\<close>

datatype 'sock udp_act = UdpBind 'sock | UdpConnect 'sock u16 | UdpSend 'sock "u8 list"

datatype 'e dg_end = Runt | PortRefused u16 | OpenFailed 'e | Undeliverable 'e | Delivered

text \<open>\<open>bind\<close> is the outcome of binding a fresh loopback socket, \<open>connect\<close> that of fixing its peer.\<close>

definition open_session ::
  "'e + 'sock \<Rightarrow> ('sock \<Rightarrow> u16 \<Rightarrow> 'e + unit) \<Rightarrow> nat \<Rightarrow> u32 \<Rightarrow> u16 \<Rightarrow> 'sock serve_table \<Rightarrow>
     ('e + 'sock) \<times> 'sock udp_act list \<times> 'sock serve_table" where
  "open_session bind connect now i port t =
     (case bind of
        Inl e \<Rightarrow> (Inl e, [], t)
      | Inr sock \<Rightarrow>
          (case connect sock port of
             Inl e \<Rightarrow> (Inl e, [UdpBind sock, UdpConnect sock port], t)
           | Inr _ \<Rightarrow>
               (Inr sock, [UdpBind sock, UdpConnect sock port],
                fmupd i \<lparr>ss_sock = sock, ss_reply = True, ss_last = now, ss_port = port\<rparr> t)))"

definition send_local ::
  "('sock \<Rightarrow> u8 list \<Rightarrow> 'e + unit) \<Rightarrow> 'sock \<Rightarrow> u8 list \<Rightarrow> 'e dg_end \<times> 'sock udp_act list" where
  "send_local send sock payload =
     (case send sock payload of Inl e \<Rightarrow> Undeliverable e | Inr _ \<Rightarrow> Delivered, [UdpSend sock payload])"

text \<open>One turn of \<open>pump_udp\<close> on a datagram; \<open>cfg\<close> is the configuration current at that time.\<close>

definition serve_datagram ::
  "'e + 'sock \<Rightarrow> ('sock \<Rightarrow> u16 \<Rightarrow> 'e + unit) \<Rightarrow> ('sock \<Rightarrow> u8 list \<Rightarrow> 'e + unit) \<Rightarrow> nat \<Rightarrow>
     'id Config \<Rightarrow> 'id \<Rightarrow> u8 list \<Rightarrow> 'sock serve_table \<Rightarrow>
     'e dg_end \<times> 'sock udp_act list \<times> 'sock serve_table" where
  "serve_datagram bind connect send now cfg peer dg t =
     (case decode_datagram dg of
        None \<Rightarrow> (Runt, [], t)
      | Some (i, port, payload) \<Rightarrow>
          if port \<notin> set (grant_list cfg peer Udp) then (PortRefused port, [], t)
          else
            (case serve_touch now i t of
               (Some sock, t') \<Rightarrow>
                 (case send_local send sock payload of (r, acts) \<Rightarrow> (r, acts, t'))
             | (None, t') \<Rightarrow>
                 (case open_session bind connect now i port t' of
                    (Inl e, acts, t2) \<Rightarrow> (OpenFailed e, acts, t2)
                  | (Inr sock, acts, t2) \<Rightarrow>
                      (case send_local send sock payload of (r, acts2) \<Rightarrow> (r, acts @ acts2, t2)))))"

text \<open>The other arm of the \<open>select!\<close>: the configuration changed.\<close>

definition udp_changed :: "'id Config \<Rightarrow> 'id \<Rightarrow> 'sock serve_table \<Rightarrow> 'sock serve_table" where
  "udp_changed cfg peer t = drop_ungranted (grant_list cfg peer Udp) t"

text \<open>
  One turn of \<open>pump_replies\<close> for session \<open>i\<close>: a packet of the local service goes back as a datagram,
  an error of the socket ends the task and leaves the session in the table. Dropping the entry
  aborts the task, so a session that is gone has none.
\<close>

definition serve_reply ::
  "nat \<Rightarrow> u32 \<Rightarrow> 'e + u8 list \<Rightarrow> 'sock serve_table \<Rightarrow> u8 list option \<times> 'sock serve_table" where
  "serve_reply now i recv t =
     (case fmlookup t i of
        None \<Rightarrow> (None, t)
      | Some s \<Rightarrow>
          if \<not> ss_reply s then (None, t)
          else
            (case recv of
               Inl e \<Rightarrow> (None, fmupd i (s\<lparr>ss_reply := False\<rparr>) t)
             | Inr payload \<Rightarrow>
                 (Some (encode_datagram i (ss_port s) payload), snd (serve_touch now i t))))"

section \<open>Eviction\<close>

datatype evict_end = Waiting | ChannelGone | Evicted u32 rstring

text \<open>
  \<open>evict_when_revoked\<close> over the configurations it observes, \<open>None\<close> for a closed channel; \<open>Waiting\<close>
  when it is still waiting after the last of them.
\<close>

fun evict_when_revoked :: "'id \<Rightarrow> 'id Config option list \<Rightarrow> evict_end" where
  "evict_when_revoked peer [] = Waiting"
| "evict_when_revoked peer (None # rs) = ChannelGone"
| "evict_when_revoked peer (Some c # rs) =
     (if admits c peer then evict_when_revoked peer rs
      else Evicted REFUSED (lit ''access revoked''))"

section \<open>A configuration for the examples\<close>

definition dns_config :: "nat Config" where
  "dns_config =
     with_shared example_config [\<lparr>o_proto = Udp, o_port = 53, o_name = lit ''dns'', o_enabled = True\<rparr>]"

lemma dns_config_rights:
  "rights dns_config (Suc 0) = {(Udp, 53), (Tcp, 8080)}" "rights dns_config 2 = {}"
  by (auto simp: rights_def dns_config_def example_config_def with_shared_def cfg_peer_def offer_key_def)

section \<open>What the handlers guarantee\<close>

text \<open>
  C1: a stream opens a loopback connection to a port exactly when its header named that port and
  the configuration current at that moment grants it to this peer over TCP; when the port is not
  granted the outcome is the reset of both halves with code 2 and nothing else; a stream whose
  header cannot be read touches nothing.
\<close>
theorem serve_stream_authorised:
  "(ConnectLocal p \<in> set (snd (serve_stream read_exact tcp_connect copy cfg peer st)) \<longleftrightarrow>
      (\<exists>st'. read_target_port read_exact st = Inr (p, st')) \<and> (Tcp, p) \<in> rights cfg peer) \<and>
   (snd (serve_stream read_exact tcp_connect copy cfg peer st) =
        [ResetSend REFUSED_PORT, StopRecv REFUSED_PORT] \<longleftrightarrow>
      (\<exists>port st'. read_target_port read_exact st = Inr (port, st') \<and> (Tcp, port) \<notin> rights cfg peer)) \<and>
   (snd (serve_stream read_exact tcp_connect copy cfg peer st) = [] \<longleftrightarrow>
      (\<exists>e. read_target_port read_exact st = Inl e))"
  by (auto simp: serve_stream_def grant_list_iff split: sum.splits if_splits)

lemma serve_stream_connects:
  assumes "serve_stream read_exact tcp_connect copy cfg peer st = (r, acts)" and "ConnectLocal p \<in> set acts"
  shows "(Tcp, p) \<in> rights cfg peer"
  using assms by (auto simp: serve_stream_def grant_list_iff split: sum.splits if_splits)

text \<open>
  The eviction task closes the connection at the first configuration it observes that does not
  admit the peer, with code 1, and at no other; what comes after that is not looked at.
\<close>
theorem evicted_at_first_revocation:
  "evict_when_revoked peer rs = Evicted code why \<longleftrightarrow>
     code = REFUSED \<and> why = lit ''access revoked'' \<and>
     (\<exists>seen c later. rs = map Some seen @ Some c # later \<and>
        \<not> admits c peer \<and> (\<forall>d \<in> set seen. admits d peer))"
proof (induction peer rs rule: evict_when_revoked.induct)
  case (3 peer c rs)
  show ?case
  proof (cases "admits c peer")
    case True
    have "(\<exists>seen d later. Some c # rs = map Some seen @ Some d # later \<and> \<not> admits d peer \<and>
             (\<forall>d \<in> set seen. admits d peer)) \<longleftrightarrow>
          (\<exists>seen d later. rs = map Some seen @ Some d # later \<and> \<not> admits d peer \<and>
             (\<forall>d \<in> set seen. admits d peer))"
      (is "(\<exists>seen d later. ?P seen d later) \<longleftrightarrow> (\<exists>seen d later. ?Q seen d later)")
    proof
      assume "\<exists>seen d later. ?P seen d later"
      then obtain seen d later where P: "?P seen d later" by blast
      then obtain seen' where "seen = c # seen'" using True by (cases seen) auto
      with P have "?Q seen' d later" by simp
      then show "\<exists>seen d later. ?Q seen d later" by blast
    next
      assume "\<exists>seen d later. ?Q seen d later"
      then obtain seen d later where "?Q seen d later" by blast
      with True have "?P (c # seen) d later" by simp
      then show "\<exists>seen d later. ?P seen d later" by blast
    qed
    with True 3 show ?thesis by simp
  next
    case False
    then show ?thesis by (auto intro!: exI [of _ "[]"])
  qed
qed (auto simp: Cons_eq_append_conv)

text \<open>What a datagram does to the table, and where it is sent.\<close>

lemma serve_datagram_table:
  assumes "serve_datagram bind connect send now cfg peer dg t = (r, acts, t')"
    and "fmlookup t' i = Some s'"
  shows "(\<exists>s. fmlookup t i = Some s \<and> ss_sock s' = ss_sock s \<and> ss_port s' = ss_port s) \<or>
         (\<exists>x. decode_datagram dg = Some (i, ss_port s', x) \<and> bind = Inr (ss_sock s') \<and>
            fmlookup t i = None \<and> (Udp, ss_port s') \<in> rights cfg peer)"
  using assms
  by (auto simp: serve_datagram_def serve_touch_def open_session_def send_local_def grant_list_iff
      split: option.splits sum.splits if_splits prod.splits)

lemma serve_datagram_send:
  assumes "serve_datagram bind connect send now cfg peer dg t = (r, acts, t')"
    and "UdpSend sock x \<in> set acts"
  shows "\<exists>i port s. decode_datagram dg = Some (i, port, x) \<and> (Udp, port) \<in> rights cfg peer \<and>
           fmlookup t' i = Some s \<and> ss_sock s = sock"
  using assms
  by (auto simp: serve_datagram_def serve_touch_def open_session_def send_local_def grant_list_iff
      split: option.splits sum.splits if_splits prod.splits)

lemma serve_touch_None: "fmlookup t i = None \<Longrightarrow> serve_touch now i t = (None, t)"
  by (simp add: serve_touch_def)

text \<open>
  A datagram on every branch: a runt and a port that is not granted touch nothing; a known
  session gets its payload on its own socket and a fresh timer; an unknown one gets a socket of its
  own, connected to the named port, before the payload; when that fails nothing is sent and no
  session is left behind.
\<close>
theorem serve_datagram_branches:
  "(decode_datagram dg = None \<longrightarrow> serve_datagram bind connect send now cfg peer dg t = (Runt, [], t)) \<and>
   ((Udp, port) \<notin> rights cfg peer \<longrightarrow>
      serve_datagram bind connect send now cfg peer (encode_datagram i port x) t = (PortRefused port, [], t)) \<and>
   ((Udp, port) \<in> rights cfg peer \<and> fmlookup t i = Some s \<longrightarrow>
      snd (serve_datagram bind connect send now cfg peer (encode_datagram i port x) t) =
        ([UdpSend (ss_sock s) x], fmupd i (s\<lparr>ss_last := now\<rparr>) t)) \<and>
   ((Udp, port) \<in> rights cfg peer \<and> fmlookup t i = None \<longrightarrow>
      serve_datagram (Inr sock) (\<lambda>_ _. Inr ()) send now cfg peer (encode_datagram i port x) t =
        (case send sock x of Inl e \<Rightarrow> Undeliverable e | Inr _ \<Rightarrow> Delivered,
         [UdpBind sock, UdpConnect sock port, UdpSend sock x],
         fmupd i \<lparr>ss_sock = sock, ss_reply = True, ss_last = now, ss_port = port\<rparr> t) \<and>
      serve_datagram (Inl e) connect send now cfg peer (encode_datagram i port x) t = (OpenFailed e, [], t) \<and>
      serve_datagram (Inr sock) (\<lambda>_ _. Inl e) send now cfg peer (encode_datagram i port x) t =
        (OpenFailed e, [UdpBind sock, UdpConnect sock port], t))"
  by (simp add: serve_datagram_def grant_list_iff serve_touch_def open_session_def send_local_def)

theorem serve_datagram_branches_witness:
  "serve_datagram (Inr (7 :: nat)) (\<lambda>_ _. Inr ()) (\<lambda>_ _. Inr () :: nat + unit) 5 dns_config 1
     (encode_datagram 4 53 [9]) fmempty =
     (Delivered, [UdpBind 7, UdpConnect 7 53, UdpSend 7 [9]],
      fmupd 4 \<lparr>ss_sock = 7, ss_reply = True, ss_last = 5, ss_port = 53\<rparr> fmempty) \<and>
   snd (serve_datagram (Inr 8) (\<lambda>_ _. Inr ()) (\<lambda>_ _. Inr () :: nat + unit) 9 dns_config 1
     (encode_datagram 4 53 [9]) (fmupd 4 \<lparr>ss_sock = 7, ss_reply = True, ss_last = 5, ss_port = 53\<rparr> fmempty)) =
     ([UdpSend (7 :: nat) [9]],
      fmupd 4 (\<lparr>ss_sock = 7, ss_reply = True, ss_last = 5, ss_port = 53\<rparr>\<lparr>ss_last := 9\<rparr>)
        (fmupd 4 \<lparr>ss_sock = 7, ss_reply = True, ss_last = 5, ss_port = 53\<rparr> fmempty)) \<and>
   serve_datagram (Inr (8 :: nat)) (\<lambda>_ _. Inr ()) (\<lambda>_ _. Inr () :: nat + unit) 9 dns_config 2
     (encode_datagram 4 53 [9]) fmempty = (PortRefused 53, [], fmempty)"
  using serve_datagram_branches [where cfg = dns_config and peer = 1 and port = 53 and i = 4 and x = "[9]"
      and t = fmempty and now = 5 and sock = "7 :: nat" and send = "\<lambda>_ _. Inr () :: nat + unit"]
    serve_datagram_branches [where cfg = dns_config and peer = 1 and port = 53 and i = 4 and x = "[9]"
      and t = "fmupd 4 \<lparr>ss_sock = 7, ss_reply = True, ss_last = 5, ss_port = 53\<rparr> fmempty"
      and now = 9 and send = "\<lambda>_ _. Inr () :: nat + unit" and bind = "Inr (8 :: nat)" and connect = "\<lambda>_ _. Inr ()"]
    serve_datagram_branches [where cfg = dns_config and peer = 2 and port = 53 and i = 4 and x = "[9]"
      and t = fmempty and now = 9 and send = "\<lambda>_ _. Inr () :: nat + unit" and bind = "Inr (8 :: nat)"
      and connect = "\<lambda>_ _. Inr ()"]
  by (simp add: dns_config_rights)

section \<open>A connection and the node\<close>

text \<open>
  What the tasks of one connection share. \<open>cn_evict\<close> and \<open>cn_udp\<close> are the \<open>watch\<close> receivers of the
  eviction task and of the datagram pump: empty until the task has subscribed, then the
  configuration the task has seen and those published since, so \<open>changed()\<close> can resolve exactly when
  there is more than one. \<open>cn_looked\<close> is a ghost: the eviction task has handled a change.
\<close>

datatype ConnPhase = Serving | Closing u32 rstring | Ended

record ('id, 'sock) Conn =
  cn_peer :: 'id
  cn_phase :: ConnPhase
  cn_table :: "'sock serve_table"
  cn_evict :: "'id Config list"
  cn_udp :: "'id Config list"
  cn_looked :: bool

record ('id, 'sock) ServeNode =
  sn_shared :: "'id Shared"
  sn_conns :: "(nat, ('id, 'sock) Conn) fmap"

datatype 'sock serve_act =
    CloseConn nat u32 rstring
  | StreamAct nat stream_act
  | UdpAct nat "'sock udp_act"
  | SendBack nat "u8 list"

abbreviation cfg_now :: "('id, 'sock) ServeNode \<Rightarrow> 'id Config" where
  "cfg_now n \<equiv> sh_cfg (sn_shared n)"

definition serve_start :: "'id Shared \<Rightarrow> ('id, 'sock) ServeNode" where
  "serve_start s = \<lparr>sn_shared = s, sn_conns = fmempty\<rparr>"

definition put_conn :: "nat \<Rightarrow> ('id, 'sock) Conn \<Rightarrow> ('id, 'sock) ServeNode \<Rightarrow> ('id, 'sock) ServeNode" where
  "put_conn k c n = n\<lparr>sn_conns := fmupd k c (sn_conns n)\<rparr>"

text \<open>\<open>send_replace\<close> of \<open>mutate\<close>: the new configuration is current for everybody at once.\<close>

definition pending :: "'c list \<Rightarrow> 'c \<Rightarrow> 'c list" where
  "pending seen c = (if seen = [] then [] else seen @ [c])"

definition publish :: "'id Shared \<Rightarrow> ('id, 'sock) ServeNode \<Rightarrow> ('id, 'sock) ServeNode" where
  "publish s n =
     \<lparr>sn_shared = s,
      sn_conns = fmmap (\<lambda>c. c\<lparr>cn_evict := pending (cn_evict c) (sh_cfg s),
                              cn_udp := pending (cn_udp c) (sh_cfg s)\<rparr>) (sn_conns n)\<rparr>"

text \<open>The handshake is done: \<open>run\<close> admits the peer or closes the connection.\<close>

definition accept_conn ::
  "nat \<Rightarrow> nat \<Rightarrow> 'id \<Rightarrow> NetPath list \<Rightarrow> ('id, 'sock) ServeNode \<Rightarrow>
     'sock serve_act list \<times> ('id, 'sock) ServeNode" where
  "accept_conn now k peer paths n =
     (if \<not> admits (cfg_now n) peer then ([CloseConn k REFUSED (lit ''not allowlisted'')], n)
      else
        ([], put_conn k
               \<lparr>cn_peer = peer, cn_phase = Serving, cn_table = fmempty, cn_evict = [],
                cn_udp = [], cn_looked = False\<rparr>
               (n\<lparr>sn_shared := log_selected peer paths (peer_connected now peer (sn_shared n))\<rparr>)))"

text \<open>The first lines of the two tasks \<open>serve_conn\<close> spawns: \<open>shared.subscribe()\<close>.\<close>

definition evict_subscribed :: "nat \<Rightarrow> ('id, 'sock) Conn \<Rightarrow> ('id, 'sock) ServeNode \<Rightarrow> ('id, 'sock) ServeNode" where
  "evict_subscribed k c n = put_conn k (c\<lparr>cn_evict := [cfg_now n]\<rparr>) n"

definition udp_subscribed :: "nat \<Rightarrow> ('id, 'sock) Conn \<Rightarrow> ('id, 'sock) ServeNode \<Rightarrow> ('id, 'sock) ServeNode" where
  "udp_subscribed k c n = put_conn k (c\<lparr>cn_udp := [cfg_now n]\<rparr>) n"

text \<open>One turn of the eviction task, and of the pump, on a change.\<close>

definition evict_look ::
  "nat \<Rightarrow> ('id, 'sock) Conn \<Rightarrow> ('id, 'sock) ServeNode \<Rightarrow> 'sock serve_act list \<times> ('id, 'sock) ServeNode"
where
  "evict_look k c n =
     (case evict_when_revoked (cn_peer c) [Some (cfg_now n)] of
        Evicted code why \<Rightarrow> ([CloseConn k code why], put_conn k (c\<lparr>cn_phase := Closing code why\<rparr>) n)
      | _ \<Rightarrow> ([], put_conn k (c\<lparr>cn_evict := [cfg_now n], cn_looked := True\<rparr>) n))"

definition udp_look :: "nat \<Rightarrow> ('id, 'sock) Conn \<Rightarrow> ('id, 'sock) ServeNode \<Rightarrow> ('id, 'sock) ServeNode" where
  "udp_look k c n =
     put_conn k
       (c\<lparr>cn_table := udp_changed (cfg_now n) (cn_peer c) (cn_table c), cn_udp := [cfg_now n]\<rparr>) n"

text \<open>The end of \<open>serve_conn\<close> and of the task around it, when \<open>accept_bi\<close> fails.\<close>

definition conn_ended :: "nat \<Rightarrow> ('id, 'sock) Conn \<Rightarrow> ('id, 'sock) ServeNode \<Rightarrow> ('id, 'sock) ServeNode" where
  "conn_ended k c n =
     put_conn k (c\<lparr>cn_phase := Ended, cn_table := fmempty\<rparr>)
       (n\<lparr>sn_shared := peer_disconnected (cn_peer c) (sn_shared n)\<rparr>)"

definition with_table :: "nat \<Rightarrow> ('id, 'sock) Conn \<Rightarrow> 'sock serve_table \<Rightarrow> ('id, 'sock) ServeNode \<Rightarrow> ('id, 'sock) ServeNode" where
  "with_table k c t n = put_conn k (c\<lparr>cn_table := t\<rparr>) n"

definition session_at :: "('id, 'sock) ServeNode \<Rightarrow> nat \<Rightarrow> u32 \<Rightarrow> 'sock \<Rightarrow> bool" where
  "session_at n k i sock \<longleftrightarrow>
     (\<exists>c s. fmlookup (sn_conns n) k = Some c \<and> fmlookup (cn_table c) i = Some s \<and> ss_sock s = sock)"

definition sock_in_use :: "('id, 'sock) ServeNode \<Rightarrow> 'sock \<Rightarrow> bool" where
  "sock_in_use n sock \<longleftrightarrow> (\<exists>k i. session_at n k i sock)"

text \<open>
  One step of the node: an edit of the configuration, or a turn of one of its tasks. Everything
  outside is arbitrary (errors are their messages, a stream is the bytes it still has): when a task
  runs, what a peer sends, what a socket operation returns, with one fact of the operating system,
  that a socket it binds is not one that is already open. The tasks of a connection are spawned, so
  they subscribe at some time after the admission. Stream tasks are not aborted with the
  connection, so a stream step has no condition on the phase.
\<close>

inductive serve_step ::
  "('id, 'sock) ServeNode \<Rightarrow> 'sock serve_act list \<Rightarrow> ('id, 'sock) ServeNode \<Rightarrow> bool" where
  Edit: "mutate to_toml os f (sn_shared n, files) = (r :: 'id error + unit, s', files') \<Longrightarrow>
     serve_step n [] (publish s' n)"
| Accept: "fmlookup (sn_conns n) k = None \<Longrightarrow> accept_conn now k peer paths n = (acts, n') \<Longrightarrow>
     serve_step n acts n'"
| EvictSubscribe: "fmlookup (sn_conns n) k = Some c \<Longrightarrow> cn_phase c = Serving \<Longrightarrow> cn_evict c = [] \<Longrightarrow>
     serve_step n [] (evict_subscribed k c n)"
| UdpSubscribe: "fmlookup (sn_conns n) k = Some c \<Longrightarrow> cn_phase c \<noteq> Ended \<Longrightarrow> cn_udp c = [] \<Longrightarrow>
     serve_step n [] (udp_subscribed k c n)"
| EvictLook: "fmlookup (sn_conns n) k = Some c \<Longrightarrow> cn_phase c = Serving \<Longrightarrow> 2 \<le> length (cn_evict c) \<Longrightarrow>
     evict_look k c n = (acts, n') \<Longrightarrow> serve_step n acts n'"
| UdpLook: "fmlookup (sn_conns n) k = Some c \<Longrightarrow> cn_phase c \<noteq> Ended \<Longrightarrow> 2 \<le> length (cn_udp c) \<Longrightarrow>
     serve_step n [] (udp_look k c n)"
| Stream: "fmlookup (sn_conns n) k = Some c \<Longrightarrow>
     serve_stream read_exact (tcp_connect :: u16 \<Rightarrow> rstring + nat) copy (cfg_now n) (cn_peer c)
       (st :: u8 list) = (r, acts) \<Longrightarrow>
     serve_step n (map (StreamAct k) acts) n"
| Datagram: "fmlookup (sn_conns n) k = Some c \<Longrightarrow> cn_phase c \<noteq> Ended \<Longrightarrow> cn_udp c \<noteq> [] \<Longrightarrow>
     (\<And>sock. (bind :: rstring + 'sock) = Inr sock \<Longrightarrow> \<not> sock_in_use n sock) \<Longrightarrow>
     serve_datagram bind connect send now (cfg_now n) (cn_peer c) dg (cn_table c) = (r, acts, t') \<Longrightarrow>
     serve_step n (map (UdpAct k) acts) (with_table k c t' n)"
| Reply: "fmlookup (sn_conns n) k = Some c \<Longrightarrow> cn_phase c \<noteq> Ended \<Longrightarrow>
     serve_reply now i (recv :: rstring + u8 list) (cn_table c) = (out, t') \<Longrightarrow>
     serve_step n (case out of None \<Rightarrow> [] | Some dg \<Rightarrow> [SendBack k dg]) (with_table k c t' n)"
| ReapTick: "fmlookup (sn_conns n) k = Some c \<Longrightarrow> cn_phase c \<noteq> Ended \<Longrightarrow>
     serve_step n [] (with_table k c (serve_reap now (cn_table c)) n)"
| Path: "fmlookup (sn_conns n) k = Some c \<Longrightarrow>
     report_turn (cn_peer c) ev (sn_shared n) = Some s' \<Longrightarrow> serve_step n [] (n\<lparr>sn_shared := s'\<rparr>)"
| End: "fmlookup (sn_conns n) k = Some c \<Longrightarrow> cn_phase c \<noteq> Ended \<Longrightarrow>
     serve_step n [] (conn_ended k c n)"

inductive serve_run ::
  "('id, 'sock) ServeNode \<Rightarrow> 'sock serve_act list \<Rightarrow> ('id, 'sock) ServeNode \<Rightarrow> bool"
  for n0 :: "('id, 'sock) ServeNode" where
  start: "serve_run n0 [] n0"
| more: "serve_run n0 tr n \<Longrightarrow> serve_step n acts n' \<Longrightarrow> serve_run n0 (tr @ acts) n'"

section \<open>The invariant\<close>

lemma put_conn_simps [simp]:
  "sn_shared (put_conn k c n) = sn_shared n"
  "fmlookup (sn_conns (put_conn k c n)) j = (if j = k then Some c else fmlookup (sn_conns n) j)"
  "sn_shared (with_table k c t n) = sn_shared n"
  "fmlookup (sn_conns (with_table k c t n)) j =
     (if j = k then Some (c\<lparr>cn_table := t\<rparr>) else fmlookup (sn_conns n) j)"
  by (simp_all add: put_conn_def with_table_def)

text \<open>Of one connection, given the current configuration.\<close>

definition conn_ok :: "'id Config \<Rightarrow> ('id, 'sock) Conn \<Rightarrow> bool" where
  "conn_ok cfg c \<longleftrightarrow>
     (cn_evict c \<noteq> [] \<longrightarrow> last (cn_evict c) = cfg) \<and> (cn_udp c \<noteq> [] \<longrightarrow> last (cn_udp c) = cfg) \<and>
     (cn_looked c \<longrightarrow> cn_evict c \<noteq> []) \<and>
     (cn_phase c = Serving \<longrightarrow> cn_looked c \<longrightarrow> admits (hd (cn_evict c)) (cn_peer c)) \<and>
     (\<forall>i s. fmlookup (cn_table c) i = Some s \<longrightarrow>
        (\<exists>d \<in> set (cn_udp c). (Udp, ss_port s) \<in> rights d (cn_peer c)))"

text \<open>No socket serves two sessions, of one connection or of two.\<close>

definition socks_distinct :: "('id, 'sock) ServeNode \<Rightarrow> bool" where
  "socks_distinct n \<longleftrightarrow>
     (\<forall>sock k i k' i'. session_at n k i sock \<longrightarrow> session_at n k' i' sock \<longrightarrow> k = k' \<and> i = i')"

text \<open>The panel's peers have a connection that has not ended.\<close>

definition live_ok :: "('id, 'sock) ServeNode \<Rightarrow> bool" where
  "live_ok n \<longleftrightarrow>
     (\<forall>p. fmlookup (live_of (sn_shared n)) p \<noteq> None \<longrightarrow>
        (\<exists>k c. fmlookup (sn_conns n) k = Some c \<and> cn_peer c = p \<and> cn_phase c \<noteq> Ended))"

definition conns_ok :: "('id, 'sock) ServeNode \<Rightarrow> bool" where
  "conns_ok n \<longleftrightarrow> (\<forall>k c. fmlookup (sn_conns n) k = Some c \<longrightarrow> conn_ok (cfg_now n) c)"

lemma conns_okD: "conns_ok n \<Longrightarrow> fmlookup (sn_conns n) k = Some c \<Longrightarrow> conn_ok (cfg_now n) c"
  by (simp add: conns_ok_def)

lemma conns_ok_put:
  assumes "conns_ok n" and "conn_ok (cfg_now n) c'"
  shows "conns_ok (put_conn k c' n)"
  using assms by (auto simp: conns_ok_def split: if_splits)

lemma conns_ok_shared:
  "sh_cfg s = cfg_now n \<Longrightarrow> conns_ok (n\<lparr>sn_shared := s\<rparr>) \<longleftrightarrow> conns_ok n"
  by (simp add: conns_ok_def)

text \<open>
  A new table keeps \<open>conn_ok\<close> when each of its sessions is an old one or was just granted.
\<close>

lemma conn_ok_table:
  assumes "conn_ok cfg c"
    and "\<And>i s'. fmlookup t' i = Some s' \<Longrightarrow>
      (\<exists>s. fmlookup (cn_table c) i = Some s \<and> ss_port s' = ss_port s) \<or>
      cn_udp c \<noteq> [] \<and> (Udp, ss_port s') \<in> rights cfg (cn_peer c)"
  shows "conn_ok cfg (c\<lparr>cn_table := t'\<rparr>)"
proof -
  have "\<exists>d \<in> set (cn_udp c). (Udp, ss_port s') \<in> rights d (cn_peer c)"
    if "fmlookup t' i = Some s'" for i s'
    using assms(2) [OF that]
  proof
    assume "\<exists>s. fmlookup (cn_table c) i = Some s \<and> ss_port s' = ss_port s"
    then show ?thesis using assms(1) unfolding conn_ok_def by metis
  next
    assume udp: "cn_udp c \<noteq> [] \<and> (Udp, ss_port s') \<in> rights cfg (cn_peer c)"
    then have "cfg \<in> set (cn_udp c)"
      using assms(1) unfolding conn_ok_def by (metis last_in_set)
    with udp show ?thesis by blast
  qed
  then show ?thesis using assms(1) by (simp add: conn_ok_def)
qed

lemma with_table_put: "with_table k c t n = put_conn k (c\<lparr>cn_table := t\<rparr>) n"
  by (simp add: with_table_def)

lemma serve_reply_table:
  assumes "serve_reply now i recv t = (out, t')" and "fmlookup t' j = Some s'"
  shows "\<exists>s. fmlookup t j = Some s \<and> ss_sock s' = ss_sock s \<and> ss_port s' = ss_port s"
  using assms by (auto simp: serve_reply_def serve_touch_def split: option.splits sum.splits if_splits)

lemma serve_reap_table: "fmlookup (serve_reap now t) j = Some s \<Longrightarrow> fmlookup t j = Some s"
  by (simp add: serve_reap_def hm_retain_Some)

lemma udp_changed_table:
  "fmlookup (udp_changed cfg peer t) j = Some s \<longleftrightarrow>
     fmlookup t j = Some s \<and> (Udp, ss_port s) \<in> rights cfg peer"
  by (simp add: udp_changed_def drop_ungranted_def hm_retain_Some grant_list_iff)

lemma conns_ok_step: "serve_step n acts n' \<Longrightarrow> conns_ok n \<Longrightarrow> conns_ok n'"
proof (induction rule: serve_step.induct)
  case (Edit to_toml os f n files r s' files')
  have "conn_ok (sh_cfg s') (c\<lparr>cn_evict := pending (cn_evict c) (sh_cfg s'), cn_udp := pending (cn_udp c) (sh_cfg s')\<rparr>)"
    if "conn_ok (cfg_now n) c" for c
    using that unfolding conn_ok_def pending_def by auto
  then show ?case using Edit.prems by (auto simp: conns_ok_def publish_def)
next
  case (Accept n k now peer paths acts n')
  then show ?case
    by (auto simp: accept_conn_def conn_ok_def conns_ok_shared intro!: conns_ok_put split: if_splits)
next
  case (EvictSubscribe n k c)
  then have "conn_ok (cfg_now n) c" by (simp add: conns_okD)
  with EvictSubscribe show ?case
    by (auto simp: evict_subscribed_def conn_ok_def intro!: conns_ok_put)
next
  case (UdpSubscribe n k c)
  then have "conn_ok (cfg_now n) c" by (simp add: conns_okD)
  with UdpSubscribe show ?case
    by (auto simp: udp_subscribed_def conn_ok_def intro!: conns_ok_put)
next
  case (EvictLook n k c acts n')
  have "conn_ok (cfg_now n) c" using EvictLook by (simp add: conns_okD)
  with EvictLook show ?case
    by (auto simp: evict_look_def conn_ok_def intro!: conns_ok_put split: if_splits)
next
  case (UdpLook n k c)
  then have "conn_ok (cfg_now n) c" by (simp add: conns_okD)
  with UdpLook show ?case
    by (auto simp: udp_look_def conn_ok_def udp_changed_table intro!: conns_ok_put)
next
  case (Datagram n k c bind connect send now dg r acts t')
  then have "conn_ok (cfg_now n) c" by (simp add: conns_okD)
  then have "conn_ok (cfg_now n) (c\<lparr>cn_table := t'\<rparr>)"
    using serve_datagram_table [OF Datagram.hyps(5)] Datagram.hyps(3) by (intro conn_ok_table) blast+
  with Datagram show ?case by (simp add: with_table_put conns_ok_put)
next
  case (Reply n k c now i recv out t')
  then have "conn_ok (cfg_now n) c" by (simp add: conns_okD)
  then have "conn_ok (cfg_now n) (c\<lparr>cn_table := t'\<rparr>)"
    using serve_reply_table [OF Reply.hyps(3)] by (intro conn_ok_table) blast+
  with Reply show ?case by (simp add: with_table_put conns_ok_put)
next
  case (ReapTick n k c now)
  then have "conn_ok (cfg_now n) c" by (simp add: conns_okD)
  then have "conn_ok (cfg_now n) (c\<lparr>cn_table := serve_reap now (cn_table c)\<rparr>)"
    using serve_reap_table by (intro conn_ok_table) blast+
  with ReapTick show ?case by (simp add: with_table_put conns_ok_put)
next
  case (Path n k c ev s')
  then show ?case using report_turn_frame [OF Path.hyps(2)] by (simp add: conns_ok_shared)
next
  case (End n k c)
  then have "conn_ok (cfg_now n) c" by (simp add: conns_okD)
  then have "conn_ok (cfg_now n) (c\<lparr>cn_phase := Ended, cn_table := fmempty\<rparr>)"
    by (simp add: conn_ok_def)
  with End show ?case by (simp add: conn_ended_def conns_ok_put conns_ok_shared)
qed simp

lemma socks_distinct_put:
  assumes "socks_distinct n"
    and "\<And>i s'. fmlookup (cn_table c') i = Some s' \<Longrightarrow>
      session_at n k i (ss_sock s') \<or> (i = i0 \<and> ss_sock s' = sock0 \<and> \<not> sock_in_use n sock0)"
  shows "socks_distinct (put_conn k c' n)"
proof -
  have at: "session_at n j i sock \<or> (j = k \<and> i = i0 \<and> sock = sock0 \<and> \<not> sock_in_use n sock0)"
    if "session_at (put_conn k c' n) j i sock" for j i sock
  proof (cases "j = k")
    case True
    with that obtain s where "fmlookup (cn_table c') i = Some s" "ss_sock s = sock"
      by (auto simp: session_at_def)
    with assms(2) [of i s] True show ?thesis by auto
  next
    case False
    with that show ?thesis by (simp add: session_at_def)
  qed
  show ?thesis
    unfolding socks_distinct_def
  proof (intro allI impI)
    fix sock j i j' i'
    assume "session_at (put_conn k c' n) j i sock" "session_at (put_conn k c' n) j' i' sock"
    then have "session_at n j i sock \<or> (j = k \<and> i = i0 \<and> sock = sock0 \<and> \<not> sock_in_use n sock0)"
      and "session_at n j' i' sock \<or> (j' = k \<and> i' = i0 \<and> sock = sock0 \<and> \<not> sock_in_use n sock0)"
      by (simp_all add: at)
    then show "j = j' \<and> i = i'"
      using assms(1) unfolding sock_in_use_def socks_distinct_def by metis
  qed
qed

lemma socks_distinct_same:
  assumes "socks_distinct n" and "fmlookup (sn_conns n) k = Some c"
    and "\<And>i s'. fmlookup (cn_table c') i = Some s' \<Longrightarrow>
      \<exists>s. fmlookup (cn_table c) i = Some s \<and> ss_sock s' = ss_sock s"
  shows "socks_distinct (put_conn k c' n)"
proof -
  have "session_at n k i (ss_sock s')" if "fmlookup (cn_table c') i = Some s'" for i s'
    using assms(2) assms(3) [OF that] by (auto simp: session_at_def)
  then show ?thesis by (intro socks_distinct_put [OF assms(1)]) blast
qed

lemma socks_distinct_step: "serve_step n acts n' \<Longrightarrow> socks_distinct n \<Longrightarrow> socks_distinct n'"
proof (induction rule: serve_step.induct)
  case (Edit to_toml os f n files r s' files')
  have "session_at (publish s' n) k i sock \<longleftrightarrow> session_at n k i sock" for k i sock
    by (auto simp: session_at_def publish_def)
  with Edit.prems show ?case by (simp add: socks_distinct_def)
next
  case (Accept n k now peer paths acts n')
  have "socks_distinct (n\<lparr>sn_shared := s\<rparr>)" for s
    using Accept.prems by (simp add: socks_distinct_def session_at_def)
  with Accept show ?case
    by (auto simp: accept_conn_def intro!: socks_distinct_put split: if_splits)
next
  case (EvictSubscribe n k c)
  then show ?case by (auto simp: evict_subscribed_def intro!: socks_distinct_same)
next
  case (UdpSubscribe n k c)
  then show ?case by (auto simp: udp_subscribed_def intro!: socks_distinct_same)
next
  case (EvictLook n k c acts n')
  then show ?case
    by (auto simp: evict_look_def intro!: socks_distinct_same split: if_splits)
next
  case (UdpLook n k c)
  then show ?case
    by (auto simp: udp_look_def udp_changed_table intro!: socks_distinct_same)
next
  case (Datagram n k c bind connect send now dg r acts t')
  show ?case
    unfolding with_table_put
  proof (rule socks_distinct_put [OF Datagram.prems])
    fix i s'
    assume "fmlookup (cn_table (c\<lparr>cn_table := t'\<rparr>)) i = Some s'"
    then have "fmlookup t' i = Some s'" by simp
    from serve_datagram_table [OF Datagram.hyps(5) this]
    show "session_at n k i (ss_sock s') \<or>
        (i = fst (the (decode_datagram dg)) \<and> ss_sock s' = projr bind \<and> \<not> sock_in_use n (projr bind))"
      using Datagram.hyps(1,4) by (auto simp: session_at_def)
  qed
next
  case (Reply n k c now i recv out t')
  show ?case
    unfolding with_table_put
    by (rule socks_distinct_same [OF Reply.prems Reply.hyps(1)])
       (use serve_reply_table [OF Reply.hyps(3)] in auto)
next
  case (ReapTick n k c now)
  show ?case
    unfolding with_table_put
    by (rule socks_distinct_same [OF ReapTick.prems ReapTick.hyps(1)])
       (use serve_reap_table in fastforce)
next
  case (Path n k c ev s')
  then show ?case by (simp add: socks_distinct_def session_at_def)
next
  case (End n k c)
  have "socks_distinct (n\<lparr>sn_shared := s\<rparr>)" for s
    using End.prems by (simp add: socks_distinct_def session_at_def)
  then show ?case by (auto simp: conn_ended_def intro!: socks_distinct_put)
qed simp

lemma live_ok_put:
  assumes "live_ok n" and "fmlookup (sn_conns n) k = Some c"
    and "cn_peer c' = cn_peer c" and "cn_phase c \<noteq> Ended \<Longrightarrow> cn_phase c' \<noteq> Ended"
  shows "live_ok (put_conn k c' n)"
  unfolding live_ok_def
proof (intro allI impI)
  fix p
  assume "fmlookup (live_of (sn_shared (put_conn k c' n))) p \<noteq> None"
  then obtain j d where d: "fmlookup (sn_conns n) j = Some d" "cn_peer d = p" "cn_phase d \<noteq> Ended"
    using assms(1) unfolding live_ok_def put_conn_simps by blast
  show "\<exists>j d. fmlookup (sn_conns (put_conn k c' n)) j = Some d \<and> cn_peer d = p \<and> cn_phase d \<noteq> Ended"
  proof (cases "j = k")
    case True
    with d assms(2-4) show ?thesis by (intro exI [of _ k] exI [of _ c']) simp
  next
    case False
    with d show ?thesis by (intro exI [of _ j] exI [of _ d]) simp
  qed
qed

lemma live_ok_step: "serve_step n acts n' \<Longrightarrow> live_ok n \<Longrightarrow> live_ok n'"
proof (induction rule: serve_step.induct)
  case (Edit to_toml os f n files r s' files')
  then show ?case using mutate_frame [OF Edit.hyps] by (fastforce simp: live_ok_def publish_def)
next
  case (Accept n k now peer paths acts n')
  show ?case
  proof (cases "admits (cfg_now n) peer")
    case True
    have "\<exists>j c. fmlookup (sn_conns n') j = Some c \<and> cn_peer c = p \<and> cn_phase c \<noteq> Ended"
      if "fmlookup (live_of (sn_shared n')) p \<noteq> None" for p
    proof (cases "p = peer")
      case True
      with \<open>admits (cfg_now n) peer\<close> Accept.hyps show ?thesis
        by (auto simp: accept_conn_def intro!: exI [of _ k])
    next
      case False
      have "fmdom (live_of (sn_shared n')) = fmdom (live_of (peer_connected now peer (sn_shared n)))"
        using \<open>admits (cfg_now n) peer\<close> Accept.hyps by (auto simp: accept_conn_def log_selected_dom)
      with that have "fmlookup (live_of (peer_connected now peer (sn_shared n))) p \<noteq> None"
        by (metis fmdom_notD fmdom_notI)
      with False have "fmlookup (live_of (sn_shared n)) p \<noteq> None"
        by (auto simp: peer_connected_def split: option.splits)
      then obtain j c where "fmlookup (sn_conns n) j = Some c" "cn_peer c = p" "cn_phase c \<noteq> Ended"
        using Accept.prems unfolding live_ok_def by blast
      then show ?thesis
        using True Accept.hyps by (auto simp: accept_conn_def intro!: exI [of _ j] split: if_splits)
    qed
    then show ?thesis unfolding live_ok_def by blast
  next
    case False
    with Accept show ?thesis by (simp add: accept_conn_def)
  qed
next
  case (End n k c)
  have "\<exists>j d. fmlookup (sn_conns (conn_ended k c n)) j = Some d \<and> cn_peer d = p \<and> cn_phase d \<noteq> Ended"
    if "fmlookup (live_of (sn_shared (conn_ended k c n))) p \<noteq> None" for p
  proof -
    from that have p: "p \<noteq> cn_peer c" and "fmlookup (live_of (sn_shared n)) p \<noteq> None"
      by (auto simp: conn_ended_def peer_disconnected_def split: if_splits)
    then obtain j d where "fmlookup (sn_conns n) j = Some d" "cn_peer d = p" "cn_phase d \<noteq> Ended"
      using End.prems unfolding live_ok_def by blast
    with p End.hyps show ?thesis by (auto simp: conn_ended_def intro!: exI [of _ j])
  qed
  then show ?case unfolding live_ok_def by blast
next
  case (Path n k c ev s')
  have "fmlookup (live_of s') p \<noteq> None \<longleftrightarrow> fmlookup (live_of (sn_shared n)) p \<noteq> None" for p
    using report_turn_frame [OF Path.hyps(2)] by (metis fmdom_notD fmdom_notI)
  then show ?case using Path.prems by (simp add: live_ok_def)
next
  case (EvictSubscribe n k c)
  then show ?case by (auto simp: evict_subscribed_def intro!: live_ok_put)
next
  case (UdpSubscribe n k c)
  then show ?case by (auto simp: udp_subscribed_def intro!: live_ok_put)
next
  case (EvictLook n k c acts n')
  then show ?case by (auto simp: evict_look_def intro!: live_ok_put split: if_splits)
next
  case (UdpLook n k c)
  then show ?case by (auto simp: udp_look_def intro!: live_ok_put)
next
  case (Datagram n k c bind connect send now dg r acts t')
  then show ?case by (auto simp: with_table_put intro!: live_ok_put)
next
  case (Reply n k c now i recv out t')
  then show ?case by (auto simp: with_table_put intro!: live_ok_put)
next
  case (ReapTick n k c now)
  then show ?case by (auto simp: with_table_put intro!: live_ok_put)
qed simp

section \<open>Reachable states\<close>

lemma serve_start_inv:
  "conns_ok (serve_start s)" "socks_distinct (serve_start s)"
  by (simp_all add: serve_start_def conns_ok_def socks_distinct_def session_at_def)

lemma serve_run_inv: "serve_run (serve_start s) tr n \<Longrightarrow> conns_ok n \<and> socks_distinct n"
  by (induction rule: serve_run.induct) (auto simp: serve_start_inv conns_ok_step socks_distinct_step)

lemma serve_run_live: "serve_run (serve_start s) tr n \<Longrightarrow> live_of s = fmempty \<Longrightarrow> live_ok n"
proof (induction rule: serve_run.induct)
  case start
  then show ?case by (simp add: live_ok_def serve_start_def)
next
  case (more tr n acts n')
  then show ?case by (simp add: live_ok_step)
qed

text \<open>
  C2: no payload reaches a local UDP service the peer was not granted. Whatever has happened since
  the node started, a payload handed to a socket belongs to a session of the connection it came
  over, and the port of that session is granted by one of the configurations that have been current
  since the pump last applied a change; when none was published since, that is the one in force.
\<close>
theorem udp_delivery_authorised:
  assumes "serve_run (serve_start s) tr n" and "serve_step n acts n'"
    and "UdpAct k (UdpSend sock x) \<in> set acts"
  shows "\<exists>c i ses. fmlookup (sn_conns n') k = Some c \<and> fmlookup (cn_table c) i = Some ses \<and>
           ss_sock ses = sock \<and> (\<exists>d \<in> set (cn_udp c). (Udp, ss_port ses) \<in> rights d (cn_peer c)) \<and>
           (cn_udp c = [cfg_now n'] \<longrightarrow> (Udp, ss_port ses) \<in> rights (cfg_now n') (cn_peer c))"
proof -
  have ok': "conns_ok n'" using serve_run_inv [OF assms(1)] conns_ok_step [OF assms(2)] by simp
  from assms(2,3) show ?thesis
  proof (cases rule: serve_step.cases)
    case (Datagram k' c bind connect send now dg r uacts t')
    then have "k' = k" "UdpSend sock x \<in> set uacts" using assms(3) by auto
    with serve_datagram_send [OF Datagram(7)] obtain i ses
      where ses: "fmlookup t' i = Some ses" "ss_sock ses = sock" by blast
    have c': "fmlookup (sn_conns n') k = Some (c\<lparr>cn_table := t'\<rparr>)"
      using Datagram(2) \<open>k' = k\<close> by simp
    have "\<exists>d \<in> set (cn_udp c). (Udp, ss_port ses) \<in> rights d (cn_peer c)"
      using conns_okD [OF ok' c'] ses by (simp add: conn_ok_def)
    with c' ses show ?thesis by (intro exI [of _ "c\<lparr>cn_table := t'\<rparr>"] exI [of _ i] exI [of _ ses]) auto
  qed (auto simp: accept_conn_def evict_look_def split: if_splits option.splits)
qed

text \<open>The run of the examples: peer 1 connects under \<open>dns_config\<close> and sends one datagram.\<close>

definition dns_shared :: "nat Shared" where
  "dns_shared = shared_new dns_config [lit ''config.toml''] RoleServe 0"

definition dns_conn :: "(nat, nat) Conn" where
  "dns_conn = \<lparr>cn_peer = 1, cn_phase = Serving, cn_table = fmempty, cn_evict = [dns_config],
     cn_udp = [dns_config], cn_looked = False\<rparr>"

definition dns_fresh :: "(nat, nat) Conn" where
  "dns_fresh = dns_conn\<lparr>cn_evict := [], cn_udp := []\<rparr>"

definition dns_base :: "(nat, nat) ServeNode" where
  "dns_base = (serve_start dns_shared)\<lparr>sn_shared := peer_connected 3 1 dns_shared\<rparr>"

definition dns_node :: "(nat, nat) ServeNode" where
  "dns_node = put_conn 0 dns_conn dns_base"

definition dns_table :: "nat serve_table" where
  "dns_table = fmupd 4 \<lparr>ss_sock = 7, ss_reply = True, ss_last = 5, ss_port = 53\<rparr> fmempty"

lemma dns_cfg [simp]: "sh_cfg dns_shared = dns_config" "cfg_now dns_node = dns_config"
  "cfg_now dns_base = dns_config"
  by (simp_all add: dns_shared_def shared_new_def dns_node_def dns_base_def)

lemma put_conn_twice: "put_conn k c (put_conn k d n) = put_conn k c n"
  by (auto simp: put_conn_def intro: fmap_ext)

lemma dns_admits: "admits dns_config 1"
  using policy.right_admit [of "(Udp, 53)" dns_config 1] dns_config_rights by simp

lemma dns_accept: "accept_conn 3 0 1 [] (serve_start dns_shared) = ([], put_conn 0 dns_fresh dns_base)"
  using dns_admits
  by (simp add: accept_conn_def log_selected_def dns_fresh_def dns_conn_def dns_base_def serve_start_def)

lemma dns_accept_run: "serve_run (serve_start dns_shared) [] (put_conn 0 dns_fresh dns_base)"
proof -
  have "serve_step (serve_start dns_shared) [] (put_conn 0 dns_fresh dns_base)"
    by (rule serve_step.Accept [OF _ dns_accept]) (simp add: serve_start_def)
  from serve_run.more [OF serve_run.start this] show ?thesis by simp
qed

lemma subscribe_run:
  assumes "serve_run n0 tr n" and "fmlookup (sn_conns n) k = Some c" and "cn_phase c = Serving"
    and "cn_evict c = []" and "cn_udp c = []"
  shows "serve_run n0 tr (put_conn k (c\<lparr>cn_evict := [cfg_now n], cn_udp := [cfg_now n]\<rparr>) n)"
proof -
  let ?c1 = "c\<lparr>cn_evict := [cfg_now n]\<rparr>"
  have "serve_step n [] (put_conn k ?c1 n)"
    using serve_step.EvictSubscribe [OF assms(2-4)] by (simp add: evict_subscribed_def)
  from serve_run.more [OF assms(1) this] have run1: "serve_run n0 tr (put_conn k ?c1 n)" by simp
  have "serve_step (put_conn k ?c1 n) [] (udp_subscribed k ?c1 (put_conn k ?c1 n))"
    by (rule serve_step.UdpSubscribe) (simp_all add: assms)
  from serve_run.more [OF run1 this] show ?thesis
    by (simp add: udp_subscribed_def put_conn_twice)
qed

lemma dns_run: "serve_run (serve_start dns_shared) [] dns_node"
  using subscribe_run [OF dns_accept_run, of 0 dns_fresh]
  by (simp add: dns_fresh_def dns_conn_def dns_node_def put_conn_twice)

lemma dns_session_at: "\<not> sock_in_use dns_node sock"
  by (auto simp: sock_in_use_def session_at_def dns_node_def dns_conn_def dns_base_def serve_start_def split: if_splits)

lemma dns_step:
  "serve_step dns_node [UdpAct 0 (UdpBind 7), UdpAct 0 (UdpConnect 7 53), UdpAct 0 (UdpSend 7 [9])]
     (with_table 0 dns_conn dns_table dns_node)"
proof -
  have "serve_datagram (Inr 7) (\<lambda>_ _. Inr ()) (\<lambda>_ _. Inr ()) 5 (cfg_now dns_node) (cn_peer dns_conn)
      (encode_datagram 4 53 [9]) (cn_table dns_conn) =
      (Delivered, [UdpBind 7, UdpConnect 7 53, UdpSend 7 [9]], dns_table)"
    by (simp add: serve_datagram_def grant_list_iff dns_conn_def dns_config_rights serve_touch_def
        open_session_def send_local_def dns_table_def)
  from serve_step.Datagram [OF _ _ _ _ this] show ?thesis
    by (simp add: dns_session_at) (simp add: dns_node_def dns_conn_def)
qed

theorem udp_delivery_authorised_witness:
  "\<exists>c i ses. fmlookup (sn_conns (with_table 0 dns_conn dns_table dns_node)) 0 = Some c \<and>
     fmlookup (cn_table c) i = Some ses \<and> ss_sock ses = 7 \<and>
     (\<exists>d \<in> set (cn_udp c). (Udp, ss_port ses) \<in> rights d (cn_peer c)) \<and>
     (cn_udp c = [cfg_now (with_table 0 dns_conn dns_table dns_node)] \<longrightarrow>
        (Udp, ss_port ses) \<in> rights (cfg_now (with_table 0 dns_conn dns_table dns_node)) (cn_peer c))"
  by (rule udp_delivery_authorised [OF dns_run dns_step, where x = "[9]"]) simp

lemma stream_step_connects:
  assumes "serve_step n acts n'" and "StreamAct k (ConnectLocal p) \<in> set acts"
  shows "\<exists>c. fmlookup (sn_conns n) k = Some c \<and> (Tcp, p) \<in> rights (cfg_now n) (cn_peer c) \<and>
           admits (cfg_now n) (cn_peer c)"
  using assms(1)
proof (cases rule: serve_step.cases)
  case (Stream k' c read_exact tcp_connect copy st r sacts)
  then have "k' = k" "ConnectLocal p \<in> set sacts" using assms(2) by auto
  with serve_stream_connects [OF Stream(4)] Stream(3) show ?thesis
    using policy.right_admit [of "(Tcp, p)" "cfg_now n" "cn_peer c"] by blast
qed (use assms(2) in \<open>auto simp: accept_conn_def evict_look_def split: if_splits option.splits\<close>)

text \<open>
  No loopback TCP connection is opened except to a port the configuration in force grants to
  the peer of the connection, over TCP, and then the peer is one it admits.
\<close>
theorem tcp_connect_authorised:
  assumes "serve_step n acts n'" and "StreamAct k (ConnectLocal p) \<in> set acts"
  shows "\<exists>c. fmlookup (sn_conns n) k = Some c \<and> (Tcp, p) \<in> rights (cfg_now n) (cn_peer c) \<and>
           admits (cfg_now n) (cn_peer c)"
  using assms by (rule stream_step_connects)

lemma dns_stream_step:
  "serve_step dns_node [StreamAct 0 (ConnectLocal 8080), StreamAct 0 (CopyBoth 8080)] dns_node"
proof -
  have "serve_stream (\<lambda>s n. Inr (take n s, drop n s)) (\<lambda>_. Inr 0) (\<lambda>_ _. Inr (0, 0)) (cfg_now dns_node)
      (cn_peer dns_conn) (u16_to_be 8080) = (Inr (), [ConnectLocal 8080, CopyBoth 8080])"
    by (simp add: serve_stream_def read_target_port_def be16.to_be_length be16.from_to_be grant_list_iff
        dns_conn_def dns_config_rights)
  from serve_step.Stream [OF _ this] show ?thesis by (simp add: dns_node_def)
qed

theorem tcp_connect_authorised_witness:
  "\<exists>c. fmlookup (sn_conns dns_node) 0 = Some c \<and> (Tcp, 8080) \<in> rights (cfg_now dns_node) (cn_peer c) \<and>
     admits (cfg_now dns_node) (cn_peer c)"
  by (rule tcp_connect_authorised [OF dns_stream_step]) simp



text \<open>
  C16: a revocation reaches the connection. While a connection serves, a change that its eviction
  task has not handled yet can be handled at any time: the task then sees the configuration in
  force, leaves a peer that is still admitted alone and closes one that is not, with code 1. Once
  it has handled one, the peer of a connection that still serves is admitted by what the task saw
  last, which is the configuration in force when nothing is pending.
\<close>
theorem revoked_peer_evicted:
  assumes "serve_run (serve_start s) tr n"
    and "fmlookup (sn_conns n) k = Some c" and "cn_phase c = Serving" and "cn_evict c = seen # later"
  shows "last (seen # later) = cfg_now n \<and> (cn_looked c \<longrightarrow> admits seen (cn_peer c)) \<and>
         (later \<noteq> [] \<longrightarrow>
            (if admits (cfg_now n) (cn_peer c)
             then serve_step n [] (put_conn k (c\<lparr>cn_evict := [cfg_now n], cn_looked := True\<rparr>) n)
             else serve_step n [CloseConn k REFUSED (lit ''access revoked'')]
                    (put_conn k (c\<lparr>cn_phase := Closing REFUSED (lit ''access revoked'')\<rparr>) n)))"
proof -
  have "serve_step n (fst (evict_look k c n)) (snd (evict_look k c n))" if "later \<noteq> []"
    using that assms(2-4) by (intro serve_step.EvictLook) (cases later; simp)+
  moreover have "evict_look k c n =
      (if admits (cfg_now n) (cn_peer c)
       then ([], put_conn k (c\<lparr>cn_evict := [cfg_now n], cn_looked := True\<rparr>) n)
       else ([CloseConn k REFUSED (lit ''access revoked'')],
             put_conn k (c\<lparr>cn_phase := Closing REFUSED (lit ''access revoked'')\<rparr>) n))"
    by (simp add: evict_look_def)
  moreover have "conn_ok (cfg_now n) c"
    using serve_run_inv [OF assms(1)] assms(2) by (simp add: conns_okD)
  ultimately show ?thesis using assms(3,4) by (auto simp: conn_ok_def)
qed

lemma edit_step:
  assumes "config_wf c" and "sh_path (sn_shared n) \<noteq> []"
  shows "serve_step n [] (publish ((sn_shared n)\<lparr>sh_cfg := c\<rparr>) n)"
proof -
  obtain files where "mutate (\<lambda>_. Inr []) (\<lambda>_. None) (\<lambda>_. Inr (c, ())) (sn_shared n, fmempty) =
      (Inr (), (sn_shared n)\<lparr>sh_cfg := c\<rparr>, files)"
    using assms by (simp add: mutate_def save_def validate_ok [THEN iffD2] path_parent_def save_ops_def)
  then show ?thesis by (rule serve_step.Edit)
qed

definition revoked :: "(nat, nat) ServeNode \<Rightarrow> (nat, nat) ServeNode" where
  "revoked n = publish ((sn_shared n)\<lparr>sh_cfg := default_config\<rparr>) n"

lemma revoked_simps [simp]:
  "cfg_now (revoked n) = default_config" "live_of (sn_shared (revoked n)) = live_of (sn_shared n)"
  "fmlookup (sn_conns (revoked n)) k =
     map_option (\<lambda>c. c\<lparr>cn_evict := pending (cn_evict c) default_config,
                       cn_udp := pending (cn_udp c) default_config\<rparr>) (fmlookup (sn_conns n) k)"
  by (simp_all add: revoked_def publish_def)

lemma default_admits [simp]: "\<not> admits default_config i"
  by (simp add: admits_def cfg_peer_def default_config_def)

lemma revoked_run: "serve_run (serve_start dns_shared) [] n \<Longrightarrow> sh_path (sn_shared n) \<noteq> [] \<Longrightarrow>
    serve_run (serve_start dns_shared) [] (revoked n)"
  using serve_run.more [of "serve_start dns_shared" "[]" n "[]"] edit_step [of default_config n]
  by (simp add: revoked_def)

lemma dns_base_path: "sh_path (sn_shared dns_base) \<noteq> []"
  by (simp add: dns_base_def dns_shared_def shared_new_def peer_connected_def split: option.splits)

theorem revoked_peer_evicted_witness:
  "serve_step (revoked dns_node) [CloseConn 0 REFUSED (lit ''access revoked'')]
     (put_conn 0 (dns_conn\<lparr>cn_evict := [dns_config, default_config], cn_udp := [dns_config, default_config],
                           cn_phase := Closing REFUSED (lit ''access revoked'')\<rparr>) (revoked dns_node))"
proof -
  have "serve_run (serve_start dns_shared) [] (revoked dns_node)"
    by (rule revoked_run [OF dns_run]) (simp add: dns_node_def dns_base_path)
  from revoked_peer_evicted [OF this, of 0 "dns_conn\<lparr>cn_evict := [dns_config, default_config],
      cn_udp := [dns_config, default_config]\<rparr>" dns_config "[default_config]"]
  show ?thesis by (simp add: dns_node_def) (simp add: dns_conn_def pending_def)
qed



text \<open>
  When the datagram pump has applied a change, the sessions of the connection are exactly the
  earlier ones whose port the configuration in force still grants the peer; sessions of other
  connections are untouched.
\<close>
theorem udp_look_revokes:
  "(\<exists>d. fmlookup (sn_conns (udp_look k c n)) k = Some d \<and>
      (fmlookup (cn_table d) i = Some ses \<longleftrightarrow>
         fmlookup (cn_table c) i = Some ses \<and> (Udp, ss_port ses) \<in> rights (cfg_now n) (cn_peer c))) \<and>
   fmdrop k (sn_conns (udp_look k c n)) = fmdrop k (sn_conns n)"
  by (auto simp: udp_look_def udp_changed_table intro: fmap_ext)

text \<open>
  The panel never shows a peer that has no connection: in every reachable state a peer of the
  live list has one that has not ended.
\<close>
theorem live_peer_has_connection:
  assumes "serve_run (serve_start s) tr n" and "live_of s = fmempty"
    and "fmlookup (live_of (sn_shared n)) p \<noteq> None"
  shows "\<exists>k c. fmlookup (sn_conns n) k = Some c \<and> cn_peer c = p \<and> cn_phase c \<noteq> Ended"
  using serve_run_live [OF assms(1,2)] assms(3) unfolding live_ok_def by blast

theorem live_peer_has_connection_witness:
  "\<exists>k c. fmlookup (sn_conns dns_node) k = Some c \<and> cn_peer c = 1 \<and> cn_phase c \<noteq> Ended"
  by (rule live_peer_has_connection [OF dns_run])
     (simp_all add: dns_shared_def shared_new_def dns_node_def dns_base_def peer_connected_def)

section \<open>Limits of the guarantees\<close>

text \<open>
  C33: a revocation can be missed: the admission check reads the configuration, the tasks of the
  connection subscribe later, and an edit in between is pending for neither. The connection of a
  peer that is not admitted any more then stays open, and listed, with nothing left to handle.
\<close>
theorem revocation_missed:
  "\<exists>(n :: (nat, nat) ServeNode) c. serve_run (serve_start dns_shared) [] n \<and>
     fmlookup (sn_conns n) 0 = Some c \<and> cn_phase c = Serving \<and>
     cn_evict c = [cfg_now n] \<and> cn_udp c = [cfg_now n] \<and>
     \<not> admits (cfg_now n) (cn_peer c) \<and> fmlookup (live_of (sn_shared n)) (cn_peer c) \<noteq> None"
proof -
  let ?n = "put_conn 0 (dns_fresh\<lparr>cn_evict := [default_config], cn_udp := [default_config]\<rparr>)
      (revoked (put_conn 0 dns_fresh dns_base))"
  have "serve_run (serve_start dns_shared) [] (revoked (put_conn 0 dns_fresh dns_base))"
    by (rule revoked_run [OF dns_accept_run]) (simp add: dns_base_path)
  from subscribe_run [OF this, of 0 dns_fresh]
  have "serve_run (serve_start dns_shared) [] ?n"
    by (simp add: dns_fresh_def dns_conn_def pending_def)
  moreover have "fmlookup (live_of (sn_shared ?n)) 1 \<noteq> None"
    by (simp add: dns_base_def dns_shared_def shared_new_def peer_connected_def)
  ultimately show ?thesis
    by (intro exI [of _ ?n] exI [of _ "dns_fresh\<lparr>cn_evict := [default_config], cn_udp := [default_config]\<rparr>"])
       (simp add: dns_fresh_def dns_conn_def)
qed

text \<open>
  The converse of the last property fails: connections of one peer are not counted, so the end of
  a first one hides a second that is still being served.
\<close>

lemma second_connection_hidden:
  "\<exists>n :: (nat, nat) ServeNode. serve_run (serve_start dns_shared) [] n \<and>
     (\<exists>c. fmlookup (sn_conns n) 1 = Some c \<and> cn_peer c = 1 \<and> cn_phase c = Serving) \<and>
     fmlookup (live_of (sn_shared n)) 1 = None"
proof -
  define n1 where "n1 = snd (accept_conn 4 1 1 [] dns_node)"
  have acc: "accept_conn 4 1 1 [] dns_node = ([], n1)"
    using dns_admits by (simp add: accept_conn_def n1_def)
  have lookups: "fmlookup (sn_conns n1) 0 = Some dns_conn"
    "fmlookup (sn_conns n1) 1 = Some dns_fresh"
    using dns_admits
    by (simp_all add: n1_def accept_conn_def) (simp_all add: dns_node_def dns_fresh_def dns_conn_def)
  have step1: "serve_step dns_node [] n1"
    by (rule serve_step.Accept [OF _ acc]) (simp add: dns_node_def dns_base_def serve_start_def)
  have step2: "serve_step n1 [] (conn_ended 0 dns_conn n1)"
    by (rule serve_step.End [OF lookups(1)]) (simp add: dns_conn_def)
  have "serve_run (serve_start dns_shared) [] (conn_ended 0 dns_conn n1)"
    using serve_run.more [OF serve_run.more [OF dns_run step1] step2] by simp
  moreover have "fmlookup (live_of (sn_shared (conn_ended 0 dns_conn n1))) 1 = None"
    by (simp add: conn_ended_def peer_disconnected_def dns_conn_def)
  moreover have "fmlookup (sn_conns (conn_ended 0 dns_conn n1)) 1 = Some dns_fresh"
    using lookups by (simp add: conn_ended_def)
  ultimately show ?thesis by (intro exI [of _ "conn_ended 0 dns_conn n1"]) (simp add: dns_fresh_def dns_conn_def)
qed

text \<open>
  The grant is checked for the port in the header, the payload goes to the socket of the session:
  a header naming a granted port reaches a session whose port is not granted any more, until the
  pump applies the change.
\<close>

lemma header_port_not_session_port:
  assumes "(Udp, port) \<in> rights cfg peer" and "(Udp, ss_port s) \<notin> rights cfg peer"
    and "fmlookup t i = Some s"
  shows "UdpSend (ss_sock s) x \<in>
    set (fst (snd (serve_datagram bind connect send now cfg peer (encode_datagram i port x) t)))"
  using assms by (simp add: serve_datagram_def grant_list_iff serve_touch_def send_local_def)

text \<open>
  A socket error ends the reply task but not the session: the session keeps taking datagrams, each
  refreshing its timer, while no reply of the service comes back any more.
\<close>

lemma reply_error_silences_session:
  assumes "fmlookup t i = Some s" and "(Udp, port) \<in> rights cfg peer"
    and "snd (serve_reply now i (Inl e) t) = t1"
    and "serve_datagram bind connect (\<lambda>_ _. Inr ()) now' cfg peer (encode_datagram i port x) t1 = (r, acts, t2)"
  shows "r = Delivered \<and> map_option ss_last (fmlookup t2 i) = Some now' \<and>
         serve_reply now'' i (Inr y) t2 = (None, t2)"
proof -
  have "fmlookup t1 i = Some (s\<lparr>ss_reply := False\<rparr>)"
    using assms(1,3) by (cases "ss_reply s") (auto simp: serve_reply_def)
  with assms(2,4) show ?thesis
    by (auto simp: serve_datagram_def grant_list_iff serve_touch_def send_local_def serve_reply_def)
qed

end
