(* ===== verification/Tunnel.thy ===== *)
theory Tunnel
  imports Serve_Side Connect_Side
begin

text \<open>
  Both ends of the UDP path together: the session table of one set of forwarders on the reaching
  side (\<open>pump_udp_out\<close>, \<open>pump_udp_in\<close>), the session table of one connection on the offering side
  (\<open>pump_udp\<close>, \<open>pump_replies\<close>), and the datagrams between them. The network may lose, reorder and
  repeat datagrams, so a direction is the set of datagrams ever sent on it and a receiver may take
  any of them at any time, any number of times.
\<close>

section \<open>State and steps\<close>

text \<open>
  What the outside sees: a packet of a client read by a listener, a payload handed to the local
  service, a packet of a service read from the socket of a session, a payload handed to a client.
\<close>

datatype ('a, 'l, 'sock) wire_event =
    ClientSent 'a u16 "u8 list"
  | ServiceGot 'sock "u8 list"
  | ServiceSent u16 "u8 list"
  | ClientGot 'l 'a "u8 list"

record ('a, 'l, 'sock) Tunnel =
  tn_conn :: "('a, 'l) CSessions"
  tn_serve :: "'sock serve_table"
  tn_up :: "u8 list set"
  tn_down :: "u8 list set"
  tn_log :: "('a, 'l, 'sock) wire_event list"

definition tunnel_start :: "('a, 'l, 'sock) Tunnel" where
  "tunnel_start =
     \<lparr>tn_conn = no_sessions, tn_serve = fmempty, tn_up = {}, tn_down = {}, tn_log = []\<rparr>"

fun service_got :: "'sock udp_act list \<Rightarrow> ('a, 'l, 'sock) wire_event list" where
  "service_got [] = []"
| "service_got (UdpSend sock x # acts) = ServiceGot sock x # service_got acts"
| "service_got (_ # acts) = service_got acts"

definition client_out ::
  "nat \<Rightarrow> 'a \<Rightarrow> 'l \<Rightarrow> PortMap \<Rightarrow> u8 list \<Rightarrow> ('a, 'l, 'sock) Tunnel \<Rightarrow> ('a, 'l, 'sock) Tunnel" where
  "client_out now src l m x s =
     (case udp_out now src l m x (tn_conn s) of
        (dg, t) \<Rightarrow>
          s\<lparr>tn_conn := t, tn_up := tn_up s \<union> set_option dg,
            tn_log := tn_log s @ [ClientSent src (m_remote m) x]\<rparr>)"

definition client_in :: "nat \<Rightarrow> u8 list \<Rightarrow> ('a, 'l, 'sock) Tunnel \<Rightarrow> ('a, 'l, 'sock) Tunnel" where
  "client_in now dg s =
     (case udp_in now dg (tn_conn s) of
        (None, t) \<Rightarrow> s\<lparr>tn_conn := t\<rparr>
      | (Some (l, src, x), t) \<Rightarrow> s\<lparr>tn_conn := t, tn_log := tn_log s @ [ClientGot l src x]\<rparr>)"

definition reply_in ::
  "nat \<Rightarrow> u32 \<Rightarrow> rstring + u8 list \<Rightarrow> ('a, 'l, 'sock) Tunnel \<Rightarrow> ('a, 'l, 'sock) Tunnel" where
  "reply_in now i recv s =
     (case serve_reply now i recv (tn_serve s) of
        (dg, t) \<Rightarrow>
          s\<lparr>tn_serve := t, tn_down := tn_down s \<union> set_option dg,
            tn_log := tn_log s @
              (case (fmlookup (tn_serve s) i, recv) of
                 (Some ses, Inr x) \<Rightarrow> [ServiceSent (ss_port ses) x] | _ \<Rightarrow> [])\<rparr>)"

inductive tunnel_step :: "'id \<Rightarrow> ('a, 'l, 'sock) Tunnel \<Rightarrow> ('a, 'l, 'sock) Tunnel \<Rightarrow> bool"
  for peer :: 'id where
  Out: "tunnel_step peer s (client_out now src l m x s)"
| Arrive: "dg \<in> tn_up s \<Longrightarrow>
     serve_datagram (bind :: rstring + 'sock) connect send now (cfg :: 'id Config) peer dg (tn_serve s) = (r, acts, t) \<Longrightarrow>
     tunnel_step peer s (s\<lparr>tn_serve := t, tn_log := tn_log s @ service_got acts\<rparr>)"
| Reply: "tunnel_step peer s (reply_in now i recv s)"
| Back: "dg \<in> tn_down s \<Longrightarrow> tunnel_step peer s (client_in now dg s)"
| ConnReap: "tunnel_step peer s (s\<lparr>tn_conn := conn_reap now (tn_conn s)\<rparr>)"
| ServeReap: "tunnel_step peer s (s\<lparr>tn_serve := serve_reap now (tn_serve s)\<rparr>)"
| Revoke: "tunnel_step peer s (s\<lparr>tn_serve := udp_changed (cfg :: 'id Config) peer (tn_serve s)\<rparr>)"

inductive tunnel_run :: "'id \<Rightarrow> nat \<Rightarrow> ('a, 'l, 'sock) Tunnel \<Rightarrow> bool" for peer :: 'id where
  start: "tunnel_run peer 0 tunnel_start"
| more: "tunnel_run peer n s \<Longrightarrow> tunnel_step peer s s' \<Longrightarrow> tunnel_run peer (Suc n) s'"

section \<open>Who owns an id\<close>

text \<open>
  The assignment of ids to clients and ports is determined by the run; the invariant says that one
  exists which the two tables and the datagrams in flight agree with.
\<close>

definition owned :: "(u32 \<Rightarrow> ('a \<times> u16) option) \<Rightarrow> ('a, 'l, 'sock) Tunnel \<Rightarrow> bool" where
  "owned own s \<longleftrightarrow>
     sess_ok (tn_conn s) \<and>
     (\<forall>i. own i \<noteq> None \<longrightarrow> i \<le> next_id (tn_conn s)) \<and>
     (\<forall>k i. fmlookup (by_key (tn_conn s)) k = Some i \<longrightarrow> own i = Some k) \<and>
     (\<forall>dg \<in> tn_up s. \<exists>i src port x. dg = encode_datagram i port x \<and> own i = Some (src, port) \<and>
        ClientSent src port x \<in> set (tn_log s)) \<and>
     (\<forall>i ses. fmlookup (tn_serve s) i = Some ses \<longrightarrow> (\<exists>src. own i = Some (src, ss_port ses))) \<and>
     (\<forall>dg \<in> tn_down s. \<exists>i src port x. dg = encode_datagram i port x \<and> own i = Some (src, port) \<and>
        ServiceSent port x \<in> set (tn_log s))"

lemma owned_intro:
  assumes "sess_ok (tn_conn s)"
    and "\<And>i. own i \<noteq> None \<Longrightarrow> i \<le> next_id (tn_conn s)"
    and "\<And>k i. fmlookup (by_key (tn_conn s)) k = Some i \<Longrightarrow> own i = Some k"
    and "\<And>dg. dg \<in> tn_up s \<Longrightarrow> \<exists>i src port x. dg = encode_datagram i port x \<and> own i = Some (src, port) \<and>
        ClientSent src port x \<in> set (tn_log s)"
    and "\<And>i ses. fmlookup (tn_serve s) i = Some ses \<Longrightarrow> \<exists>src. own i = Some (src, ss_port ses)"
    and "\<And>dg. dg \<in> tn_down s \<Longrightarrow> \<exists>i src port x. dg = encode_datagram i port x \<and> own i = Some (src, port) \<and>
        ServiceSent port x \<in> set (tn_log s)"
  shows "owned own s"
  using assms unfolding owned_def by blast

lemma ownedD:
  assumes "owned own s"
  shows "sess_ok (tn_conn s)"
    and "own i \<noteq> None \<Longrightarrow> i \<le> next_id (tn_conn s)"
    and "fmlookup (by_key (tn_conn s)) k = Some i \<Longrightarrow> own i = Some k"
    and "dg \<in> tn_up s \<Longrightarrow> \<exists>i src port x. dg = encode_datagram i port x \<and> own i = Some (src, port) \<and>
        ClientSent src port x \<in> set (tn_log s)"
    and "fmlookup (tn_serve s) i = Some ses \<Longrightarrow> \<exists>src. own i = Some (src, ss_port ses)"
    and "dg \<in> tn_down s \<Longrightarrow> \<exists>i src port x. dg = encode_datagram i port x \<and> own i = Some (src, port) \<and>
        ServiceSent port x \<in> set (tn_log s)"
  using assms unfolding owned_def by blast+

text \<open>A step that mints nothing keeps the assignment.\<close>

lemma owned_same:
  assumes "owned own s" and "sess_ok (tn_conn s')" and "next_id (tn_conn s') = next_id (tn_conn s)"
    and "\<And>k i. fmlookup (by_key (tn_conn s')) k = Some i \<Longrightarrow> fmlookup (by_key (tn_conn s)) k = Some i"
    and "tn_up s' = tn_up s" and "set (tn_log s) \<subseteq> set (tn_log s')"
    and "\<And>i ses. fmlookup (tn_serve s') i = Some ses \<Longrightarrow> \<exists>src. own i = Some (src, ss_port ses)"
    and "\<And>dg. dg \<in> tn_down s' \<Longrightarrow> dg \<in> tn_down s \<or>
      (\<exists>i src port x. dg = encode_datagram i port x \<and> own i = Some (src, port) \<and> ServiceSent port x \<in> set (tn_log s'))"
  shows "owned own s'"
proof (rule owned_intro, goal_cases)
  case (2 i)
  then show ?case using ownedD(2) [OF assms(1)] assms(3) by simp
next
  case (3 k i)
  then show ?case using ownedD(3) [OF assms(1)] assms(4) by blast
next
  case (4 dg)
  then have "dg \<in> tn_up s" by (simp add: assms(5))
  then show ?case using ownedD(4) [OF assms(1)] assms(6) by blast
next
  case (6 dg)
  then show ?case using ownedD(6) [OF assms(1), of dg] assms(6,8) by blast
qed (use assms(2,7) in blast)+

lemma udp_out_cases:
  assumes "udp_out now src l m x t = (dg, t')" and "sess_ok t" and "next_id t \<noteq> -1"
  obtains (known) i where "fmlookup (by_key t) (src, m_remote m) = Some i" "by_key t' = by_key t"
      "next_id t' = next_id t" "dg = Some (encode_datagram i (m_remote m) x)" "sess_ok t'"
  | (minted) "by_key t' = fmupd (src, m_remote m) (next_id t + 1) (by_key t)" "next_id t' = next_id t + 1"
      "dg = Some (encode_datagram (next_id t + 1) (m_remote m) x)" "sess_ok t'"
proof -
  have t': "t' = sess_apply (IdFor now src (m_remote m) l) t"
    using assms(1) by (auto simp: udp_out_def split: prod.splits option.splits)
  have ok: "sess_ok t'" unfolding t' by (rule sess_ok_step [OF assms(2,3)])
  show thesis
  proof (cases "fmlookup (by_key t) (src, m_remote m)")
    case None
    with assms(1) ok show thesis by (intro minted) (auto simp: udp_out_def id_for_def Let_def)
  next
    case (Some i)
    then obtain ses where "fmlookup (by_id t) i = Some ses" using sess_ok_key [OF assms(2)] by blast
    with Some assms(1) ok show thesis by (intro known) (auto simp: udp_out_def id_for_def)
  qed
qed

lemma owned_out:
  assumes "owned own s" and "next_id (tn_conn s) \<noteq> -1"
  shows "\<exists>own'. owned own' (client_out now src l m x s) \<and> (\<forall>i v. own i = Some v \<longrightarrow> own' i = Some v)"
proof -
  obtain dg t where out: "udp_out now src l m x (tn_conn s) = (dg, t)"
    by (cases "udp_out now src l m x (tn_conn s)")
  let ?s = "client_out now src l m x s"
  have s': "tn_conn ?s = t" "tn_serve ?s = tn_serve s" "tn_down ?s = tn_down s"
    "tn_up ?s = tn_up s \<union> set_option dg" "tn_log ?s = tn_log s @ [ClientSent src (m_remote m) x]"
    by (simp_all add: client_out_def out)
  from out ownedD(1) [OF assms(1)] assms(2) show ?thesis
  proof (cases rule: udp_out_cases)
    case (known i)
    have "owned own ?s"
    proof (rule owned_intro, goal_cases)
      case (2 j)
      then show ?case using ownedD(2) [OF assms(1)] known by (simp add: s')
    next
      case (3 k j)
      then show ?case using ownedD(3) [OF assms(1)] known by (simp add: s')
    next
      case (4 dg)
      then show ?case using ownedD(3,4) [OF assms(1)] known by (fastforce simp: s')
    next
      case (5 j ses)
      then show ?case using ownedD(5) [OF assms(1)] by (simp add: s')
    next
      case (6 dg)
      then show ?case using ownedD(6) [OF assms(1), of dg] by (fastforce simp: s')
    qed (simp add: s' known)
    then show ?thesis by blast
  next
    case minted
    let ?i = "next_id (tn_conn s) + 1"
    have less: "next_id (tn_conn s) < ?i" using unat_add_one [OF assms(2)] by (simp add: word_less_nat_alt)
    have fresh: "own ?i = None"
    proof (rule ccontr)
      assume "own ?i \<noteq> None"
      from ownedD(2) [OF assms(1) this] less show False by (meson leD)
    qed
    define own' where "own' = own(?i \<mapsto> (src, m_remote m))"
    have ext: "own' i = Some v" if "own i = Some v" for i v
      using that fresh by (auto simp: own'_def)
    have "owned own' ?s"
    proof (rule owned_intro, goal_cases)
      case (2 j)
      then show ?case
        using ownedD(2) [OF assms(1), of j] less by (auto simp: s' minted own'_def split: if_splits intro: order_trans)
    next
      case (3 k j)
      then show ?case
        using ownedD(3) [OF assms(1), of k j] fresh by (auto simp: s' minted own'_def split: if_splits)
    next
      case (4 dg')
      then show ?case
      proof (cases "dg' \<in> tn_up s")
        case True
        then show ?thesis using ownedD(4) [OF assms(1)] ext by (fastforce simp: s')
      next
        case False
        with 4 have "dg' = encode_datagram ?i (m_remote m) x" by (simp add: s' minted)
        then show ?thesis by (fastforce simp: s' own'_def)
      qed
    next
      case (5 j ses)
      then show ?case using ownedD(5) [OF assms(1)] ext by (fastforce simp: s')
    next
      case (6 dg')
      then show ?case using ownedD(6) [OF assms(1), of dg'] ext by (fastforce simp: s')
    qed (simp add: s' minted)
    then show ?thesis using ext by blast
  qed
qed

lemma udp_in_table:
  assumes "udp_in now dg t = (out, t')"
  shows "t' = t \<or> (\<exists>i. t' = sess_apply (RouteFor now i) t)"
proof (cases "decode_datagram dg")
  case None
  with assms show ?thesis by (simp add: udp_in_def)
next
  case (Some v)
  obtain i p x where "v = (i, p, x)" by (cases v)
  with assms Some have "t' = sess_apply (RouteFor now i) t"
    by (auto simp: udp_in_def split: prod.splits option.splits)
  then show ?thesis by blast
qed

lemma route_table:
  "by_key (sess_apply (RouteFor now i) t) = by_key t" "next_id (sess_apply (RouteFor now i) t) = next_id t"
  by (simp_all add: reply_route_def split: option.splits)

lemma client_in_frame:
  "tn_serve (client_in now dg s) = tn_serve s" "tn_up (client_in now dg s) = tn_up s"
  "tn_down (client_in now dg s) = tn_down s" "set (tn_log s) \<subseteq> set (tn_log (client_in now dg s))"
  "tn_conn (client_in now dg s) = snd (udp_in now dg (tn_conn s))"
  by (auto simp: client_in_def split: prod.splits option.splits)

lemma owned_back:
  assumes "owned own s" and "next_id (tn_conn s) \<noteq> -1"
  shows "owned own (client_in now dg s)"
proof (rule owned_same [OF assms(1)])
  obtain i where t: "tn_conn (client_in now dg s) = tn_conn s \<or>
      tn_conn (client_in now dg s) = sess_apply (RouteFor now i) (tn_conn s)"
    using udp_in_table [of now dg "tn_conn s", OF prod.collapse [symmetric]] unfolding client_in_frame by blast
  show "sess_ok (tn_conn (client_in now dg s))"
    using t sess_ok_step [OF ownedD(1) [OF assms(1)] assms(2)] ownedD(1) [OF assms(1)] by metis
  show "next_id (tn_conn (client_in now dg s)) = next_id (tn_conn s)"
    using t route_table by metis
  show "fmlookup (by_key (tn_conn s)) k = Some i"
    if "fmlookup (by_key (tn_conn (client_in now dg s))) k = Some i" for k i
    using t that route_table by metis
  show "\<exists>src. own i = Some (src, ss_port ses)"
    if "fmlookup (tn_serve (client_in now dg s)) i = Some ses" for i ses
    using that ownedD(5) [OF assms(1)] by (simp add: client_in_frame)
qed (simp_all add: client_in_frame)

lemma owned_arrive:
  assumes "owned own s" and "dg \<in> tn_up s"
    and "serve_datagram bind connect send now cfg peer dg (tn_serve s) = (r, acts, t)"
  shows "owned own (s\<lparr>tn_serve := t, tn_log := tn_log s @ evs\<rparr>)"
proof (rule owned_same [OF assms(1)])
  show "sess_ok (tn_conn (s\<lparr>tn_serve := t, tn_log := tn_log s @ evs\<rparr>))"
    using ownedD(1) [OF assms(1)] by simp
  fix i ses
  assume "fmlookup (tn_serve (s\<lparr>tn_serve := t, tn_log := tn_log s @ evs\<rparr>)) i = Some ses"
  then have "fmlookup t i = Some ses" by simp
  from serve_datagram_table [OF assms(3) this] show "\<exists>src. own i = Some (src, ss_port ses)"
  proof
    assume "\<exists>old. fmlookup (tn_serve s) i = Some old \<and> ss_sock ses = ss_sock old \<and> ss_port ses = ss_port old"
    then show ?thesis using ownedD(5) [OF assms(1)] by auto
  next
    assume "\<exists>x. decode_datagram dg = Some (i, ss_port ses, x) \<and> bind = Inr (ss_sock ses) \<and>
      fmlookup (tn_serve s) i = None \<and> (Udp, ss_port ses) \<in> rights cfg peer"
    then show ?thesis using ownedD(4) [OF assms(1,2)] by auto
  qed
qed simp_all

lemma owned_reply:
  assumes "owned own s"
  shows "owned own (reply_in now i recv s)"
proof -
  obtain dg t where rep: "serve_reply now i recv (tn_serve s) = (dg, t)"
    by (cases "serve_reply now i recv (tn_serve s)")
  have table: "\<exists>src. own j = Some (src, ss_port ses)" if "fmlookup t j = Some ses" for j ses
    using serve_reply_table [OF rep that] ownedD(5) [OF assms] by auto
  have down: "\<exists>j src port x. d = encode_datagram j port x \<and> own j = Some (src, port) \<and>
      ServiceSent port x \<in> set (tn_log (reply_in now i recv s))" if "dg = Some d" for d
    using rep that ownedD(5) [OF assms]
    by (fastforce simp: serve_reply_def reply_in_def split: option.splits if_splits sum.splits)
  have fields: "tn_conn (reply_in now i recv s) = tn_conn s" "tn_serve (reply_in now i recv s) = t"
    "tn_up (reply_in now i recv s) = tn_up s" "tn_down (reply_in now i recv s) = tn_down s \<union> set_option dg"
    "set (tn_log s) \<subseteq> set (tn_log (reply_in now i recv s))"
    by (auto simp: reply_in_def rep)
  show ?thesis
  proof (rule owned_same [OF assms], goal_cases)
    case (7 d)
    then have "d \<in> tn_down s \<or> dg = Some d" by (simp add: fields)
    then show ?case
    proof
      assume "dg = Some d"
      from down [OF this] show ?thesis by (rule disjI2)
    qed (rule disjI1)
  next
    case 1
    then show ?case using ownedD(1) [OF assms] by (simp add: fields(1))
  next
    case (6 i ses)
    then show ?case using table unfolding fields(2) by blast
  qed (simp_all only: fields)
qed

lemma owned_step:
  assumes "tunnel_step peer s s'" and "owned own s" and "next_id (tn_conn s) \<noteq> -1"
  shows "\<exists>own'. owned own' s' \<and> (\<forall>i v. own i = Some v \<longrightarrow> own' i = Some v)"
  using assms(1)
proof (cases rule: tunnel_step.cases)
  case (Out now src l m x)
  then show ?thesis using owned_out [OF assms(2,3)] by simp
next
  case (Arrive dg bind connect send now cfg r acts t)
  have "owned own s'" unfolding Arrive(1) by (rule owned_arrive [OF assms(2) Arrive(2,3)])
  then show ?thesis by blast
next
  case (Reply now i recv)
  have "owned own s'" unfolding Reply by (rule owned_reply [OF assms(2)])
  then show ?thesis by blast
next
  case (Back dg now)
  have "owned own s'" unfolding Back(1) by (rule owned_back [OF assms(2,3)])
  then show ?thesis by blast
next
  case (ConnReap now)
  have "owned own (s\<lparr>tn_conn := conn_reap now (tn_conn s)\<rparr>)"
    by (rule owned_same [OF assms(2)])
       (use ownedD(1,5) [OF assms(2)] in \<open>simp_all add: sess_ok_reap conn_reap_by_id hm_retain_Some
          conn_reap_by_key [OF sess_ok_keys_live [OF ownedD(1) [OF assms(2)]]]\<close>)
  with ConnReap show ?thesis by blast
next
  case (ServeReap now)
  have "owned own (s\<lparr>tn_serve := serve_reap now (tn_serve s)\<rparr>)"
    by (rule owned_same [OF assms(2)])
       (use ownedD(1,5) [OF assms(2)] serve_reap_table in \<open>auto dest: serve_reap_table\<close>)
  with ServeReap show ?thesis by blast
next
  case (Revoke cfg)
  have "owned own (s\<lparr>tn_serve := udp_changed cfg peer (tn_serve s)\<rparr>)"
    by (rule owned_same [OF assms(2)])
       (use ownedD(1,5) [OF assms(2)] in \<open>auto simp: udp_changed_table\<close>)
  with Revoke show ?thesis by blast
qed

lemma tunnel_next:
  "tunnel_step peer s s' \<Longrightarrow> unat (next_id (tn_conn s')) \<le> Suc (unat (next_id (tn_conn s)))"
proof (induction rule: tunnel_step.induct)
  case (Out s now src l m x)
  have "tn_conn (client_out now src l m x s) = sess_apply (IdFor now src (m_remote m) l) (tn_conn s)"
    by (auto simp: client_out_def udp_out_def split: prod.splits option.splits)
  then show ?case by (simp only: sess_apply_next)
next
  case (Back dg s now)
  obtain i where "tn_conn (client_in now dg s) = tn_conn s \<or>
      tn_conn (client_in now dg s) = sess_apply (RouteFor now i) (tn_conn s)"
    using udp_in_table [of now dg "tn_conn s", OF prod.collapse [symmetric]] unfolding client_in_frame by blast
  then show ?case using sess_apply_next [of "RouteFor now i" "tn_conn s"] by fastforce
qed (auto simp: reply_in_def conn_reap_by_id split: prod.splits)

lemma no_sessions_simps: "by_key no_sessions = fmempty" "by_id no_sessions = fmempty" "next_id no_sessions = 0"
  by (simp_all add: no_sessions_def)

lemma tunnel_inv:
  "tunnel_run peer n s \<Longrightarrow> n < 2 ^ 32 \<Longrightarrow> unat (next_id (tn_conn s)) \<le> n \<and> (\<exists>own. owned own s)"
proof (induction rule: tunnel_run.induct)
  case start
  have "owned (\<lambda>_. None) tunnel_start"
    by (rule owned_intro) (simp_all add: tunnel_start_def sess_ok_none no_sessions_simps)
  then show ?case by (auto simp: tunnel_start_def no_sessions_def)
next
  case (more n s s')
  then obtain own where inv: "unat (next_id (tn_conn s)) \<le> n" "owned own s" by auto
  with more.prems have "next_id (tn_conn s) \<noteq> -1"
    by (auto simp: unsigned_minus_1_eq_mask mask_eq_exp_minus_1)
  with owned_step [OF more.hyps(2) inv(2)] tunnel_next [OF more.hyps(2)] inv(1) show ?case by fastforce
qed

section \<open>End to end\<close>

lemma service_got_mem: "ServiceGot sock x \<in> set (service_got acts) \<longleftrightarrow> UdpSend sock x \<in> set acts"
  by (induction acts rule: service_got.induct) auto

lemma forwards_faithfully:
  assumes "tunnel_run peer n s" and "n < 2 ^ 32" and "dg \<in> tn_up s"
    and "serve_datagram bind connect send now cfg peer dg (tn_serve s) = (r, acts, t)"
    and "UdpSend sock x \<in> set acts"
  shows "\<exists>i ses src. fmlookup t i = Some ses \<and> ss_sock ses = sock \<and> ClientSent src (ss_port ses) x \<in> set (tn_log s) \<and>
           (Udp, ss_port ses) \<in> rights cfg peer"
proof -
  obtain own where own: "owned own s" using tunnel_inv [OF assms(1,2)] by blast
  from ownedD(4) [OF own assms(3)] obtain i src port y where up: "dg = encode_datagram i port y"
    "own i = Some (src, port)" "ClientSent src port y \<in> set (tn_log s)" by blast
  from serve_datagram_send [OF assms(4,5)] up obtain ses where ses:
    "y = x" "(Udp, port) \<in> rights cfg peer" "fmlookup t i = Some ses" "ss_sock ses = sock" by auto
  have "owned own (s\<lparr>tn_serve := t, tn_log := tn_log s @ []\<rparr>)"
    by (rule owned_arrive [OF own assms(3,4)])
  from ownedD(5) [OF this, of i ses] ses(3) up(2) have "ss_port ses = port" by simp
  with ses up(3) show ?thesis by blast
qed

lemma replies_to_owner:
  assumes "tunnel_run peer n s" and "n < 2 ^ 32" and "dg \<in> tn_down s"
    and "udp_in now dg (tn_conn s) = (Some (l, src, x), t)"
  shows "\<exists>i port. dg = encode_datagram i port x \<and> ServiceSent port x \<in> set (tn_log s) \<and>
           fmlookup (by_key (tn_conn s)) (src, port) = Some i"
proof -
  obtain own where own: "owned own s" using tunnel_inv [OF assms(1,2)] by blast
  from ownedD(6) [OF own assms(3)] obtain i a port y where down: "dg = encode_datagram i port y"
    "own i = Some (a, port)" "ServiceSent port y \<in> set (tn_log s)" by blast
  then obtain ses where ses: "fmlookup (by_id (tn_conn s)) i = Some ses" "cs_src ses = src" "y = x"
    using assms(4) by (auto simp: udp_in_def reply_route_def split: option.splits)
  from sess_ok_id [OF ownedD(1) [OF own] ses(1)] obtain k where k: "fmlookup (by_key (tn_conn s)) k = Some i"
    by blast
  from ownedD(3) [OF own k] down(2) have "k = (a, port)" by simp
  moreover from sess_ok_key [OF ownedD(1) [OF own] k] ses have "fst k = src" by simp
  ultimately show ?thesis using down ses(3) k by auto
qed



section \<open>Witnesses\<close>

text \<open>One exchange with a name server: client 100, listener 7, service socket 70.\<close>

definition ask :: "(nat, nat, nat) Tunnel" where
  "ask = client_out 5 100 7 \<lparr>m_local = 5353, m_remote = 53\<rparr> [9] tunnel_start"

definition asked :: "(nat, nat, nat) Tunnel" where
  "asked = ask\<lparr>tn_serve := fmupd 1 \<lparr>ss_sock = 70, ss_reply = True, ss_last = 6, ss_port = 53\<rparr> fmempty,
               tn_log := tn_log ask @ [ServiceGot 70 [9]]\<rparr>"

definition answered :: "(nat, nat, nat) Tunnel" where
  "answered = reply_in 7 1 (Inr [8]) asked"

lemma ask_simps:
  "encode_datagram 1 53 [9] \<in> tn_up ask" "tn_serve ask = fmempty"
  by (simp_all add: ask_def client_out_def udp_out_def id_for_def tunnel_start_def no_sessions_def)

lemma ask_arrives:
  "serve_datagram (Inr 70) (\<lambda>_ _. Inr ()) (\<lambda>_ _. Inr ()) 6 dns_config (Suc 0) (encode_datagram 1 53 [9]) (tn_serve ask) =
     (Delivered, [UdpBind 70, UdpConnect 70 53, UdpSend 70 [9]],
      fmupd 1 \<lparr>ss_sock = 70, ss_reply = True, ss_last = 6, ss_port = 53\<rparr> fmempty)"
  by (simp add: ask_simps serve_datagram_def grant_list_iff dns_config_rights serve_touch_def open_session_def
      send_local_def)

lemma ask_run: "tunnel_run (Suc 0) 1 ask"
  using tunnel_run.more [OF tunnel_run.start tunnel_step.Out] by (simp add: ask_def)

lemma asked_run: "tunnel_run (Suc 0) 2 asked"
  using tunnel_run.more [OF ask_run tunnel_step.Arrive [OF ask_simps(1) ask_arrives]]
  by (simp add: asked_def numeral_2_eq_2)

lemma answered_run: "tunnel_run (Suc 0) 3 answered"
  using tunnel_run.more [OF asked_run tunnel_step.Reply] by (simp add: answered_def numeral_3_eq_3 numeral_2_eq_2)



section \<open>Limits of the guarantees\<close>

text \<open>
  The guarantee is one of a single set of forwarders: \<open>spawn_forwarders\<close> starts with
  \<open>Sessions::default()\<close>, also when the listeners change while a connection is held.
\<close>

definition respawn :: "('a, 'l, 'sock) Tunnel \<Rightarrow> ('a, 'l, 'sock) Tunnel" where
  "respawn s = s\<lparr>tn_conn := no_sessions\<rparr>"

definition two_ports :: "nat Config" where
  "two_ports = with_shared example_config
     [\<lparr>o_proto = Udp, o_port = 53, o_name = [], o_enabled = True\<rparr>,
      \<lparr>o_proto = Udp, o_port = 99, o_name = [], o_enabled = True\<rparr>]"

definition respawned :: "(nat, nat, nat) Tunnel" where
  "respawned = client_out 8 200 7 \<lparr>m_local = 9999, m_remote = 99\<rparr> [5] (respawn answered)"

text \<open>
  C34: a change of the listeners under a held connection crosses sessions. The new table starts with
  the counter at zero against a far side that still knows the old ids: after a run in which client
  100 exchanged packets with port 53, client 200 gets the id of client 100, its datagram for port 99
  is checked against 99 and handed to the socket of port 53, and an answer of the service on port 53
  to client 100 is handed to client 200.
\<close>
theorem respawn_crosses_sessions:
  "tunnel_run (Suc 0) 3 answered \<and> encode_datagram 1 99 [5] \<in> tn_up respawned \<and>
   fst (snd (serve_datagram (Inr 71) (\<lambda>_ _. Inr ()) (\<lambda>_ _. Inr () :: rstring + unit) 9 two_ports (Suc 0)
               (encode_datagram 1 99 [5]) (tn_serve respawned))) = [UdpSend 70 [5]] \<and>
   map_option ss_port (fmlookup (tn_serve respawned) 1) = Some 53 \<and>
   fst (udp_in 10 (encode_datagram 1 53 [8]) (tn_conn respawned)) = Some (7, 200, [8])"
proof -
  have served: "fmlookup (tn_serve respawned) 1 =
      Some \<lparr>ss_sock = 70, ss_reply = True, ss_last = 7, ss_port = 53\<rparr>"
    by (simp add: respawned_def respawn_def client_out_def answered_def asked_def reply_in_def serve_reply_def serve_touch_def
        split: prod.splits)
  have "(Udp, 99) \<in> rights two_ports (Suc 0)"
    by (auto simp: rights_def two_ports_def example_config_def with_shared_def cfg_peer_def offer_key_def)
  with served show ?thesis
    by (simp add: serve_datagram_def grant_list_iff serve_touch_def send_local_def answered_run)
       (simp add: respawned_def respawn_def client_out_def udp_out_def udp_in_def reply_route_def id_for_def no_sessions_def)
qed

text \<open>
  A session is keyed by the client's address and the remote port, not by the listener: a client that
  reaches one remote port through two local ports gets every answer from the first of them.
\<close>

lemma listeners_share_sessions:
  "fst (udp_in 9 (encode_datagram 1 53 [8])
      (snd (udp_out 8 100 (12 :: nat) \<lparr>m_local = 5354, m_remote = 53\<rparr> [2]
        (snd (udp_out 7 (100 :: nat) 11 \<lparr>m_local = 5353, m_remote = 53\<rparr> [1] no_sessions))))) =
   Some (11, 100, [8])"
  by (simp add: udp_out_def id_for_def no_sessions_def udp_in_def reply_route_def)

end
