(* ===== verification/Registry.thy ===== *)
theory Registry
  imports Admin
begin

text \<open>
  What the panel's editing API promises, said without lists, files and errors: a registry of peers,
  shared offers and bindings, each a map from its key, and nine edits of it. The handlers of
  \<open>src/admin.rs\<close>, over the ordered lists of the configuration and the transaction that writes the
  file, refine it.
\<close>

section \<open>The abstract registry\<close>

type_synonym key = "Proto \<times> u16"

record Entry =
  en_name :: rstring
  en_enabled :: bool
  en_offers :: "key \<Rightarrow> Offer option"

record 'id Registry =
  rg_peers :: "'id \<Rightarrow> Entry option"
  rg_shared :: "key \<Rightarrow> Offer option"
  rg_bindings :: "key \<Rightarrow> Binding option"

datatype 'id edit =
    EAddPeer 'id rstring
  | EPatchPeer 'id "rstring option" "bool option"
  | EDelPeer 'id
  | EAddOffer "'id option" Offer
  | EPatchOffer "'id option" key "rstring option" "bool option"
  | EDelOffer "'id option" key
  | EAddBinding Binding
  | EPatchBinding key "u16 option" "rstring option" "bool option"
  | EDelBinding key

definition put_new :: "'k \<Rightarrow> 'v \<Rightarrow> ('k \<Rightarrow> 'v option) \<Rightarrow> ('k \<Rightarrow> 'v option) option" where
  "put_new k v m = (if m k = None then Some (m(k \<mapsto> v)) else None)"

definition alter :: "'k \<Rightarrow> ('v \<Rightarrow> 'v) \<Rightarrow> ('k \<Rightarrow> 'v option) \<Rightarrow> ('k \<Rightarrow> 'v option) option" where
  "alter k f m = (case m k of None \<Rightarrow> None | Some v \<Rightarrow> Some (m(k \<mapsto> f v)))"

definition remove :: "'k \<Rightarrow> ('k \<Rightarrow> 'v option) \<Rightarrow> ('k \<Rightarrow> 'v option) option" where
  "remove k m = (if m k = None then None else Some (m(k := None)))"

definition in_peers ::
  "(('id \<Rightarrow> Entry option) \<Rightarrow> ('id \<Rightarrow> Entry option) option) \<Rightarrow> 'id Registry \<Rightarrow> 'id Registry option" where
  "in_peers g r = map_option (\<lambda>m. r\<lparr>rg_peers := m\<rparr>) (g (rg_peers r))"

definition in_bindings ::
  "((key \<Rightarrow> Binding option) \<Rightarrow> (key \<Rightarrow> Binding option) option) \<Rightarrow> 'id Registry \<Rightarrow> 'id Registry option" where
  "in_bindings g r = map_option (\<lambda>m. r\<lparr>rg_bindings := m\<rparr>) (g (rg_bindings r))"

text \<open>The offers of everybody, or those of one listed peer.\<close>

definition in_offers ::
  "'id option \<Rightarrow> ((key \<Rightarrow> Offer option) \<Rightarrow> (key \<Rightarrow> Offer option) option) \<Rightarrow> 'id Registry \<Rightarrow> 'id Registry option" where
  "in_offers scope g r =
     (case scope of
        None \<Rightarrow> map_option (\<lambda>m. r\<lparr>rg_shared := m\<rparr>) (g (rg_shared r))
      | Some i \<Rightarrow>
          (case rg_peers r i of
             None \<Rightarrow> None
           | Some e \<Rightarrow> map_option (\<lambda>m. r\<lparr>rg_peers := (rg_peers r)(i \<mapsto> e\<lparr>en_offers := m\<rparr>)\<rparr>) (g (en_offers e))))"

definition set_entry :: "rstring option \<Rightarrow> bool option \<Rightarrow> Entry \<Rightarrow> Entry" where
  "set_entry name enabled e =
     e\<lparr>en_name := (case name of None \<Rightarrow> en_name e | Some n \<Rightarrow> n),
       en_enabled := (case enabled of None \<Rightarrow> en_enabled e | Some b \<Rightarrow> b)\<rparr>"

fun reg_apply :: "'id edit \<Rightarrow> 'id Registry \<Rightarrow> 'id Registry option" where
  "reg_apply (EAddPeer i n) r =
     in_peers (put_new i \<lparr>en_name = n, en_enabled = True, en_offers = (\<lambda>_. None)\<rparr>) r"
| "reg_apply (EPatchPeer i n e) r = in_peers (alter i (set_entry n e)) r"
| "reg_apply (EDelPeer i) r = in_peers (remove i) r"
| "reg_apply (EAddOffer scope x) r = in_offers scope (put_new (offer_key x) x) r"
| "reg_apply (EPatchOffer scope k n e) r = in_offers scope (alter k (set_offer n e)) r"
| "reg_apply (EDelOffer scope k) r = in_offers scope (remove k) r"
| "reg_apply (EAddBinding b) r = in_bindings (put_new (binding_key b) b) r"
| "reg_apply (EPatchBinding k p n e) r = in_bindings (alter k (set_binding p n e)) r"
| "reg_apply (EDelBinding k) r = in_bindings (remove k) r"

section \<open>The abstraction\<close>

definition entry_of :: "'id Peer \<Rightarrow> Entry" where
  "entry_of p = \<lparr>en_name = p_name p, en_enabled = p_enabled p, en_offers = lookup_key offer_key (p_offers p)\<rparr>"

definition registry :: "'id Config \<Rightarrow> 'id Registry" where
  "registry c =
     \<lparr>rg_peers = (\<lambda>i. map_option entry_of (cfg_peer c i)),
      rg_shared = lookup_key offer_key (shared_of c),
      rg_bindings = lookup_key binding_key (bindings_of c)\<rparr>"

lemma registry_peers:
  assumes "cfg_peer d = (cfg_peer c)(i := x)" and "shared_of d = shared_of c" and "bindings_of d = bindings_of c"
  shows "registry d = (registry c)\<lparr>rg_peers := (rg_peers (registry c))(i := map_option entry_of x)\<rparr>"
  using assms by (auto simp: registry_def)

text \<open>
  A registry is well formed when its names and ports are; that no key occurs twice, the rest of what
  makes a configuration valid, a map cannot fail.
\<close>

definition reg_wf :: "'id Registry \<Rightarrow> bool" where
  "reg_wf r \<longleftrightarrow>
     (\<forall>k x. rg_shared r k = Some x \<longrightarrow> offer_wf x) \<and>
     (\<forall>i e. rg_peers r i = Some e \<longrightarrow>
        name_wf (en_name e) \<and> (\<forall>k x. en_offers e k = Some x \<longrightarrow> offer_wf x)) \<and>
     (\<forall>k b. rg_bindings r k = Some b \<longrightarrow> binding_wf b)"

definition keys_ok :: "'id Config \<Rightarrow> bool" where
  "keys_ok c \<longleftrightarrow>
     distinct (map offer_key (shared_of c)) \<and> distinct (map p_id (peers_of c)) \<and>
     (\<forall>p \<in> set (peers_of c). distinct (map offer_key (p_offers p))) \<and>
     distinct (map binding_key (bindings_of c))"

lemma lookup_distinct: "distinct (map key xs) \<Longrightarrow> x \<in> set xs \<Longrightarrow> lookup_key key xs (key x) = Some x"
  by (induction xs) (auto simp: rev_image_eqI)

lemma lookup_all:
  "distinct (map key xs) \<Longrightarrow> (\<forall>k x. lookup_key key xs k = Some x \<longrightarrow> P x) \<longleftrightarrow> (\<forall>x \<in> set xs. P x)"
  using lookup_distinct [of key xs] lookup_key_Some [of key xs] by blast

lemma config_wf_registry: "config_wf c \<longleftrightarrow> keys_ok c \<and> reg_wf (registry c)"
proof (cases "keys_ok c")
  case True
  have peers: "(\<forall>i e. rg_peers (registry c) i = Some e \<longrightarrow> Q e) \<longleftrightarrow> (\<forall>p \<in> set (peers_of c). Q (entry_of p))" for Q
    using lookup_all [of p_id "peers_of c" "\<lambda>p. Q (entry_of p)"] True
    by (auto simp: registry_def cfg_peer_lookup keys_ok_def)
  have own: "(\<forall>k x. en_offers (entry_of p) k = Some x \<longrightarrow> offer_wf x) \<longleftrightarrow> (\<forall>x \<in> set (p_offers p). offer_wf x)"
    if "p \<in> set (peers_of c)" for p
    using True that lookup_all [of offer_key "p_offers p" offer_wf] by (simp add: entry_of_def keys_ok_def)
  have "reg_wf (registry c) \<longleftrightarrow>
      (\<forall>x \<in> set (shared_of c). offer_wf x) \<and>
      (\<forall>p \<in> set (peers_of c). name_wf (p_name p) \<and> (\<forall>x \<in> set (p_offers p). offer_wf x)) \<and>
      (\<forall>b \<in> set (bindings_of c). binding_wf b)"
    unfolding reg_wf_def peers
    using True lookup_all [of offer_key "shared_of c" offer_wf]
      lookup_all [of binding_key "bindings_of c" binding_wf] own
    by (simp add: keys_ok_def registry_def entry_of_def)
  with True show ?thesis
    by (auto simp: config_wf_def keys_ok_def offers_wf_def peers_wf_def peer_wf_def bindings_wf_def)
next
  case False
  then show ?thesis
    by (auto simp: config_wf_def keys_ok_def offers_wf_def peers_wf_def peer_wf_def bindings_wf_def)
qed

text \<open>An edit of the configuration refines an abstract one when it succeeds as it does, and only then.\<close>

definition refines :: "('id Config \<Rightarrow> 'id error + 'id Config) \<Rightarrow> 'id edit \<Rightarrow> bool" where
  "refines f ed \<longleftrightarrow>
     (\<forall>c. reg_apply ed (registry c) = (case f c of Inl e \<Rightarrow> None | Inr d \<Rightarrow> Some (registry d)) \<and>
        (\<forall>d. f c = Inr d \<longrightarrow> keys_ok c \<longrightarrow> keys_ok d))"

lemma refines_intro:
  assumes "\<And>c e. f c = Inl e \<Longrightarrow> reg_apply ed (registry c) = None"
    and "\<And>c d. f c = Inr d \<Longrightarrow> reg_apply ed (registry c) = Some (registry d)"
    and "\<And>c d. f c = Inr d \<Longrightarrow> keys_ok c \<Longrightarrow> keys_ok d"
  shows "refines f ed"
  using assms by (auto simp: refines_def split: sum.splits)

lemma patch_key_distinct:
  assumes "patch_key key missing k f xs = Inr ys" and "\<And>x. key (f x) = key x"
  shows "distinct (map key xs) \<Longrightarrow> distinct (map key ys)"
  using patch_key_keys [OF assms] by simp

lemma patch_key_elements:
  assumes "patch_key key missing k f xs = Inr ys"
  shows "set ys \<subseteq> set xs \<union> f ` set xs"
proof -
  from assms have "update_first (\<lambda>y. key y = k) f xs = Some ys" by (simp add: patch_key_def ok_or_Inr_iff)
  then obtain us x vs where "xs = us @ x # vs" "ys = us @ f x # vs" by (rule update_first_split)
  then show ?thesis by auto
qed

lemma on_peers_keys:
  assumes "on_peers g c = Inr d" and "keys_ok c"
    and "\<And>ps. g (peers_of c) = Inr ps \<Longrightarrow> distinct (map p_id (peers_of c)) \<Longrightarrow> distinct (map p_id ps)"
    and "\<And>ps p. g (peers_of c) = Inr ps \<Longrightarrow> p \<in> set ps \<Longrightarrow>
      (\<exists>q \<in> set (peers_of c). p_offers p = p_offers q) \<or> distinct (map offer_key (p_offers p))"
  shows "keys_ok d"
proof -
  have g: "g (peers_of c) = Inr (peers_of d)" and same: "shared_of d = shared_of c" "bindings_of d = bindings_of c"
    using on_peers_frame [OF assms(1)] by auto
  have "distinct (map offer_key (p_offers p))" if "p \<in> set (peers_of d)" for p
    using assms(4) [OF g that] assms(2) by (auto simp: keys_ok_def)
  then show ?thesis using assms(2,3) g same by (simp add: keys_ok_def)
qed

lemma on_peers_Inl: "on_peers g c = Inl e \<longleftrightarrow> g (peers_of c) = Inl e"
  by (auto simp: on_peers_def and_then_Inl_iff)

lemma refines_add_peer:
  fixes i :: 'id
  shows "refines (on_peers (push_new p_id (\<lambda>p. PeerKnown (p_id p)) \<lparr>p_id = i, p_name = n, p_enabled = True, p_offers = []\<rparr>))
     (EAddPeer i n)" (is "refines (on_peers (push_new _ _ ?p)) _")
proof (rule refines_intro)
  fix c :: "'id Config" and e
  assume "on_peers (push_new p_id (\<lambda>p. PeerKnown (p_id p)) ?p) c = Inl e"
  from peer_edits.add_err [OF this] show "reg_apply (EAddPeer i n) (registry c) = None"
    by (auto simp: in_peers_def put_new_def registry_def)
next
  fix c d :: "'id Config"
  assume edit: "on_peers (push_new p_id (\<lambda>p. PeerKnown (p_id p)) ?p) c = Inr d"
  note new = peer_edits.add_ok [OF edit] and frame = on_peers_frame [OF edit]
  then have "registry d = (registry c)\<lparr>rg_peers := (rg_peers (registry c))(i := map_option entry_of (Some ?p))\<rparr>"
    by (intro registry_peers) simp_all
  moreover have "entry_of ?p = \<lparr>en_name = n, en_enabled = True, en_offers = (\<lambda>_. None)\<rparr>"
    by (auto simp: entry_of_def)
  ultimately show "reg_apply (EAddPeer i n) (registry c) = Some (registry d)"
    using new by (simp add: in_peers_def put_new_def) (simp add: registry_def)
next
  fix c d :: "'id Config"
  assume edit: "on_peers (push_new p_id (\<lambda>p. PeerKnown (p_id p)) ?p) c = Inr d" and "keys_ok c"
  then show "keys_ok d"
    by (rule on_peers_keys) (auto simp: push_new_Inr lookup_key_None)
qed

lemma entry_of_set_peer: "entry_of (set_peer n e p) = set_entry n e (entry_of p)"
  by (simp add: entry_of_def set_peer_def set_entry_def Let_def split: option.splits)

lemma refines_patch_peer:
  fixes i :: 'id
  shows "refines (on_peers (patch_key p_id (PeerUnknown i) i (set_peer n e))) (EPatchPeer i n e)"
proof (rule refines_intro)
  fix c :: "'id Config" and err
  assume "on_peers (patch_key p_id (PeerUnknown i) i (set_peer n e)) c = Inl err"
  from peer_edits.patch_err [OF this] show "reg_apply (EPatchPeer i n e) (registry c) = None"
    by (auto simp: in_peers_def alter_def registry_def)
next
  fix c d :: "'id Config"
  assume edit: "on_peers (patch_key p_id (PeerUnknown i) i (set_peer n e)) c = Inr d"
  then obtain p where p: "cfg_peer c i = Some p" "cfg_peer d = (cfg_peer c)(i \<mapsto> set_peer n e p)"
    using peer_edits.patch_ok [OF edit] by auto
  with on_peers_frame [OF edit]
  have "registry d = (registry c)\<lparr>rg_peers := (rg_peers (registry c))(i := map_option entry_of (Some (set_peer n e p)))\<rparr>"
    by (intro registry_peers) simp_all
  with p(1) show "reg_apply (EPatchPeer i n e) (registry c) = Some (registry d)"
    by (simp add: in_peers_def alter_def entry_of_set_peer) (simp add: registry_def)
next
  fix c d :: "'id Config"
  assume edit: "on_peers (patch_key p_id (PeerUnknown i) i (set_peer n e)) c = Inr d" and "keys_ok c"
  then show "keys_ok d"
  proof (rule on_peers_keys)
    fix ps p
    assume ps: "patch_key p_id (PeerUnknown i) i (set_peer n e) (peers_of c) = Inr ps"
    show "distinct (map p_id (peers_of c)) \<Longrightarrow> distinct (map p_id ps)"
      by (rule patch_key_distinct [OF ps]) simp
    have "p_offers (set_peer n e q) = p_offers q" for q :: "'id Peer"
      by (simp add: set_peer_def Let_def split: option.splits)
    then show "p \<in> set ps \<Longrightarrow> (\<exists>q \<in> set (peers_of c). p_offers p = p_offers q) \<or> distinct (map offer_key (p_offers p))"
      using patch_key_elements [OF ps] by fastforce
  qed
qed

lemma refines_del_peer:
  fixes i :: 'id
  shows "refines (on_peers (drop_key p_id (PeerUnknown i) i)) (EDelPeer i)"
proof (rule refines_intro)
  fix c :: "'id Config" and err
  assume "on_peers (drop_key p_id (PeerUnknown i) i) c = Inl err"
  from peer_edits.del_err [OF this] show "reg_apply (EDelPeer i) (registry c) = None"
    by (auto simp: in_peers_def remove_def registry_def)
next
  fix c d :: "'id Config"
  assume edit: "on_peers (drop_key p_id (PeerUnknown i) i) c = Inr d"
  note gone = peer_edits.del_ok [OF edit] and frame = on_peers_frame [OF edit]
  then have "registry d = (registry c)\<lparr>rg_peers := (rg_peers (registry c))(i := map_option entry_of (None :: 'id Peer option))\<rparr>"
    by (intro registry_peers) simp_all
  then show "reg_apply (EDelPeer i) (registry c) = Some (registry d)"
    using gone by (auto simp: in_peers_def remove_def) (simp_all add: registry_def)
next
  fix c d :: "'id Config"
  assume edit: "on_peers (drop_key p_id (PeerUnknown i) i) c = Inr d" and "keys_ok c"
  then show "keys_ok d"
    by (rule on_peers_keys) (auto simp: drop_key_Inr distinct_map_filter)
qed

text \<open>The edits of one keyed list, against the edits of a map.\<close>

definition list_refines ::
  "('a \<Rightarrow> 'k) \<Rightarrow> ('a list \<Rightarrow> 'e + 'a list) \<Rightarrow> (('k \<Rightarrow> 'a option) \<Rightarrow> ('k \<Rightarrow> 'a option) option) \<Rightarrow> bool" where
  "list_refines key g h \<longleftrightarrow>
     (\<forall>xs. h (lookup_key key xs) = (case g xs of Inl e \<Rightarrow> None | Inr ys \<Rightarrow> Some (lookup_key key ys)) \<and>
        (\<forall>ys. g xs = Inr ys \<longrightarrow> distinct (map key xs) \<longrightarrow> distinct (map key ys)))"

lemma list_refines_push: "list_refines key (push_new key dup x) (put_new (key x) x)"
  using list_edits.add_ok [of key dup x] list_edits.add_err [of key dup x]
  by (auto simp: list_refines_def put_new_def push_new_Inr lookup_key_None split: sum.splits)

lemma list_refines_patch:
  assumes "\<And>x. key (f x) = key x"
  shows "list_refines key (patch_key key missing k f) (alter k f)"
proof -
  have "alter k f (lookup_key key xs) =
      (case patch_key key missing k f xs of Inl e \<Rightarrow> None | Inr ys \<Rightarrow> Some (lookup_key key ys))" for xs
  proof (cases "patch_key key missing k f xs")
    case (Inl e)
    moreover from Inl have "lookup_key key xs k = None" by (simp add: patch_key_Inl)
    ultimately show ?thesis by (simp add: alter_def)
  next
    case (Inr ys)
    with patch_key_lookup [OF Inr assms] show ?thesis by (auto simp: alter_def)
  qed
  then show ?thesis
    using patch_key_distinct [where key = key and f = f, OF _ assms] by (auto simp: list_refines_def)
qed

lemma list_refines_drop: "list_refines key (drop_key key missing k) (remove k)"
  using list_edits.del_ok [of key missing k] list_edits.del_err [of key missing k]
  by (auto simp: list_refines_def remove_def drop_key_Inr distinct_map_filter split: sum.splits)

lemma list_refinesD:
  assumes "list_refines key g h"
  shows "g xs = Inl e \<Longrightarrow> h (lookup_key key xs) = None"
    and "g xs = Inr ys \<Longrightarrow> h (lookup_key key xs) = Some (lookup_key key ys)"
    and "g xs = Inr ys \<Longrightarrow> distinct (map key xs) \<Longrightarrow> distinct (map key ys)"
  using assms by (auto simp: list_refines_def)

lemma refines_bindings:
  fixes ed :: "'id edit"
  assumes "list_refines binding_key g h" and "\<And>r. reg_apply ed r = in_bindings h r"
  shows "refines (on_bindings g) ed"
proof (rule refines_intro)
  fix c :: "'id Config" and e
  assume "on_bindings g c = Inl e"
  then have "g (bindings_of c) = Inl e" by (auto simp: on_bindings_def and_then_Inl_iff)
  with list_refinesD(1) [OF assms(1)] show "reg_apply ed (registry c) = None"
    by (simp add: assms(2) in_bindings_def registry_def)
next
  fix c d :: "'id Config"
  assume "on_bindings g c = Inr d"
  then obtain bs where "g (bindings_of c) = Inr bs" "d = with_bindings c bs"
    by (auto simp: on_bindings_def and_then_Inr_iff)
  with list_refinesD(2) [OF assms(1)] show "reg_apply ed (registry c) = Some (registry d)"
    by (simp add: assms(2) in_bindings_def registry_def cfg_peer_def)
next
  fix c d :: "'id Config"
  assume "on_bindings g c = Inr d" and "keys_ok c"
  then show "keys_ok d"
    using list_refinesD(3) [OF assms(1)]
    by (auto simp: on_bindings_def on_offers_def and_then_Inr_iff keys_ok_def)
qed

lemma refines_shared:
  fixes ed :: "'id edit"
  assumes "list_refines offer_key g h" and "\<And>r. reg_apply ed r = in_offers None h r"
  shows "refines (on_offers env None g) ed"
proof (rule refines_intro)
  fix c :: "'id Config" and e
  assume "on_offers env None g c = Inl e"
  then have "g (shared_of c) = Inl e" by (auto simp: on_offers_def and_then_Inl_iff)
  with list_refinesD(1) [OF assms(1)] show "reg_apply ed (registry c) = None"
    by (simp add: assms(2) in_offers_def registry_def)
next
  fix c d :: "'id Config"
  assume "on_offers env None g c = Inr d"
  then obtain xs where "g (shared_of c) = Inr xs" "d = with_shared c xs"
    by (auto simp: on_offers_def and_then_Inr_iff)
  with list_refinesD(2) [OF assms(1)] show "reg_apply ed (registry c) = Some (registry d)"
    by (simp add: assms(2) in_offers_def registry_def cfg_peer_def)
next
  fix c d :: "'id Config"
  assume "on_offers env None g c = Inr d" and "keys_ok c"
  then show "keys_ok d"
    using list_refinesD(3) [OF assms(1)]
    by (auto simp: on_bindings_def on_offers_def and_then_Inr_iff keys_ok_def)
qed

lemma refines_own:
  fixes i :: 'id
  assumes "list_refines offer_key g h" and "\<And>r. reg_apply ed r = in_offers (Some i) h r"
  shows "refines (on_peer_offers i g) ed"
proof (rule refines_intro)
  fix c :: "'id Config" and e
  assume err: "on_peer_offers i g c = Inl e"
  show "reg_apply ed (registry c) = None"
  proof (cases "cfg_peer c i")
    case None
    then show ?thesis by (simp add: assms(2) in_offers_def registry_def)
  next
    case (Some p)
    have "g (p_offers p) = Inl e"
      using err Some peer_edits.patch_err [where k = i and s = c]
      by (auto simp: on_peer_offers_def and_then_Inl_iff)
    with Some list_refinesD(1) [OF assms(1)] show ?thesis
      by (simp add: assms(2) in_offers_def registry_def entry_of_def)
  qed
next
  fix c d :: "'id Config"
  assume ok: "on_peer_offers i g c = Inr d"
  then obtain p os where p: "cfg_peer c i = Some p" and os: "g (p_offers p) = Inr os"
    and edit: "on_peers (patch_key p_id (PeerUnknown i) i (\<lambda>q. q\<lparr>p_offers := os\<rparr>)) c = Inr d"
    by (auto simp: on_peer_offers_def and_then_Inr_iff split: option.splits)
  have "cfg_peer d = (cfg_peer c)(i \<mapsto> p\<lparr>p_offers := os\<rparr>)"
    using peer_edits.patch_ok [OF edit] p by auto
  with on_peers_frame [OF edit]
  have "registry d = (registry c)\<lparr>rg_peers := (rg_peers (registry c))(i := map_option entry_of (Some (p\<lparr>p_offers := os\<rparr>)))\<rparr>"
    by (intro registry_peers) simp_all
  moreover have "rg_peers (registry c) i = Some (entry_of p)" by (simp add: registry_def p)
  moreover have "h (en_offers (entry_of p)) = Some (lookup_key offer_key os)"
    using list_refinesD(2) [OF assms(1) os] by (simp add: entry_of_def)
  moreover have "entry_of (p\<lparr>p_offers := os\<rparr>) = (entry_of p)\<lparr>en_offers := lookup_key offer_key os\<rparr>"
    by (simp add: entry_of_def)
  ultimately show "reg_apply ed (registry c) = Some (registry d)"
    by (simp add: assms(2) in_offers_def)
next
  fix c d :: "'id Config"
  assume ok: "on_peer_offers i g c = Inr d" and keys: "keys_ok c"
  then obtain p os where p: "cfg_peer c i = Some p" and os: "g (p_offers p) = Inr os"
    and edit: "on_peers (patch_key p_id (PeerUnknown i) i (\<lambda>q. q\<lparr>p_offers := os\<rparr>)) c = Inr d"
    by (auto simp: on_peer_offers_def and_then_Inr_iff split: option.splits)
  have "p \<in> set (peers_of c)" using p lookup_key_Some [of p_id "peers_of c" i p] by (simp add: cfg_peer_lookup)
  with keys list_refinesD(3) [OF assms(1) os] have dist: "distinct (map offer_key os)" by (simp add: keys_ok_def)
  from edit keys show "keys_ok d"
  proof (rule on_peers_keys)
    fix ps q
    assume ps: "patch_key p_id (PeerUnknown i) i (\<lambda>q. q\<lparr>p_offers := os\<rparr>) (peers_of c) = Inr ps"
    show "distinct (map p_id (peers_of c)) \<Longrightarrow> distinct (map p_id ps)"
      by (rule patch_key_distinct [OF ps]) simp
    show "q \<in> set ps \<Longrightarrow> (\<exists>r \<in> set (peers_of c). p_offers q = p_offers r) \<or> distinct (map offer_key (p_offers q))"
      using patch_key_elements [OF ps] dist by auto
  qed
qed

section \<open>The handlers\<close>

datatype call =
    CAddPeer PeerAdd | CPatchPeer PeerPatch | CDelPeer IdRef
  | CAddOffer OfferAdd | CPatchOffer OfferPatch | CDelOffer OfferRef
  | CAddBinding BindingAdd | CPatchBinding BindingPatch | CDelBinding BindingRef

fun handle :: "('id, 'h) AdminEnv \<Rightarrow> call \<Rightarrow> 'id node \<Rightarrow> ('id error + unit) \<times> 'id node" where
  "handle env (CAddPeer b) = add_peer env b"
| "handle env (CPatchPeer b) = patch_peer env b"
| "handle env (CDelPeer b) = del_peer env b"
| "handle env (CAddOffer b) = add_offer env b"
| "handle env (CPatchOffer b) = patch_offer env b"
| "handle env (CDelOffer b) = del_offer env b"
| "handle env (CAddBinding b) = add_binding env b"
| "handle env (CPatchBinding b) = patch_binding env b"
| "handle env (CDelBinding b) = del_binding env b"

text \<open>The abstract edit a call asks for; none when it names an id that cannot be parsed.\<close>

definition the_id :: "('id, 'h) AdminEnv \<Rightarrow> rstring \<Rightarrow> 'id option" where
  "the_id env s = (case parse_id env s of Inl _ \<Rightarrow> None | Inr i \<Rightarrow> Some i)"

definition scope :: "('id, 'h) AdminEnv \<Rightarrow> rstring option \<Rightarrow> 'id option option" where
  "scope env peer = (case peer of None \<Rightarrow> Some None | Some p \<Rightarrow> map_option Some (the_id env p))"

fun edit_of :: "('id, 'h) AdminEnv \<Rightarrow> call \<Rightarrow> 'id edit option" where
  "edit_of env (CAddPeer b) = map_option (\<lambda>i. EAddPeer i (pa_name b)) (the_id env (pa_id b))"
| "edit_of env (CPatchPeer b) = map_option (\<lambda>i. EPatchPeer i (pp_name b) (pp_enabled b)) (the_id env (pp_id b))"
| "edit_of env (CDelPeer b) = map_option EDelPeer (the_id env (ir_id b))"
| "edit_of env (CAddOffer b) =
     map_option (\<lambda>sc. EAddOffer sc \<lparr>o_proto = oa_proto b, o_port = oa_port b, o_name = oa_name b, o_enabled = True\<rparr>)
       (scope env (oa_peer b))"
| "edit_of env (CPatchOffer b) =
     map_option (\<lambda>sc. EPatchOffer sc (op_proto b, op_port b) (op_name b) (op_enabled b)) (scope env (op_peer b))"
| "edit_of env (CDelOffer b) = map_option (\<lambda>sc. EDelOffer sc (or_proto b, or_port b)) (scope env (or_peer b))"
| "edit_of env (CAddBinding b) =
     Some (EAddBinding \<lparr>b_proto = ba_proto b, b_local = ba_local b, b_remote = ba_remote b, b_name = ba_name b,
        b_enabled = True\<rparr>)"
| "edit_of env (CPatchBinding b) =
     Some (EPatchBinding (bp_proto b, bp_local b) (bp_remote b) (bp_name b) (bp_enabled b))"
| "edit_of env (CDelBinding b) = Some (EDelBinding (br_proto b, br_local b))"

text \<open>
  What the transaction around an edit makes of it: an accepted edit is the abstract one, a refused
  one changes nothing; and on a machine whose disk works, starting from a valid configuration, it
  is accepted exactly when the abstract edit applies and its result is well formed.
\<close>

definition healthy :: "('id, 'h) AdminEnv \<Rightarrow> 'id node \<Rightarrow> bool" where
  "healthy env st \<longleftrightarrow>
     ae_os env = (\<lambda>_. None) \<and> (\<forall>c. is_ok (ae_to_toml env c)) \<and> sh_path (fst st) \<noteq> [] \<and> config_wf (node_running st)"

definition meets :: "('id, 'h) AdminEnv \<Rightarrow> 'id Registry option \<Rightarrow> 'id node \<Rightarrow> ('id error + unit) \<times> 'id node \<Rightarrow> bool" where
  "meets env target st out \<longleftrightarrow>
     (if is_ok (fst out) then target = Some (registry (node_running (snd out)))
      else fst (snd out) = fst st \<and> node_disk (snd out) = node_disk st) \<and>
     (healthy env st \<longrightarrow> (is_ok (fst out) \<longleftrightarrow> (\<exists>g. target = Some g \<and> reg_wf g)))"

lemma commit_healthy:
  assumes "healthy env st"
  shows "is_ok (fst (commit env f st)) \<longleftrightarrow> (\<exists>d. f (node_running st) = Inr d \<and> config_wf d)"
proof -
  obtain sh files where st: "st = (sh, files)" by (cases st)
  have "is_ok (fst (save (ae_os env) (ae_to_toml env) (sh_path sh) d files)) \<longleftrightarrow> config_wf d" for d
    using assms
    by (cases "validate d"; cases "ae_to_toml env d")
       (auto simp: st healthy_def save_def path_parent_def save_ops_def is_ok_iff validate_ok [symmetric]
        split: option.splits; metis not_is_ok_iff is_ok.simps)+
  note saved = this
  show ?thesis
  proof (cases "f (sh_cfg sh)")
    case (Inl e)
    then show ?thesis by (simp add: st commit_def mutate_def node_running_def)
  next
    case (Inr d)
    show ?thesis
    proof (cases "config_wf d")
      case True
      obtain r files' where sv: "save (ae_os env) (ae_to_toml env) (sh_path sh) d files = (r, files')"
        by (cases "save (ae_os env) (ae_to_toml env) (sh_path sh) d files")
      with saved [of d] True obtain u where "r = Inr u" by (auto simp: is_ok_iff)
      with Inr True sv show ?thesis
        by (simp add: st commit_def mutate_def node_running_def validate_ok [THEN iffD2])
    next
      case False
      then obtain e where "validate d = Inl e" by (cases "validate d") (auto simp: validate_ok [symmetric])
      with Inr False show ?thesis by (simp add: st commit_def mutate_def node_running_def)
    qed
  qed
qed

lemma commit_meets:
  assumes "refines f ed"
  shows "meets env (reg_apply ed (registry (node_running st))) st (commit env f st)"
proof -
  obtain r st' where c: "commit env f st = (r, st')" by (cases "commit env f st")
  have ref: "reg_apply ed (registry (node_running st)) =
      (case f (node_running st) of Inl e \<Rightarrow> None | Inr d \<Rightarrow> Some (registry d))"
    using assms by (simp add: refines_def)
  have "if is_ok r then reg_apply ed (registry (node_running st)) = Some (registry (node_running st'))
      else fst st' = fst st \<and> node_disk st' = node_disk st"
    using commit_Inl [of env f st _ st'] commit_Inr [of env f st _ st'] c ref by (cases r) auto
  moreover have "is_ok r \<longleftrightarrow> (\<exists>g. reg_apply ed (registry (node_running st)) = Some g \<and> reg_wf g)"
    if "healthy env st"
  proof -
    have "keys_ok (node_running st)" using that by (simp add: healthy_def config_wf_registry)
    with assms have "f (node_running st) = Inr d \<Longrightarrow> keys_ok d" for d by (simp add: refines_def)
    with commit_healthy [OF that, of f] c ref show ?thesis
      by (auto simp: config_wf_registry split: sum.splits)
  qed
  ultimately show ?thesis by (simp add: meets_def c)
qed

lemma commit_stays:
  assumes "\<And>c. \<not> is_ok (f c)"
  shows "meets env None st (commit env f st)"
proof -
  obtain r st' where c: "commit env f st = (r, st')" by (cases "commit env f st")
  have "\<not> is_ok r"
    using commit_Inr [of env f st _ st'] c assms [of "node_running st"] by (auto simp: is_ok_iff)
  then show ?thesis using commit_Inl [of env f st _ st'] c by (auto simp: meets_def not_is_ok_iff)
qed

lemma offers_meet:
  assumes "list_refines offer_key g h" and "\<And>sc r. reg_apply (ed sc) r = in_offers sc h r"
  shows "meets env (Option.bind (map_option ed (scope env peer)) (\<lambda>x. reg_apply x (registry (node_running st)))) st
           (commit env (on_offers env peer g) st)"
proof (cases peer)
  case None
  have "refines (on_offers env None g) (ed None)"
    by (rule refines_shared [OF assms(1)]) (simp add: assms(2))
  from commit_meets [OF this, of env st] None show ?thesis by (simp add: scope_def)
next
  case (Some p)
  show ?thesis
  proof (cases "parse_id env p")
    case (Inl e)
    with Some have "\<not> is_ok (on_offers env peer g c)" for c by (simp add: on_offers_def)
    with Inl Some show ?thesis by (simp add: scope_def the_id_def commit_stays)
  next
    case (Inr i)
    with Some have "on_offers env peer g = on_peer_offers i g" by (auto simp: on_offers_def)
    moreover have "refines (on_peer_offers i g) (ed (Some i))"
      by (rule refines_own [OF assms(1)]) (simp add: assms(2))
    note commit_meets [OF this, of env st]
    ultimately show ?thesis using Inr Some by (simp add: scope_def the_id_def)
  qed
qed

lemma peer_meets:
  assumes "\<And>i. refines (f i) (ed i)"
  shows "meets env (Option.bind (map_option ed (the_id env s)) (\<lambda>x. reg_apply x (registry (node_running st)))) st
           (case parse_id env s of Inl e \<Rightarrow> (Inl e, st) | Inr i \<Rightarrow> commit env (f i) st)"
proof (cases "parse_id env s")
  case (Inl e)
  then show ?thesis by (simp add: the_id_def meets_def)
next
  case (Inr i)
  with commit_meets [OF assms [of i], of env st] show ?thesis by (simp add: the_id_def)
qed

lemma handle_meets:
  "meets env (Option.bind (edit_of env call) (\<lambda>ed. reg_apply ed (registry (node_running st)))) st (handle env call st)"
proof (cases call)
  case (CAddPeer b)
  then show ?thesis using peer_meets [OF refines_add_peer] by (simp add: add_peer_def)
next
  case (CPatchPeer b)
  then show ?thesis using peer_meets [OF refines_patch_peer] by (simp add: patch_peer_def)
next
  case (CDelPeer b)
  then show ?thesis using peer_meets [OF refines_del_peer] by (simp add: del_peer_def)
next
  case (CAddOffer b)
  then show ?thesis by (auto simp: add_offer_def intro!: offers_meet list_refines_push)
next
  case (CPatchOffer b)
  then show ?thesis by (auto simp: patch_offer_def intro!: offers_meet list_refines_patch)
next
  case (CDelOffer b)
  then show ?thesis by (auto simp: del_offer_def intro!: offers_meet list_refines_drop)
next
  case (CAddBinding b)
  then show ?thesis
    by (auto simp: add_binding_def simp del: reg_apply.simps
        intro!: commit_meets refines_bindings [OF list_refines_push] reg_apply.simps)
next
  case (CPatchBinding b)
  then show ?thesis
    by (auto simp: patch_binding_def simp del: reg_apply.simps
        intro!: commit_meets refines_bindings [OF list_refines_patch] reg_apply.simps)
next
  case (CDelBinding b)
  then show ?thesis
    by (auto simp: del_binding_def simp del: reg_apply.simps
        intro!: commit_meets refines_bindings [OF list_refines_drop] reg_apply.simps)
qed

section \<open>Properties\<close>

text \<open>
  C14: the nine editing handlers refine the registry. An accepted call is exactly the abstract edit it
  asks for, a refused one changes neither the running configuration nor the file; and on a machine
  whose disk works, a call is accepted exactly when the id it names can be parsed, the abstract edit
  applies, and every name and port of the result is well formed.
\<close>
theorem handlers_refine_registry:
  assumes "handle env call st = (r, st')"
  shows "(if is_ok r
          then Option.bind (edit_of env call) (\<lambda>ed. reg_apply ed (registry (node_running st))) =
                 Some (registry (node_running st'))
          else fst st' = fst st \<and> node_disk st' = node_disk st) \<and>
         (healthy env st \<longrightarrow>
            (is_ok r \<longleftrightarrow>
              (\<exists>g. Option.bind (edit_of env call) (\<lambda>ed. reg_apply ed (registry (node_running st))) = Some g \<and>
                 reg_wf g)))"
  using handle_meets [of env call st] by (simp only: assms meets_def fst_conv snd_conv)

lemma with_body_ok:
  assumes "with_body env de h req st = (resp, st')" and "rs_status resp = 200"
  shows "\<exists>b u. h b st = (Inr u, st')"
  using assms by (auto simp: with_body_def split: if_splits sum.splits prod.splits)

definition edits :: "('id, 'h) AdminEnv \<Rightarrow> 'id node \<Rightarrow> Response \<times> 'id node \<Rightarrow> bool" where
  "edits env st out \<longleftrightarrow> (rs_status (fst out) = 200 \<longrightarrow> (\<exists>call u. handle env call st = (Inr u, snd out)))"

lemma edits_if: "(c \<Longrightarrow> edits env st x) \<Longrightarrow> edits env st y \<Longrightarrow> edits env st (if c then x else y)"
  by simp

lemma edits_body:
  assumes "\<And>b. \<exists>call. handle env call = h b"
  shows "edits env st (with_body env de h req st)"
  unfolding edits_def
proof
  assume "rs_status (fst (with_body env de h req st)) = 200"
  from with_body_ok [OF prod.collapse [symmetric] this] obtain b u
    where "h b st = (Inr u, snd (with_body env de h req st))" by blast
  with assms [of b] show "\<exists>call u. handle env call st = (Inr u, snd (with_body env de h req st))" by metis
qed

lemma handled:
  "\<exists>call. handle env call = add_peer env b0"
  "\<exists>call. handle env call = patch_peer env b1"
  "\<exists>call. handle env call = del_peer env b2"
  "\<exists>call. handle env call = add_offer env b3"
  "\<exists>call. handle env call = patch_offer env b4"
  "\<exists>call. handle env call = del_offer env b5"
  "\<exists>call. handle env call = add_binding env b6"
  "\<exists>call. handle env call = patch_binding env b7"
  "\<exists>call. handle env call = del_binding env b8"
  by (rule exI, rule handle.simps)+

lemma edits_dispatch: "rq_method req \<noteq> GET \<Longrightarrow> edits env st (dispatch env a req st)"
  unfolding dispatch_def Let_def
  by (intro edits_if edits_body handled) (auto simp: edits_def)

lemma dispatch_ok:
  assumes "dispatch env a req st = (resp, st')" and "rs_status resp = 200" and "rq_method req \<noteq> GET"
  shows "\<exists>call u. handle env call st = (Inr u, st')"
  using edits_dispatch [OF assms(3), of env st a] assms by (simp add: edits_def)

text \<open>
  C15: an accepted request is an edit, and nothing else is. Whatever request the panel answers with 200,
  other than a read, its effect on the registry of peers, offers and bindings is one of the nine
  abstract edits; whatever it answers otherwise leaves the registry as it was.
\<close>
theorem accepted_request_is_edit:
  assumes "route env a req st = (resp, st')"
  shows "if rs_status resp = 200 \<and> rq_method req \<noteq> GET
         then \<exists>ed. reg_apply ed (registry (node_running st)) = Some (registry (node_running st'))
         else registry (node_running st') = registry (node_running st)"
proof (cases "rs_status resp = 200 \<and> rq_method req \<noteq> GET")
  case True
  then have "dispatch env a req st = (resp, st')"
    using assms by (auto simp: route_def split: if_splits option.splits)
  with True obtain call u where call: "handle env call st = (Inr u, st')"
    using dispatch_ok by blast
  have "Option.bind (edit_of env call) (\<lambda>ed. reg_apply ed (registry (node_running st))) =
      Some (registry (node_running st'))"
    using handle_meets [of env call st] by (simp add: call meets_def)
  then have "\<exists>ed. reg_apply ed (registry (node_running st)) = Some (registry (node_running st'))"
    by (cases "edit_of env call") auto
  with True show ?thesis by simp
next
  case False
  have "node_running st' = node_running st"
    using fair_route [of env req st a] fair_edit_truth [OF fair_route [of env req st a, unfolded assms]] False
    by (auto simp: assms fair_def node_running_def)
  then show ?thesis unfolding if_not_P [OF False] by (simp only:)
qed

section \<open>Witnesses\<close>

theorem handlers_refine_registry_witness:
  "reg_apply (EAddPeer 3 []) (registry example_config) = Some (registry demo_with_3)"
  using handlers_refine_registry [of demo_env "CAddPeer \<lparr>pa_id = [51], pa_name = []\<rparr>" demo_node]
  by (simp add: demo_add the_id_def demo_ids)

theorem accepted_request_is_edit_witness:
  "\<exists>ed. reg_apply ed (registry example_config) = Some (registry demo_with_3)"
  using accepted_request_is_edit [OF demo_route] by (simp add: demo_request_def)

end
