(* ===== verification/Tcp_Path.thy ===== *)
theory Tcp_Path
  imports Serve_Side Connect_Side
begin

text \<open>
  The TCP path end to end: \<open>accept_tcp\<close> and \<open>forward_tcp\<close> of \<open>src/connect.rs\<close> on the reaching side,
  \<open>serve_stream\<close> of \<open>src/serve.rs\<close> on the other. \<open>copy_bidirectional\<close> and the QUIC stream are
  arguments; for the composition a stream is the bytes written to it.
\<close>

section \<open>The reaching side\<close>

text \<open>
  The accept loop over the results of \<open>accept\<close>: the sockets handed to a forwarding task, each with
  the remote port it is forwarded to, and whether the loop still accepts.
\<close>

fun accept_tcp :: "PortMap \<Rightarrow> ('e + 'tcp) list \<Rightarrow> ('tcp \<times> u16) list \<times> bool" where
  "accept_tcp m [] = ([], True)"
| "accept_tcp m (Inl e # rs) = ([], False)"
| "accept_tcp m (Inr sock # rs) =
     (case accept_tcp m rs of (tasks, on) \<Rightarrow> ((sock, m_remote m) # tasks, on))"

text \<open>
  One accepted connection. \<open>copy sock s\<close> is \<open>copy_bidirectional\<close>: its result, and the stream with what
  it wrote. The second component is the stream as it was left, when nothing failed before the copy.
\<close>

definition forward_tcp ::
  "'e + 's \<Rightarrow> ('s \<Rightarrow> u8 list \<Rightarrow> 'e + 's) \<Rightarrow> ('tcp \<Rightarrow> 's \<Rightarrow> ('e + nat \<times> nat) \<times> 's) \<Rightarrow> 'tcp \<Rightarrow> u16 \<Rightarrow>
     ('e + unit) \<times> 's option" where
  "forward_tcp open_bi write_all copy sock port =
     (case open_bi of
        Inl e \<Rightarrow> (Inl e, None)
      | Inr s \<Rightarrow>
          (case write_target_port write_all s port of
             Inl e \<Rightarrow> (Inl e, None)
           | Inr s1 \<Rightarrow> (case copy sock s1 of (r, s2) \<Rightarrow> (and_then r (\<lambda>_. Inr ()), Some s2))))"

lemma accept_tcp_spec:
  "accept_tcp m rs =
     (map (\<lambda>r. (projr r, m_remote m)) (takeWhile is_ok rs), list_all is_ok rs)"
proof (induction rs)
  case Nil
  then show ?case by simp
next
  case (Cons r rs)
  then show ?case by (cases r) auto
qed

section \<open>Both ends\<close>

text \<open>
  A client of a local port reaches the bound remote port, and nothing but that. Every connection
  the listener of a mapping accepts before its first error is forwarded, in order; and the offering
  side, reading the stream such a forwarding wrote, refuses it when the mapped remote port is not
  granted to the peer, and otherwise connects to exactly that port and copies exactly the bytes of
  the client, the header taken off.
\<close>
theorem tcp_reaches_bound_port:
  fixes write_all :: "u8 list \<Rightarrow> u8 list \<Rightarrow> 'e + u8 list"
    and read_exact :: "u8 list \<Rightarrow> nat \<Rightarrow> 'e + u8 list \<times> u8 list"
  assumes "\<And>s b. write_all s b = Inr (s @ b)"
    and "\<And>s n. n \<le> length s \<Longrightarrow> read_exact s n = Inr (take n s, drop n s)"
    and "\<And>s. snd (copy sock s) = s @ client"
  shows "map fst (fst (accept_tcp m rs)) = map projr (takeWhile is_ok rs) \<and>
         ((sock, port) \<in> set (fst (accept_tcp m rs)) \<longrightarrow>
            (\<exists>st. snd (forward_tcp (Inr []) write_all copy sock port) = Some st \<and>
               serve_stream read_exact tcp_connect far_copy cfg peer st =
                 (if (Tcp, m_remote m) \<notin> rights cfg peer
                  then (Inr (), [ResetSend REFUSED_PORT, StopRecv REFUSED_PORT])
                  else (case tcp_connect (m_remote m) of
                          Inl e \<Rightarrow> (Inl e, [ConnectLocal (m_remote m)])
                        | Inr far \<Rightarrow> (and_then (far_copy client far) (\<lambda>_. Inr ()),
                            [ConnectLocal (m_remote m), CopyBoth (m_remote m)])))))"
proof (intro conjI impI)
  show "map fst (fst (accept_tcp m rs)) = map projr (takeWhile is_ok rs)"
    by (simp add: accept_tcp_spec)
next
  assume "(sock, port) \<in> set (fst (accept_tcp m rs))"
  then have port: "port = m_remote m" by (auto simp: accept_tcp_spec)
  obtain rc where "copy sock (u16_to_be port) = (rc, u16_to_be port @ client)"
    using assms(3) [of "u16_to_be port"] by (cases "copy sock (u16_to_be port)") simp
  then have st: "snd (forward_tcp (Inr []) write_all copy sock port) = Some (u16_to_be port @ client)"
    by (simp add: forward_tcp_def write_target_port_def assms(1))
  have "read_target_port read_exact (u16_to_be port @ client) = Inr (port, client)"
    using assms(2) by (simp add: read_target_port_def be16.to_be_length be16.from_to_be)
  then show "\<exists>st. snd (forward_tcp (Inr []) write_all copy sock port) = Some st \<and>
               serve_stream read_exact tcp_connect far_copy cfg peer st =
                 (if (Tcp, m_remote m) \<notin> rights cfg peer
                  then (Inr (), [ResetSend REFUSED_PORT, StopRecv REFUSED_PORT])
                  else (case tcp_connect (m_remote m) of
                          Inl e \<Rightarrow> (Inl e, [ConnectLocal (m_remote m)])
                        | Inr far \<Rightarrow> (and_then (far_copy client far) (\<lambda>_. Inr ()),
                            [ConnectLocal (m_remote m), CopyBoth (m_remote m)])))"
    using st port by (simp add: serve_stream_def grant_list_iff)
qed

theorem tcp_reaches_bound_port_witness:
  "serve_stream (\<lambda>s n. if n \<le> length s then Inr (take n s, drop n s) else Inl (lit ''short''))
     (\<lambda>p. Inr (unat p)) (\<lambda>s far. Inr (length s, far)) dns_config 1
     (the (snd (forward_tcp (Inr []) (\<lambda>s b. Inr (s @ b) :: rstring + u8 list)
       (\<lambda>sock s. (Inr (3, 0), s @ [7, 8, 9])) (5 :: nat) 8080))) =
   (Inr (), [ConnectLocal 8080, CopyBoth 8080])"
proof -
  have "\<exists>st. snd (forward_tcp (Inr []) (\<lambda>s b. Inr (s @ b) :: rstring + u8 list)
       (\<lambda>sock s. (Inr (3, 0), s @ [7, 8, 9])) (5 :: nat) 8080) = Some st \<and>
     serve_stream (\<lambda>s n. if n \<le> length s then Inr (take n s, drop n s) else Inl (lit ''short''))
       (\<lambda>p. Inr (unat p)) (\<lambda>s far. Inr (length s, far)) dns_config 1 st =
     (Inr (), [ConnectLocal 8080, CopyBoth 8080])"
    using tcp_reaches_bound_port [where write_all = "\<lambda>s b. Inr (s @ b) :: rstring + u8 list"
        and read_exact = "\<lambda>s n. if n \<le> length s then Inr (take n s, drop n s) else Inl (lit ''short'')"
        and copy = "\<lambda>sock s. (Inr (3, 0), s @ [7, 8, 9])" and sock = "5 :: nat" and client = "[7, 8, 9]"
        and m = "\<lparr>m_local = 80, m_remote = 8080\<rparr>" and rs = "[Inr 5 :: rstring + nat]" and port = 8080
        and tcp_connect = "\<lambda>p. Inr (unat p)" and far_copy = "\<lambda>s far. Inr (length s, far)"
        and cfg = dns_config and peer = 1]
    by (simp add: dns_config_rights)
  then show ?thesis by auto
qed

end
