(* ===== verification/Hosted.thy ===== *)
theory Hosted
  imports Startup Admin Serve_Side Dial_Loop
begin

text \<open>
  A running process: a role (the node of \<open>serve.rs\<close> or the loop of \<open>connect.rs\<close>) with the admin panel
  beside it and the file under it, from \<open>main\<close> on. The panel's requests and the tasks of the role
  interleave freely; requests are the only edits.
\<close>

section \<open>A role beside the panel\<close>

text \<open>
  \<open>sh\<close> reads the shared state of a role, \<open>put\<close> is the \<open>send_replace\<close> of an accepted edit, \<open>task\<close> a step
  of the role's own tasks with what it does to the outside. Each request comes with the behaviour of
  the disk at its time, \<open>ae_os env\<close>.
\<close>

inductive hosted_step ::
  "('n \<Rightarrow> 'id::linorder Shared) \<Rightarrow> ('id Shared \<Rightarrow> 'n \<Rightarrow> 'n) \<Rightarrow> ('n \<Rightarrow> 'act list \<Rightarrow> 'n \<Rightarrow> bool) \<Rightarrow>
     ('id Config \<Rightarrow> rstring + rstring) \<Rightarrow> Admin \<Rightarrow> 'n \<times> fs \<Rightarrow> 'act list \<Rightarrow> 'n \<times> fs \<Rightarrow> bool"
  for sh put task to_toml a where
  Request: "ae_to_toml env = to_toml \<Longrightarrow> route env a (req :: u8 list Request) (sh n, files) = (resp, s', files') \<Longrightarrow>
     hosted_step sh put task to_toml a (n, files) []
       (if rs_status resp = 200 \<and> rq_method req \<noteq> GET then put s' n else n, files')"
| Task: "task n acts n' \<Longrightarrow> hosted_step sh put task to_toml a (n, files) acts (n', files)"

inductive hosted_run ::
  "('n \<Rightarrow> 'id::linorder Shared) \<Rightarrow> ('id Shared \<Rightarrow> 'n \<Rightarrow> 'n) \<Rightarrow> ('n \<Rightarrow> 'act list \<Rightarrow> 'n \<Rightarrow> bool) \<Rightarrow>
     ('id Config \<Rightarrow> rstring + rstring) \<Rightarrow> Admin \<Rightarrow> 'n \<times> fs \<Rightarrow> 'act list \<Rightarrow> 'n \<times> fs \<Rightarrow> bool"
  for sh put task to_toml a st0 where
  start: "hosted_run sh put task to_toml a st0 [] st0"
| more: "hosted_run sh put task to_toml a st0 tr st \<Longrightarrow> hosted_step sh put task to_toml a st acts st' \<Longrightarrow>
     hosted_run sh put task to_toml a st0 (tr @ acts) st'"

text \<open>The running configuration is valid and is what the file loads as.\<close>

definition agrees :: "(rstring \<Rightarrow> rstring + 'id Config) \<Rightarrow> 'id Shared \<times> fs \<Rightarrow> bool" where
  "agrees from_toml st \<longleftrightarrow>
     config_wf (sh_cfg (fst st)) \<and>
     load (\<lambda>_. None) from_toml (sh_path (fst st)) (snd st) = Inr (sh_cfg (fst st))"

lemma agrees_cong:
  assumes "agrees from_toml (s, files)" and "sh_cfg s' = sh_cfg s" and "sh_path s' = sh_path s"
    and "fmlookup files' (sh_path s) = fmlookup files (sh_path s)"
  shows "agrees from_toml (s', files')"
  using assms load_cong [OF assms(4), where rf = "\<lambda>_. None" and from_toml = from_toml]
  by (simp add: agrees_def)

lemma agrees_start:
  assumes "load rf from_toml (sh_path s) files = Inr (sh_cfg s)"
  shows "agrees from_toml (s, files)"
  using load_wf [OF assms] assms by (auto simp: agrees_def load_def split: option.splits)

text \<open>A request is one call of \<open>mutate\<close> that succeeds, or it changes neither the state nor the file.\<close>

lemma commit_path: "commit env f st = (r, st') \<Longrightarrow> sh_path (fst st') = sh_path (fst st)"
  using mutate_frame [of "ae_to_toml env" "ae_os env" _ "fst st" "snd st" r "fst st'" "snd st'"]
  by (simp add: commit_def)

lemma route_is_commit:
  assumes "route env a req (s, files) = (resp, s', files')"
  obtains (accepted) f where "rs_status resp = 200" "rq_method req \<noteq> GET"
      "commit env f (s, files) = (Inr (), s', files')"
  | (refused) "\<not> (rs_status resp = 200 \<and> rq_method req \<noteq> GET)" "s' = s"
      "fmlookup files' (sh_path s) = fmlookup files (sh_path s)"
proof -
  from fair_route [of env req "(s, files)" a] consider
    (none) "s' = s" "files' = files" "rs_status resp \<noteq> 200 \<or> rq_method req = GET"
  | (one) f r where "rq_method req \<noteq> GET" "commit env f (s, files) = (r, s', files')" "resp = answer env r"
    unfolding assms fair_def by auto
  then show thesis
  proof cases
    case none
    then show thesis using refused by auto
  next
    case (one f r)
    then show thesis
      using accepted [of f] refused commit_Inl [of env f "(s, files)" _ "(s', files')"]
      by (cases r) (auto simp: answer_def node_disk_def)
  qed
qed

lemma commit_agrees:
  assumes "commit env f (s, files) = (Inr u, s', files')"
    and "\<And>c t. ae_to_toml env c = Inr t \<Longrightarrow> from_toml (CONFIG_HEADER @ t) = Inr c"
  shows "agrees from_toml (s', files')"
  using commit_Inr [OF assms(1)] assms(2)
  by (auto simp: agrees_def load_def renders_def node_running_def node_disk_def validate_wf)

text \<open>
  What a panel relies on in the role beside it: an accepted edit is stored and counts as a step of
  the role's runs, and the role's own tasks neither edit nor move the file.
\<close>

locale hosted_role =
  fixes sh :: "'n \<Rightarrow> 'id::linorder Shared"
    and put :: "'id Shared \<Rightarrow> 'n \<Rightarrow> 'n"
    and task :: "'n \<Rightarrow> 'act list \<Rightarrow> 'n \<Rightarrow> bool"
    and run :: "'n \<Rightarrow> 'act list \<Rightarrow> 'n \<Rightarrow> bool"
  assumes sh_put: "sh (put s n) = s"
    and task_frame: "task n acts n' \<Longrightarrow> sh_cfg (sh n') = sh_cfg (sh n) \<and> sh_path (sh n') = sh_path (sh n)"
    and run_start: "run n0 [] n0"
    and run_task: "run n0 tr n \<Longrightarrow> task n acts n' \<Longrightarrow> run n0 (tr @ acts) n'"
    and run_edit: "run n0 tr n \<Longrightarrow> mutate to_toml os f (sh n, files) = (Inr (), s', files') \<Longrightarrow>
       run n0 tr (put s' n)"
begin

lemma step_refines:
  assumes "hosted_step sh put task to_toml a (n, files) acts (n', files')" and "run n0 tr n"
  shows "run n0 (tr @ acts) n'"
  using assms(1)
proof (cases rule: hosted_step.cases)
  case (Request env req resp s')
  from Request(4) show ?thesis
  proof (cases rule: route_is_commit)
    case (accepted f)
    then show ?thesis using Request run_edit [OF assms(2)] by (simp add: commit_def)
  next
    case refused
    then show ?thesis using Request assms(2) by auto
  qed
next
  case Task
  then show ?thesis using run_task [OF assms(2)] by simp
qed

lemma step_agrees:
  assumes "hosted_step sh put task to_toml a (n, files) acts (n', files')" and "agrees from_toml (sh n, files)"
    and "\<And>c t. to_toml c = Inr t \<Longrightarrow> from_toml (CONFIG_HEADER @ t) = Inr c"
  shows "agrees from_toml (sh n', files') \<and> sh_path (sh n') = sh_path (sh n)"
  using assms(1)
proof (cases rule: hosted_step.cases)
  case (Request env req resp s')
  from Request(4) show ?thesis
  proof (cases rule: route_is_commit)
    case (accepted f)
    then show ?thesis
      using Request commit_agrees [OF accepted(3)] commit_path [OF accepted(3)] assms(3) by (simp add: sh_put)
  next
    case refused
    then show ?thesis using Request agrees_cong [OF assms(2) refl refl] by auto
  qed
next
  case Task
  then show ?thesis using agrees_cong [OF assms(2)] task_frame by simp
qed

text \<open>The composition: the role runs as it would alone, and it runs the file.\<close>

lemma composed:
  assumes "hosted_run sh put task to_toml a (n0, files0) tr st" and "agrees from_toml (sh n0, files0)"
    and "\<And>c t. to_toml c = Inr t \<Longrightarrow> from_toml (CONFIG_HEADER @ t) = Inr c"
  shows "run n0 tr (fst st) \<and> agrees from_toml (sh (fst st), snd st) \<and> sh_path (sh (fst st)) = sh_path (sh n0)"
  using assms(1)
proof (induction rule: hosted_run.induct)
  case start
  then show ?case using assms(2) run_start by simp
next
  case (more tr st acts st')
  then show ?case
    using step_agrees [of to_toml a "fst st" "snd st" acts "fst st'" "snd st'" from_toml] assms(3)
      step_refines [of to_toml a "fst st" "snd st" acts "fst st'" "snd st'" n0 tr] by simp
qed

end

section \<open>The offering role\<close>

text \<open>The steps of the node that edit nothing.\<close>

definition serve_task ::
  "('id, 'sock) ServeNode \<Rightarrow> 'sock serve_act list \<Rightarrow> ('id, 'sock) ServeNode \<Rightarrow> bool" where
  "serve_task n acts n' \<longleftrightarrow> serve_step n acts n' \<and> cfg_now n' = cfg_now n"

lemma serve_step_path: "serve_step n acts n' \<Longrightarrow> sh_path (sn_shared n') = sh_path (sn_shared n)"
proof (induction rule: serve_step.induct)
  case (Edit to_toml os f n files r s' files')
  then show ?case using mutate_frame [OF Edit.hyps] by (simp add: publish_def)
next
  case (EvictLook n k c acts n')
  then show ?case by (auto simp: evict_look_def split: option.splits if_splits)
next
  case (Path n k c ev s')
  then show ?case using report_turn_path by simp
qed (auto simp: accept_conn_def evict_subscribed_def udp_subscribed_def udp_look_def conn_ended_def
    split: if_splits)

interpretation serving: hosted_role sn_shared publish serve_task serve_run
proof
  fix n acts n' assume "serve_task n acts (n' :: ('id, 'sock) ServeNode)"
  then show "sh_cfg (sn_shared n') = sh_cfg (sn_shared n) \<and> sh_path (sn_shared n') = sh_path (sn_shared n)"
    using serve_step_path by (auto simp: serve_task_def)
next
  fix n0 tr and n :: "('id, 'sock) ServeNode" and to_toml os f files s' files'
  assume "serve_run n0 tr n" and "mutate to_toml os f (sn_shared n, files) = (Inr (), s', files')"
  from serve_run.more [OF this(1) serve_step.Edit [OF this(2)]] show "serve_run n0 tr (publish s' n)" by simp
qed (auto simp: publish_def serve_task_def intro: serve_run.intros)

section \<open>The reaching role\<close>

definition dial_task :: "('id, 'l) Dialer \<Rightarrow> unit list \<Rightarrow> ('id, 'l) Dialer \<Rightarrow> bool" where
  "dial_task d acts d' \<longleftrightarrow> dial_step d d' \<and> acts = [] \<and> sh_cfg (d_shared d') = sh_cfg (d_shared d)"

lemma dial_step_path: "dial_step d d' \<Longrightarrow> sh_path (d_shared d') = sh_path (d_shared d)"
proof (induction rule: dial_step.induct)
  case (Edit to_toml os f d files r s' files')
  then show ?case using mutate_frame [OF Edit.hyps] by simp
next
  case (PathTurn d ev s')
  then show ?case using report_turn_path by simp
qed (auto simp: dial_ok_def dial_failed_def wait_retry_def connected_changed_def conn_closed_def
    waiting_changed_def retry_due_def Let_def dest: reconcile_path split: prod.splits close_reason.splits)

interpretation dialing: hosted_role d_shared "\<lambda>s d. d\<lparr>d_shared := s\<rparr>" dial_task "\<lambda>d0 _. dial_run d0"
proof
  fix d acts d' assume "dial_task d acts (d' :: ('id, 'l) Dialer)"
  then show "sh_cfg (d_shared d') = sh_cfg (d_shared d) \<and> sh_path (d_shared d') = sh_path (d_shared d)"
    using dial_step_path by (auto simp: dial_task_def)
qed (auto simp: dial_task_def intro: dial_run.intros dial_step.Edit)

section \<open>From the start of the program on\<close>

lemma shared_new_live: "live_of (shared_new cfg path role now) = fmempty"
  by (simp add: shared_new_def)

lemma change_cfg:
  assumes "config_wf (sh_cfg (d_shared d))"
  shows "sh_cfg (d_shared (connected_changed os d)) = sh_cfg (d_shared d)"
    and "sh_cfg (d_shared (waiting_changed os d)) = sh_cfg (d_shared d)"
proof -
  obtain ch bound s where rec: "reconcile os (wanted (d_shared d)) (d_bound d) (d_shared d) = (ch, bound, s)"
    by (cases "reconcile os (wanted (d_shared d)) (d_bound d) (d_shared d)")
  have "sh_cfg s = sh_cfg (d_shared d)"
    using reconcile_table [OF rec wanted_distinct [OF assms]] by simp
  then show "sh_cfg (d_shared (connected_changed os d)) = sh_cfg (d_shared d)"
    "sh_cfg (d_shared (waiting_changed os d)) = sh_cfg (d_shared d)"
    by (simp_all add: connected_changed_def waiting_changed_def rec)
qed

text \<open>
  C22: \<open>rtun serve\<close> with its panel, from the start of the program on. Whatever requests the panel gets,
  authorised or not, whatever the disk does to the saves and however the tasks of the node interleave
  with them, the node runs a valid configuration that is the one a restart would load, behaves as the
  node alone could, and opens a loopback TCP connection only to a port that the file then grants to
  the peer of the connection.
\<close>
theorem serving_follows_file:
  fixes E :: "('id::linorder, 'v6) StartEnv" and n :: "('id, 'sock) ServeNode"
  assumes "main_run E cmd f = (Inr (Outcome.Serving s (Some a)), f0)" and "toml_faithful E"
    and "hosted_run sn_shared publish serve_task (se_to_toml E) a (serve_start s, f0) tr (n, g)"
  shows "load (\<lambda>_. None) (se_from_toml E) (sh_path s) g = Inr (cfg_now n) \<and> config_wf (cfg_now n) \<and>
         serve_run (serve_start s) tr n \<and>
         (\<forall>acts n' k p. serve_task n acts n' \<longrightarrow> StreamAct k (ConnectLocal p) \<in> set acts \<longrightarrow>
            (\<exists>c cfg. fmlookup (sn_conns n) k = Some c \<and>
               load (\<lambda>_. None) (se_from_toml E) (sh_path s) g = Inr cfg \<and> (Tcp, p) \<in> rights cfg (cn_peer c)))"
proof -
  have "load (se_read_fails E) (se_from_toml E) (sh_path s) f0 = Inr (sh_cfg s)"
    using main_starts [OF assms(1) _ assms(2)] by simp
  from agrees_start [OF this] have "agrees (se_from_toml E) (sn_shared (serve_start s :: ('id, 'sock) ServeNode), f0)"
    by (simp add: serve_start_def)
  from serving.composed [OF assms(3) this] assms(2)
  have "serve_run (serve_start s) tr n" "agrees (se_from_toml E) (sn_shared n, g)" "sh_path (sn_shared n) = sh_path s"
    by (auto simp: toml_faithful_def serve_start_def)
  moreover have "\<exists>c. fmlookup (sn_conns n) k = Some c \<and> (Tcp, p) \<in> rights (cfg_now n) (cn_peer c)"
    if "serve_task n acts n'" "StreamAct k (ConnectLocal p) \<in> set acts" for acts n' k p
    using that stream_step_connects [of n acts n' k p] by (auto simp: serve_task_def)
  ultimately show ?thesis by (simp add: agrees_def)
qed

text \<open>
  C23: \<open>rtun connect\<close> with its panel, from the start of the program on. The loop runs a valid
  configuration that is the one a restart would load, behaves as the loop alone could, and once it has
  handled a change it listens exactly where that file says: every listener is an enabled binding of
  the file with its remote port, and every enabled binding is listening or is reported as failed.
\<close>
theorem dialing_follows_file:
  fixes E :: "('id::linorder, 'v6) StartEnv" and d :: "('id, 'l) Dialer"
  assumes "main_run E cmd f = (Inr (Outcome.Dialing peer s (Some a)), f0)" and "toml_faithful E"
    and "hosted_run d_shared (\<lambda>s d. d\<lparr>d_shared := s\<rparr>) dial_task (se_to_toml E) a (loop_start os peer s, f0) tr (d, g)"
  shows "load (\<lambda>_. None) (se_from_toml E) (sh_path s) g = Inr (sh_cfg (d_shared d)) \<and>
         config_wf (sh_cfg (d_shared d)) \<and> dial_run (loop_start os peer s) d \<and>
         (\<forall>os' d'. d' = connected_changed os' d \<and> d_phase d = Connected \<or>
                  d' = waiting_changed os' d \<and> d_phase d = Waiting \<longrightarrow>
            (\<exists>cfg. load (\<lambda>_. None) (se_from_toml E) (sh_path s) g = Inr cfg \<and>
               (\<forall>k sock remote. fmlookup (d_bound d') k = Some (sock, remote) \<longrightarrow>
                  (\<exists>b \<in> set (active_bindings cfg). binding_key b = k \<and> b_remote b = remote)) \<and>
               (\<forall>b \<in> set (active_bindings cfg). fmlookup (d_bound d') (binding_key b) = None \<longrightarrow>
                  (\<exists>e. bind_state b (d_shared d') = Some (Failed e)))))"
proof -
  from main_starts [OF assms(1) _ assms(2)]
  have ld: "load (se_read_fails E) (se_from_toml E) (sh_path s) f0 = Inr (sh_cfg s)"
    and wf: "config_wf (sh_cfg s)" and fresh: "live_of s = fmempty"
    by (auto dest: arg_cong [where f = live_of] simp: shared_new_live)
  obtain ch bound s1 where rec: "reconcile os (wanted s) fmempty s = (ch, bound, s1)"
    by (cases "reconcile os (wanted s) fmempty s")
  have s1: "sh_cfg s1 = sh_cfg s" "sh_path s1 = sh_path s"
    using reconcile_table [OF rec wanted_distinct [OF wf]] reconcile_path [OF rec] by auto
  have "agrees (se_from_toml E) (d_shared (loop_start os peer s), f0)"
    using agrees_cong [OF agrees_start [OF ld]] s1 by (simp add: loop_start_def rec)
  from dialing.composed [OF assms(3) this] assms(2) s1
  have run: "dial_run (loop_start os peer s) d" and ag: "agrees (se_from_toml E) (d_shared d, g)"
    and path: "sh_path (d_shared d) = sh_path s"
    by (auto simp: toml_faithful_def loop_start_def rec)
  have inv: "dial_inv d" by (rule dial_run_inv [OF wf fresh run])
  have sync: "(\<forall>k sock remote. fmlookup (d_bound d') k = Some (sock, remote) \<longrightarrow>
                  (\<exists>b \<in> set (wanted (d_shared d)). binding_key b = k \<and> b_remote b = remote)) \<and>
              (\<forall>b \<in> set (wanted (d_shared d)). fmlookup (d_bound d') (binding_key b) = None \<longrightarrow>
                  (\<exists>e. bind_state b (d_shared d') = Some (Failed e)))"
    if "d' = connected_changed os' d \<and> d_phase d = Connected \<or> d' = waiting_changed os' d \<and> d_phase d = Waiting"
    for os' d'
  proof -
    have cfg: "sh_cfg (d_shared d') = sh_cfg (d_shared d)"
      using that inv by (auto simp: change_cfg dial_inv_def)
    note R = change_reaches_sockets [OF inv that, unfolded cfg]
    have "\<exists>e. bind_state b (d_shared d') = Some (Failed e)"
      if b: "b \<in> set (wanted (d_shared d))" "fmlookup (d_bound d') (binding_key b) = None" for b
      using bspec [OF conjunct2 [OF R] b(1)] b(2) by (auto split: option.splits BindState.splits)
    with conjunct1 [OF R] show ?thesis by blast
  qed
  with run ag path show ?thesis by (simp add: agrees_def)
qed

section \<open>Witnesses\<close>

text \<open>A restart on the files of a machine that shares port 22 and 8080 and binds 2222, with a panel.\<close>

definition home :: "(nat, nat) StartEnv" where
  "home = demo_start
     \<lparr>se_from_toml := \<lambda>s. if s = CONFIG_HEADER then Inr example_config else Inl [],
      se_to_toml := \<lambda>c. if c = example_config then Inr [] else Inl []\<rparr>"

definition home_files :: fs where
  "home_files =
     fmupd (token_path [lit ''d'']) [120]
       (fmupd (key_path [lit ''d'']) (replicate 32 7) (fmupd demo_path CONFIG_HEADER fmempty))"

definition home_panel :: Admin where
  "home_panel = \<lparr>ad_token = [120], ad_id = replicate 32 7\<rparr>"

definition home_shared :: "Role \<Rightarrow> nat Shared" where
  "home_shared role = shared_new example_config demo_path role 0"

lemma home_toml: "toml_faithful home"
  by (simp add: toml_faithful_def home_def)

lemma home_simps:
  "se_windows home = False" "se_os home = (\<lambda>_. None)" "se_read_fails home = (\<lambda>_. None)"
  "se_from_toml home CONFIG_HEADER = Inr example_config" "se_bind home b k = Inr k" "se_now home = 0"
  "se_listen home addr = None" "(state_dir False (se_env home) :: nat error + path) = Inr [lit ''d'']"
  using demo_start_simps by (simp_all add: home_def) (simp add: demo_start_def)

lemma home_file_simps:
  "fmlookup home_files demo_path = Some CONFIG_HEADER"
  "fmlookup home_files (key_path [lit ''d'']) = Some (replicate 32 7)"
  "fmlookup home_files (token_path [lit ''d'']) = Some [120]"
  using state_paths [of "[lit ''d'']"] by (auto simp: home_files_def demo_path_def)

lemma home_start:
  assumes "seed example_config = (example_config, False)" and "\<not> useless example_config"
  shows "start_role home role seed useless refusal (Some (show_u16 7000)) relay_only home_files =
           (Inr (home_shared role, Some home_panel), home_files)"
proof -
  have "seed_config home seed demo_path home_files = (Inr example_config, home_files)"
    using validate_wf [OF example_config_wf]
    by (simp add: seed_config_def load_def home_simps home_file_simps assms(1))
  moreover have "load_key_here home home_files = (Inr (replicate 32 7) :: nat error + rstring, home_files)"
    by (simp add: load_key_here_def home_simps load_or_create_key_def home_file_simps)
  moreover have "start_admin home (show_u16 7000) (replicate 32 7) home_files =
      (Inr home_panel :: nat error + Admin, home_files)"
    by (simp add: start_admin_def admin_addr_def parse_show_u16 check_port_def home_simps
        load_or_create_token_def stored_token_def home_file_simps trim_def is_whitespace_def home_panel_def)
  ultimately show ?thesis
    using assms(2)
    by (simp add: start_role_def config_path_def bind_endpoint_def start_panel_def home_simps
        home_shared_def demo_path_def)
qed

lemma home_serves:
  "main_run home (CmdServe [] [] [] (Some (show_u16 7000)) False) home_files =
     (Inr (Outcome.Serving (home_shared RoleServe) (Some home_panel)), home_files)"
  by (simp add: serve_main_def home_start seed_from_flags_def example_config_def with_peers_def with_shared_def)

lemma home_dials:
  "main_run home (CmdConnect 9 [] [] (Some (show_u16 7000)) False) home_files =
     (Inr (Outcome.Dialing 9 (home_shared RoleConnect) (Some home_panel)), home_files)"
  by (simp add: connect_main_def home_start seed_bindings_def example_config_def with_bindings_def)

text \<open>Peer 1 is admitted and asks for port 8080.\<close>

definition home_node :: "(nat, nat) ServeNode" where
  "home_node = snd (accept_conn 3 0 1 [] (serve_start (home_shared RoleServe)))"

lemma home_admits: "(Tcp, 8080) \<in> rights example_config 1" "admits example_config 1"
proof -
  show "(Tcp, 8080) \<in> rights example_config 1"
    by (auto simp: rights_def cfg_peer_def example_config_def offer_key_def)
  then show "admits example_config 1" by (rule policy.right_admit)
qed

lemma home_accept: "accept_conn 3 0 1 [] (serve_start (home_shared RoleServe)) = ([], home_node)"
  using home_admits
  by (simp add: home_node_def accept_conn_def home_shared_def shared_new_def serve_start_def)

lemma home_node_simps:
  "cfg_now home_node = example_config" "fmlookup (sn_conns home_node) 0 \<noteq> None"
  "fmlookup (sn_conns home_node) 0 = Some c \<Longrightarrow> cn_peer c = 1"
  using home_admits
  by (auto simp: home_node_def accept_conn_def home_shared_def shared_new_def serve_start_def log_selected_def)

lemma home_run:
  "hosted_run sn_shared publish serve_task (se_to_toml home) home_panel
     (serve_start (home_shared RoleServe), home_files) ([] :: nat serve_act list) (home_node, home_files)"
proof -
  have "serve_step (serve_start (home_shared RoleServe)) [] home_node"
    by (rule serve_step.Accept [OF _ home_accept]) (simp add: serve_start_def)
  then have "serve_task (serve_start (home_shared RoleServe)) [] home_node"
    using home_node_simps(1) by (simp add: serve_task_def serve_start_def home_shared_def shared_new_def)
  from hosted_run.more [OF hosted_run.start hosted_step.Task [of serve_task, OF this]] show ?thesis by simp
qed

lemma home_stream:
  "serve_task home_node [StreamAct 0 (ConnectLocal 8080), StreamAct 0 (CopyBoth 8080)] home_node"
proof -
  obtain c where c: "fmlookup (sn_conns home_node) 0 = Some c" using home_node_simps(2) by blast
  have "serve_stream (\<lambda>s n. Inr (take n s, drop n s)) (\<lambda>_. Inr 0) (\<lambda>_ _. Inr (0, 0)) (cfg_now home_node)
      (cn_peer c) (u16_to_be 8080) = (Inr (), [ConnectLocal 8080, CopyBoth 8080])"
    using home_node_simps(3) [OF c] home_admits(1)
    by (simp add: serve_stream_def read_target_port_def be16.to_be_length be16.from_to_be grant_list_iff
        home_node_simps(1))
  from serve_step.Stream [OF c this] show ?thesis by (simp add: serve_task_def)
qed

theorem serving_follows_file_witness:
  "load (\<lambda>_. None) (se_from_toml home) demo_path home_files = Inr example_config \<and>
   (Tcp, 8080) \<in> rights example_config 1"
proof -
  note all = serving_follows_file [OF home_serves home_toml home_run]
  have path: "sh_path (home_shared RoleServe) = demo_path" by (simp add: home_shared_def shared_new_def)
  have "\<exists>c cfg. fmlookup (sn_conns home_node) 0 = Some c \<and>
      load (\<lambda>_. None) (se_from_toml home) demo_path home_files = Inr cfg \<and> (Tcp, 8080) \<in> rights cfg (cn_peer c)"
    using all home_stream unfolding path by (meson list.set_intros(1))
  with all show ?thesis by (auto simp: path home_node_simps)
qed

text \<open>Peer 9 is dialed and answers; its one listener is on port 2222.\<close>

definition home_up :: "(nat, nat) Dialer" where
  "home_up = dial_ok 4 9 [] (loop_start picky_os 9 (home_shared RoleConnect))"

lemma home_loop:
  "d_peer (loop_start picky_os 9 (home_shared RoleConnect)) = 9"
  "d_phase (loop_start picky_os 9 (home_shared RoleConnect)) = dial_phase.Dialing"
  "sh_cfg (d_shared (loop_start picky_os 9 (home_shared RoleConnect))) = example_config"
  "d_bound (loop_start picky_os 9 (home_shared RoleConnect)) = fmupd (Tcp, 2222) (SockTcp 2222, 22) fmempty"
  by (simp_all add: loop_start_def home_shared_def shared_new_def active_bindings_def example_config_def
      reconcile_def reconcile_one_def picky_os_def sorted_list_of_fset.rep_eq)

lemma home_up_simps:
  "d_phase home_up = Connected" "sh_cfg (d_shared home_up) = example_config"
  "d_bound home_up = fmupd (Tcp, 2222) (SockTcp 2222, 22) fmempty"
  by (simp_all add: home_up_def dial_ok_def home_loop)

lemma home_changed:
  "fmlookup (d_bound (connected_changed picky_os home_up)) (Tcp, 2222) = Some (SockTcp 2222, 22)"
  by (simp add: connected_changed_def home_up_simps active_bindings_def example_config_def reconcile_def
      reconcile_one_def drop_stale_def binding_key_def picky_os_def sorted_list_of_fset.rep_eq)

lemma home_dial_run:
  "hosted_run d_shared (\<lambda>s d. d\<lparr>d_shared := s\<rparr>) dial_task (se_to_toml home) home_panel
     (loop_start picky_os 9 (home_shared RoleConnect), home_files) [] (home_up, home_files)"
proof -
  have "dial_step (loop_start picky_os 9 (home_shared RoleConnect)) home_up"
    using dial_step.Opened [of "loop_start picky_os 9 (home_shared RoleConnect)" 4 "[]"]
    by (simp add: home_loop home_up_def)
  then have "dial_task (loop_start picky_os 9 (home_shared RoleConnect)) [] home_up"
    by (simp add: dial_task_def home_loop home_up_simps)
  from hosted_run.more [OF hosted_run.start hosted_step.Task [of dial_task, OF this]] show ?thesis by simp
qed

theorem dialing_follows_file_witness:
  "\<exists>cfg. load (\<lambda>_. None) (se_from_toml home) demo_path home_files = Inr cfg \<and>
     (\<exists>b \<in> set (active_bindings cfg). binding_key b = (Tcp, 2222) \<and> b_remote b = 22)"
proof -
  note all = dialing_follows_file [OF home_dials home_toml home_dial_run]
  have path: "sh_path (home_shared RoleConnect) = demo_path" by (simp add: home_shared_def shared_new_def)
  from conjunct2 [OF conjunct2 [OF conjunct2 [OF all]], THEN spec, THEN spec,
      of "connected_changed picky_os home_up" picky_os]
  obtain cfg where cfg: "load (\<lambda>_. None) (se_from_toml home) demo_path home_files = Inr cfg"
    and listed: "\<forall>k sock remote. fmlookup (d_bound (connected_changed picky_os home_up)) k = Some (sock, remote) \<longrightarrow>
        (\<exists>b \<in> set (active_bindings cfg). binding_key b = k \<and> b_remote b = remote)"
    unfolding path using home_up_simps(1) by blast
  from listed home_changed have "\<exists>b \<in> set (active_bindings cfg). binding_key b = (Tcp, 2222) \<and> b_remote b = 22"
    by blast
  with cfg show ?thesis by blast
qed

end
