(* ===== verification/Pumps.thy ===== *)
theory Pumps
  imports Connect_Side Serve_Side
begin

text \<open>
  The tasks of the UDP path as whole loops over what they receive: \<open>pump_udp_out\<close> and \<open>pump_udp_in\<close> of
  \<open>connect.rs\<close>, \<open>pump_udp\<close> of \<open>serve.rs\<close>. Each is its turn, iterated until an error of its source ends it;
  the interleaving of the tasks with one another is in the step relations.
\<close>

section \<open>The loops\<close>

definition UDP_BUF :: nat where
  "UDP_BUF = 65535"

text \<open>
  A turn of the outgoing pump: \<open>recv_from\<close> fills the buffer, \<open>fits\<close> says which datagrams
  \<open>send_datagram\<close> takes. The other results of a turn are the end of the task and the panic of \<open>id_for\<close>.
\<close>

datatype 'e out_end = OutWaiting | OutFailed 'e | OutPanicked

fun pump_udp_out ::
  "'l \<Rightarrow> PortMap \<Rightarrow> (u8 list \<Rightarrow> bool) \<Rightarrow> ('e + nat \<times> 'a \<times> u8 list) list \<Rightarrow> ('a, 'l) CSessions \<Rightarrow>
     'e out_end \<times> u8 list list \<times> ('a, 'l) CSessions" where
  "pump_udp_out sock m fits [] t = (OutWaiting, [], t)"
| "pump_udp_out sock m fits (Inl e # evs) t = (OutFailed e, [], t)"
| "pump_udp_out sock m fits (Inr (now, src, x) # evs) t =
     (case udp_out now src sock m (take UDP_BUF x) t of
        (None, t1) \<Rightarrow> (OutPanicked, [], t1)
      | (Some dg, t1) \<Rightarrow>
          (case pump_udp_out sock m fits evs t1 of
             (r, sent, t2) \<Rightarrow> (r, (if fits dg then dg # sent else sent), t2)))"

text \<open>The incoming pump: the datagrams it hands to the listeners, each with its destination.\<close>

fun pump_udp_in ::
  "('e + nat \<times> u8 list) list \<Rightarrow> ('a, 'l) CSessions \<Rightarrow>
     'e option \<times> ('l \<times> 'a \<times> u8 list) list \<times> ('a, 'l) CSessions" where
  "pump_udp_in [] t = (None, [], t)"
| "pump_udp_in (Inl e # evs) t = (Some e, [], t)"
| "pump_udp_in (Inr (now, dg) # evs) t =
     (case udp_in now dg t of
        (out, t1) \<Rightarrow>
          (case pump_udp_in evs t1 of
             (r, outs, t2) \<Rightarrow> (r, (case out of None \<Rightarrow> outs | Some d \<Rightarrow> d # outs), t2)))"

text \<open>
  The pump of the offering side. \<open>turn\<close> is what surrounds a datagram: the configuration in force and
  the operating system's answers. \<open>Edited\<close> carries the configuration that is current when the change
  is looked at, \<open>EditsGone\<close> is the end of the channel.
\<close>

record ('id, 'e, 'sock) turn =
  tu_bind :: "'e + 'sock"
  tu_connect :: "'sock \<Rightarrow> u16 \<Rightarrow> 'e + unit"
  tu_send :: "'sock \<Rightarrow> u8 list \<Rightarrow> 'e + unit"
  tu_now :: nat
  tu_cfg :: "'id Config"

datatype ('id, 'e, 'sock) pump_event =
    Received "u8 list" "('id, 'e, 'sock) turn"
  | ReadError 'e
  | Edited "'id Config"
  | EditsGone

datatype 'e pump_end = PumpWaiting | ReaderStopped 'e | ConfigGone

fun pump_udp ::
  "'id \<Rightarrow> ('id, 'e, 'sock) pump_event list \<Rightarrow> 'sock serve_table \<Rightarrow>
     'e pump_end \<times> 'sock udp_act list \<times> 'sock serve_table" where
  "pump_udp peer [] t = (PumpWaiting, [], t)"
| "pump_udp peer (ReadError e # evs) t = (ReaderStopped e, [], t)"
| "pump_udp peer (EditsGone # evs) t = (ConfigGone, [], t)"
| "pump_udp peer (Edited cfg # evs) t = pump_udp peer evs (udp_changed cfg peer t)"
| "pump_udp peer (Received dg w # evs) t =
     (case serve_datagram (tu_bind w) (tu_connect w) (tu_send w) (tu_now w) (tu_cfg w) peer dg t of
        (r, acts, t1) \<Rightarrow>
          (case pump_udp peer evs t1 of (x, acts', t2) \<Rightarrow> (x, acts @ acts', t2)))"

section \<open>The numbering of the clients\<close>

text \<open>
  The reference: a client's number is how many clients had written before its first datagram, and one.
\<close>

definition client_no :: "'a \<Rightarrow> 'a list \<Rightarrow> nat" where
  "client_no src srcs = Suc (card (set (takeWhile (\<lambda>s. s \<noteq> src) srcs)))"

fun received :: "('e + 'b) list \<Rightarrow> 'b list" where
  "received (Inr x # evs) = x # received evs"
| "received _ = []"

fun first_error :: "('e + 'b) list \<Rightarrow> 'e option" where
  "first_error [] = None"
| "first_error (Inl e # evs) = Some e"
| "first_error (Inr x # evs) = first_error evs"

lemma client_no_known: "src \<in> set h \<Longrightarrow> client_no src (h @ later) = client_no src h"
  by (simp add: client_no_def takeWhile_append1)

lemma client_no_new: "src \<notin> set h \<Longrightarrow> client_no src (h @ src # later) = Suc (card (set h))"
proof -
  assume "src \<notin> set h"
  then have "takeWhile (\<lambda>s. s \<noteq> src) (h @ src # later) = h" by (subst takeWhile_append2) auto
  then show ?thesis by (simp add: client_no_def)
qed

text \<open>The table after the datagrams of the clients \<open>h\<close>, in this order, on one listener.\<close>

definition numbered :: "u16 \<Rightarrow> 'a list \<Rightarrow> ('a, 'l) CSessions \<Rightarrow> bool" where
  "numbered port h t \<longleftrightarrow> keys_live t \<and> next_id t = of_nat (card (set h)) \<and>
     (\<forall>src. fmlookup (by_key t) (src, port) =
        (if src \<in> set h then Some (of_nat (client_no src h)) else None))"

lemma numbered_start: "numbered port [] no_sessions"
  by (simp add: numbered_def no_sessions_def keys_live_def)

lemma numbered_out:
  assumes "numbered (m_remote m) h t"
  obtains t1 where "udp_out now src sock m x t =
      (Some (encode_datagram (of_nat (client_no src (h @ [src]))) (m_remote m) x), t1)"
    and "numbered (m_remote m) (h @ [src]) t1"
proof (cases "src \<in> set h")
  case True
  then have key: "fmlookup (by_key t) (src, m_remote m) = Some (of_nat (client_no src h))"
    using assms by (simp add: numbered_def)
  moreover have "fmlookup (by_id t) (of_nat (client_no src h)) \<noteq> None"
    using assms key unfolding numbered_def keys_live_def by blast
  ultimately obtain s where s: "fmlookup (by_key t) (src, m_remote m) = Some (of_nat (client_no src h))"
      "fmlookup (by_id t) (of_nat (client_no src h)) = Some s"
    by blast
  then have id: "id_for now src (m_remote m) sock t =
      (Some (of_nat (client_no src h)),
       t\<lparr>by_id := fmupd (of_nat (client_no src h)) (s\<lparr>cs_last := now\<rparr>) (by_id t)\<rparr>)"
    by (simp add: id_for_def)
  have same: "client_no a (h @ [src]) = client_no a h" if "a \<in> set h" for a
    using that by (rule client_no_known)
  show thesis
    by (rule that, unfold udp_out_def id)
      (use assms True same in \<open>auto simp: numbered_def keys_live_def insert_absorb\<close>)
next
  case False
  then have new: "fmlookup (by_key t) (src, m_remote m) = None" using assms by (simp add: numbered_def)
  have no: "client_no src (h @ [src]) = Suc (card (set h))" by (rule client_no_new [OF False])
  have nid: "next_id t + 1 = of_nat (Suc (card (set h)))" using assms by (simp add: numbered_def)
  have same: "client_no a (h @ [src]) = client_no a h" if "a \<in> set h" for a
    using that by (rule client_no_known)
  have live: "keys_live (snd (id_for now src (m_remote m) sock t))"
    using assms keys_live_step [of t "IdFor now src (m_remote m) sock"] by (simp add: numbered_def)
  show thesis
  proof (rule that)
    show "udp_out now src sock m x t =
        (Some (encode_datagram (of_nat (client_no src (h @ [src]))) (m_remote m) x),
         snd (id_for now src (m_remote m) sock t))"
      by (simp add: udp_out_def id_for_def new no nid Let_def)
    show "numbered (m_remote m) (h @ [src]) (snd (id_for now src (m_remote m) sock t))"
      using live assms False same no
      by (auto simp: numbered_def id_for_def new nid Let_def add.commute)
  qed
qed

lemma pump_out_numbers:
  assumes "numbered (m_remote m) h t"
  shows "\<exists>t'. pump_udp_out sock m fits evs t =
     (case first_error evs of None \<Rightarrow> OutWaiting | Some e \<Rightarrow> OutFailed e,
      filter fits
        (map (\<lambda>(now, src, x). encode_datagram
                (of_nat (client_no src (h @ map (fst \<circ> snd) (received evs)))) (m_remote m) (take UDP_BUF x))
           (received evs)), t')"
  using assms
proof (induction evs arbitrary: h t rule: received.induct)
  case (1 p evs)
  obtain now src x where p: "p = (now, src, x)" by (cases p)
  from numbered_out [OF 1(2), where now = now and src = src and sock = sock and x = "take UDP_BUF x"]
  obtain t1 where out: "udp_out now src sock m (take UDP_BUF x) t =
      (Some (encode_datagram (of_nat (client_no src (h @ [src]))) (m_remote m) (take UDP_BUF x)), t1)"
    and t1: "numbered (m_remote m) (h @ [src]) t1" by metis
  have no: "client_no src (h @ src # later) = client_no src (h @ [src])" for later
    using client_no_known [of src "h @ [src]" later] by simp
  from 1(1) [OF t1] obtain t' where "pump_udp_out sock m fits evs t1 =
     (case first_error evs of None \<Rightarrow> OutWaiting | Some e \<Rightarrow> OutFailed e,
      filter fits
        (map (\<lambda>(now, a, x). encode_datagram
                (of_nat (client_no a ((h @ [src]) @ map (fst \<circ> snd) (received evs)))) (m_remote m) (take UDP_BUF x))
           (received evs)), t')" by blast
  then show ?case
    by (intro exI [of _ t']) (simp add: p out comp_def no [of "map (\<lambda>a. fst (snd a)) (received evs)"])
qed simp_all


section \<open>The end of the tasks\<close>

fun pump_fatal :: "('id, 'e, 'sock) pump_event \<Rightarrow> bool" where
  "pump_fatal (Received dg w) = False"
| "pump_fatal (ReadError e) = True"
| "pump_fatal (Edited cfg) = False"
| "pump_fatal EditsGone = True"

lemma pump_udp_append:
  "pump_udp peer (xs @ ys) t =
     (case pump_udp peer xs t of
        (PumpWaiting, acts, t1) \<Rightarrow> (case pump_udp peer ys t1 of (r, acts', t2) \<Rightarrow> (r, acts @ acts', t2))
      | stopped \<Rightarrow> stopped)"
  by (induction peer xs t rule: pump_udp.induct) (auto split: prod.splits pump_end.splits)

lemma pump_udp_waits: "fst (pump_udp peer evs t) = PumpWaiting \<longleftrightarrow> (\<forall>ev \<in> set evs. \<not> pump_fatal ev)"
  by (induction peer evs t rule: pump_udp.induct) (auto split: prod.splits)

lemma pump_udp_in_waits: "fst (pump_udp_in evs t) = None \<longleftrightarrow> (\<forall>ev \<in> set evs. is_ok ev)"
  by (induction evs t rule: pump_udp_in.induct) (auto split: prod.splits simp: is_ok_iff)

lemma pump_udp_in_append:
  "pump_udp_in (xs @ ys) t =
     (case pump_udp_in xs t of
        (None, outs, t1) \<Rightarrow> (case pump_udp_in ys t1 of (r, outs', t2) \<Rightarrow> (r, outs @ outs', t2))
      | stopped \<Rightarrow> stopped)"
  by (induction xs t rule: pump_udp_in.induct) (auto split: prod.splits option.splits)

text \<open>
  C40: no datagram ends a pump. Both readers of the connection, on either side and from any table, go on
  until the connection fails (or, on the offering side, the configuration channel is gone): a runt, an
  unknown id, a refused port, a failed bind or send are handled and the next event is read. Once
  ended they do nothing more.
\<close>
theorem readers_outlive_datagrams:
  "(fst (pump_udp peer evs t) = PumpWaiting \<longleftrightarrow> (\<forall>ev \<in> set evs. \<not> pump_fatal ev)) \<and>
   (fst (pump_udp_in ins s) = None \<longleftrightarrow> (\<forall>ev \<in> set ins. is_ok ev)) \<and>
   (pump_fatal ev \<longrightarrow> pump_udp peer (evs @ ev # later) t = pump_udp peer (evs @ [ev]) t) \<and>
   pump_udp_in (ins @ Inl e # laters) s = pump_udp_in (ins @ [Inl e]) s"
proof (intro conjI impI)
  assume "pump_fatal ev"
  then have stop: "pump_udp peer (ev # later) t1 = pump_udp peer [ev] t1" for t1 by (cases ev) simp_all
  show "pump_udp peer (evs @ ev # later) t = pump_udp peer (evs @ [ev]) t"
    unfolding pump_udp_append [of peer evs] stop ..
next
  show "pump_udp_in (ins @ Inl e # laters) s = pump_udp_in (ins @ [Inl e]) s"
    unfolding pump_udp_in_append [of ins] pump_udp_in.simps ..
qed (rule pump_udp_waits pump_udp_in_waits)+

text \<open>A quiet turn: a runt, an ungranted port, a change; then the connection fails.\<close>

definition quiet_turn :: "(nat, rstring, nat) turn" where
  "quiet_turn = \<lparr>tu_bind = Inl [], tu_connect = \<lambda>_ _. Inr (), tu_send = \<lambda>_ _. Inr (), tu_now = 0,
     tu_cfg = dns_config\<rparr>"

theorem readers_outlive_datagrams_witness:
  "fst (pump_udp 1 [Received [1] quiet_turn, Edited dns_config] fmempty) = PumpWaiting \<and>
   pump_udp 1 ([Received [1] quiet_turn] @ ReadError [] # [EditsGone]) fmempty =
     pump_udp 1 ([Received [1] quiet_turn] @ [ReadError []]) fmempty"
  using readers_outlive_datagrams [of 1 "[Received [1] quiet_turn, Edited dns_config]" fmempty "[]" no_sessions
      EditsGone "[]" "[]" "[]"]
    readers_outlive_datagrams [of 1 "[Received [1] quiet_turn]" fmempty "[]" no_sessions
      "ReadError []" "[EditsGone]" "[]" "[]"]
  by (simp del: pump_udp.simps)

end
