(* ===== verification/Both_Sides.thy ===== *)
theory Both_Sides
  imports Tcp_Path Dial_Loop
begin

text \<open>
  Two machines: the offering process of \<open>serve.rs\<close>, the reaching process of \<open>connect.rs\<close>, and the QUIC
  connection between them. Each side runs by its own step relation; what they share is the link (the
  handshake, the admission, the close frame that carries a refusal, the loss of the link) and the
  streams of the TCP path on it. Datagrams are in \<open>Tunnel\<close>. Other peers of the offering side may do
  anything.
\<close>

section \<open>State\<close>

text \<open>
  The link as the network sees it; the number names the connection on the offering side. Between the
  handshake and the admission it is arriving; a close frame of the offering side is on its way in
  \<open>ClosedBy\<close>.
\<close>

datatype link = Unlinked | Arriving nat | Linked nat | ClosedBy nat u32 rstring

fun link_name :: "link \<Rightarrow> nat option" where
  "link_name Unlinked = None"
| "link_name (Arriving k) = Some k"
| "link_name (Linked k) = Some k"
| "link_name (ClosedBy k code why) = Some k"

text \<open>
  What happened: a local client of a port was forwarded with its bytes, and a connection to a local
  service was opened and given bytes.
\<close>

datatype sys_event = Asked nat u16 u16 "u8 list" | Reached nat u16 "u8 list"

text \<open>
  \<open>sy_used\<close> names the connections this process has opened, \<open>sy_streams\<close> are the streams that the
  offering side has not handled yet, each with what was written to it. The last two record the
  configurations each side has run.
\<close>

record ('id, 'sock, 'l) System =
  sy_me :: 'id
  sy_serve :: "('id, 'sock) ServeNode"
  sy_dial :: "('id, 'l) Dialer"
  sy_link :: link
  sy_used :: "nat list"
  sy_streams :: "(nat \<times> u8 list) list"
  sy_log :: "sys_event list"
  sy_scfgs :: "'id Config list"
  sy_ccfgs :: "'id Config list"

definition sys_start ::
  "(Proto \<Rightarrow> u16 \<Rightarrow> rstring + 'l) \<Rightarrow> 'id \<Rightarrow> 'id \<Rightarrow> 'id Shared \<Rightarrow> 'id Shared \<Rightarrow> ('id, 'sock, 'l) System" where
  "sys_start os me peer ss cs =
     \<lparr>sy_me = me, sy_serve = serve_start ss, sy_dial = loop_start os peer cs, sy_link = Unlinked,
      sy_used = [], sy_streams = [], sy_log = [], sy_scfgs = [sh_cfg ss], sy_ccfgs = [sh_cfg cs]\<rparr>"

section \<open>Steps\<close>

fun close_of :: "nat \<Rightarrow> 'sock serve_act list \<Rightarrow> (u32 \<times> rstring) option" where
  "close_of k [] = None"
| "close_of k (CloseConn j code why # acts) = (if j = k then Some (code, why) else close_of k acts)"
| "close_of k (_ # acts) = close_of k acts"

definition link_after :: "'sock serve_act list \<Rightarrow> nat \<Rightarrow> link" where
  "link_after acts k = (case close_of k acts of None \<Rightarrow> Linked k | Some (code, why) \<Rightarrow> ClosedBy k code why)"

definition remember :: "'c \<Rightarrow> 'c list \<Rightarrow> 'c list" where
  "remember c cs = (if last cs = c then cs else cs @ [c])"

definition serve_acted ::
  "'sock serve_act list \<Rightarrow> ('id, 'sock) ServeNode \<Rightarrow> ('id, 'sock, 'l) System \<Rightarrow> ('id, 'sock, 'l) System" where
  "serve_acted acts n s =
     s\<lparr>sy_serve := n, sy_scfgs := remember (cfg_now n) (sy_scfgs s),
       sy_link := (case sy_link s of Linked k \<Rightarrow> link_after acts k | l \<Rightarrow> l)\<rparr>"

definition dial_acted :: "('id, 'l) Dialer \<Rightarrow> ('id, 'sock, 'l) System \<Rightarrow> ('id, 'sock, 'l) System" where
  "dial_acted d s = s\<lparr>sy_dial := d, sy_ccfgs := remember (sh_cfg (d_shared d)) (sy_ccfgs s)\<rparr>"

text \<open>
  The bytes of the connections of this process come from this process alone, and the names it uses
  are not given to anybody else's.
\<close>

definition others_only ::
  "nat list \<Rightarrow> ('id, 'sock) ServeNode \<Rightarrow> 'sock serve_act list \<Rightarrow> ('id, 'sock) ServeNode \<Rightarrow> bool" where
  "others_only used n acts n' \<longleftrightarrow>
     (\<forall>k \<in> set used. (\<forall>a. StreamAct k a \<notin> set acts) \<and>
        (fmlookup (sn_conns n) k = None \<longrightarrow> fmlookup (sn_conns n') k = None))"

definition list_read :: "u8 list \<Rightarrow> nat \<Rightarrow> rstring + u8 list \<times> u8 list" where
  "list_read s n = (if n \<le> length s then Inr (take n s, drop n s) else Inl (lit ''short''))"

fun reached :: "nat \<Rightarrow> u8 list \<Rightarrow> stream_act list \<Rightarrow> sys_event list" where
  "reached k rest [] = []"
| "reached k rest (CopyBoth p # acts) = Reached k p rest # reached k rest acts"
| "reached k rest (_ # acts) = reached k rest acts"

text \<open>
  \<open>Asked\<close>: a forwarder runs for the listener, so \<open>accept_tcp\<close> can hand it a client, whose bytes
  \<open>forward_tcp\<close> writes. \<open>Carried\<close>: the offering side handles a stream, with whatever the local
  service answers, and what follows the header is what \<open>copy_bidirectional\<close> gets.
\<close>

inductive link_step :: "('id, 'sock, 'l) System \<Rightarrow> ('id, 'sock, 'l) System \<Rightarrow> bool" where
  Dials: "dial_step (sy_dial s) d \<Longrightarrow> online d = online (sy_dial s) \<Longrightarrow> link_step s (dial_acted d s)"
| Opens: "d_phase (sy_dial s) = dial_phase.Dialing \<Longrightarrow> k \<notin> set (sy_used s) \<Longrightarrow>
     fmlookup (sn_conns (sy_serve s)) k = None \<Longrightarrow>
     link_step s (s\<lparr>sy_dial := dial_ok now (d_peer (sy_dial s)) paths (sy_dial s), sy_link := Arriving k,
                   sy_used := k # sy_used s\<rparr>)"
| Admits: "sy_link s = Arriving k \<Longrightarrow> accept_conn now k (sy_me s) paths (sy_serve s) = (acts, n) \<Longrightarrow>
     link_step s (s\<lparr>sy_serve := n, sy_link := link_after acts k\<rparr>)"
| CloseArrives: "sy_link s = ClosedBy k code why \<Longrightarrow> online (sy_dial s) \<Longrightarrow>
     link_step s (s\<lparr>sy_dial := conn_closed now (ApplicationClosed why (unat code)) (sy_dial s),
                   sy_link := Unlinked\<rparr>)"
| Lost: "online (sy_dial s) \<Longrightarrow>
     link_step s (s\<lparr>sy_dial := conn_closed now (LinkLost reason) (sy_dial s), sy_link := Unlinked\<rparr>)"
| Asks: "AcceptTcp l m \<in> set (d_tasks (sy_dial s)) \<Longrightarrow> link_name (sy_link s) = Some k \<Longrightarrow>
     forward_tcp (Inr [] :: rstring + u8 list) (\<lambda>st b. Inr (st @ b)) (\<lambda>_ st. (copied, st @ client)) (sock :: nat)
       (m_remote m) = (res, Some st) \<Longrightarrow>
     link_step s (s\<lparr>sy_streams := sy_streams s @ [(k, st)],
                   sy_log := sy_log s @ [Asked k (m_local m) (m_remote m) client]\<rparr>)"
| Carried: "i < length (sy_streams s) \<Longrightarrow> sy_streams s ! i = (k, st) \<Longrightarrow>
     fmlookup (sn_conns (sy_serve s)) k = Some c \<Longrightarrow>
     serve_stream list_read (tcp_connect :: u16 \<Rightarrow> rstring + nat) copy (cfg_now (sy_serve s)) (cn_peer c) st = (r, acts) \<Longrightarrow>
     link_step s (s\<lparr>sy_streams := take i (sy_streams s) @ drop (Suc i) (sy_streams s),
                   sy_log := sy_log s @ reached k (drop 2 st) acts\<rparr>)"

inductive sys_step :: "('id, 'sock, 'l) System \<Rightarrow> ('id, 'sock, 'l) System \<Rightarrow> bool" where
  Serves: "serve_step (sy_serve s) acts n \<Longrightarrow> others_only (sy_used s) (sy_serve s) acts n \<Longrightarrow>
     sys_step s (serve_acted acts n s)"
| Link: "link_step s s' \<Longrightarrow> sys_step s s'"

inductive sys_run :: "('id, 'sock, 'l) System \<Rightarrow> ('id, 'sock, 'l) System \<Rightarrow> bool" for s0 :: "('id, 'sock, 'l) System" where
  start: "sys_run s0 s0"
| more: "sys_run s0 s \<Longrightarrow> sys_step s s' \<Longrightarrow> sys_run s0 s'"

lemma sys_run_trans: "sys_run s1 s2 \<Longrightarrow> sys_run s0 s1 \<Longrightarrow> sys_run s0 s2"
  by (induction rule: sys_run.induct) (auto intro: sys_run.more)

text \<open>All the steps of the whole, by name.\<close>

lemma sys_induct [consumes 1, case_names Serves Dials Opens Admits CloseArrives Lost Asks Carried]:
  fixes s s' :: "('id, 'sock, 'l) System"
  assumes "sys_step s s'"
    and "\<And>(s :: ('id, 'sock, 'l) System) acts n. serve_step (sy_serve s) acts n \<Longrightarrow> others_only (sy_used s) (sy_serve s) acts n \<Longrightarrow>
     P s (serve_acted acts n s)"
    and "\<And>(s :: ('id, 'sock, 'l) System) d. dial_step (sy_dial s) d \<Longrightarrow> online d = online (sy_dial s) \<Longrightarrow> P s (dial_acted d s)"
    and "\<And>(s :: ('id, 'sock, 'l) System) k now paths. d_phase (sy_dial s) = dial_phase.Dialing \<Longrightarrow> k \<notin> set (sy_used s) \<Longrightarrow>
     fmlookup (sn_conns (sy_serve s)) k = None \<Longrightarrow>
     P s (s\<lparr>sy_dial := dial_ok now (d_peer (sy_dial s)) paths (sy_dial s), sy_link := Arriving k,
                   sy_used := k # sy_used s\<rparr>)"
    and "\<And>(s :: ('id, 'sock, 'l) System) k now paths acts n. sy_link s = Arriving k \<Longrightarrow> accept_conn now k (sy_me s) paths (sy_serve s) = (acts, n) \<Longrightarrow>
     P s (s\<lparr>sy_serve := n, sy_link := link_after acts k\<rparr>)"
    and "\<And>(s :: ('id, 'sock, 'l) System) k code why now. sy_link s = ClosedBy k code why \<Longrightarrow> online (sy_dial s) \<Longrightarrow>
     P s (s\<lparr>sy_dial := conn_closed now (ApplicationClosed why (unat code)) (sy_dial s),
                   sy_link := Unlinked\<rparr>)"
    and "\<And>(s :: ('id, 'sock, 'l) System) now reason. online (sy_dial s) \<Longrightarrow>
     P s (s\<lparr>sy_dial := conn_closed now (LinkLost reason) (sy_dial s), sy_link := Unlinked\<rparr>)"
    and "\<And>l m (s :: ('id, 'sock, 'l) System) k copied client sock res st. AcceptTcp l m \<in> set (d_tasks (sy_dial s)) \<Longrightarrow> link_name (sy_link s) = Some k \<Longrightarrow>
     forward_tcp (Inr [] :: rstring + u8 list) (\<lambda>st b. Inr (st @ b)) (\<lambda>_ st. (copied, st @ client)) (sock :: nat)
       (m_remote m) = (res, Some st) \<Longrightarrow>
     P s (s\<lparr>sy_streams := sy_streams s @ [(k, st)],
                   sy_log := sy_log s @ [Asked k (m_local m) (m_remote m) client]\<rparr>)"
    and "\<And>i (s :: ('id, 'sock, 'l) System) k st c tcp_connect copy r acts. i < length (sy_streams s) \<Longrightarrow> sy_streams s ! i = (k, st) \<Longrightarrow>
     fmlookup (sn_conns (sy_serve s)) k = Some c \<Longrightarrow>
     serve_stream list_read (tcp_connect :: u16 \<Rightarrow> rstring + nat) copy (cfg_now (sy_serve s)) (cn_peer c) st = (r, acts) \<Longrightarrow>
     P s (s\<lparr>sy_streams := take i (sy_streams s) @ drop (Suc i) (sy_streams s),
                   sy_log := sy_log s @ reached k (drop 2 st) acts\<rparr>)"
  shows "P s s'"
  using assms(1)
proof (cases rule: sys_step.cases)
  case (Serves acts n)
  then show ?thesis using assms(2) by simp
next
  case Link
  then show ?thesis
    by (induction rule: link_step.induct) (rule assms(3-9); assumption)+
qed

lemmas sys_Dials = sys_step.Link [OF link_step.Dials]
lemmas sys_Opens = sys_step.Link [OF link_step.Opens]
lemmas sys_Admits = sys_step.Link [OF link_step.Admits]
lemmas sys_CloseArrives = sys_step.Link [OF link_step.CloseArrives]
lemmas sys_Lost = sys_step.Link [OF link_step.Lost]
lemmas sys_Asks = sys_step.Link [OF link_step.Asks]
lemmas sys_Carried = sys_step.Link [OF link_step.Carried]

section \<open>Each side runs as it would alone\<close>

lemma accept_is_step:
  "fmlookup (sn_conns n) k = None \<Longrightarrow> accept_conn now k me paths n = (acts, n') \<Longrightarrow> serve_step n acts n'"
  by (rule serve_step.Accept)

lemma sys_step_dial:
  "sys_step s s' \<Longrightarrow> dial_run d0 (sy_dial s) \<Longrightarrow> dial_run d0 (sy_dial s')"
proof (induction rule: sys_induct)
  case (Serves s acts n)
  then show ?case by (simp add: serve_acted_def)
next
  case (Dials s d)
  then show ?case by (auto simp: dial_acted_def intro: dial_run.more)
next
  case (Opens s k now paths)
  then show ?case by (auto intro: dial_run.more dial_step.Opened)
next
  case (CloseArrives s k code why now)
  then show ?case by (auto simp: online_def intro!: dial_run.more [OF _ dial_step.Closed])
next
  case (Lost s now reason)
  then show ?case by (auto simp: online_def intro!: dial_run.more [OF _ dial_step.Closed])
qed simp_all

lemma sys_run_dial: "sys_run s0 s \<Longrightarrow> dial_run (sy_dial s0) (sy_dial s)"
  by (induction rule: sys_run.induct) (auto intro: dial_run.start sys_step_dial)

lemma serve_step_keeps_peer:
  "serve_step n acts n' \<Longrightarrow> fmlookup (sn_conns n) k = Some c \<Longrightarrow>
     \<exists>c'. fmlookup (sn_conns n') k = Some c' \<and> cn_peer c' = cn_peer c"
proof (induction rule: serve_step.induct)
  case (Edit to_toml os f n files r s' files')
  then show ?case by (auto simp: publish_def)
next
  case (Accept n j now peer paths acts n')
  then show ?case by (auto simp: accept_conn_def split: if_splits)
next
  case (EvictLook n j d acts n')
  then show ?case by (auto simp: evict_look_def split: if_splits)
qed (auto simp: evict_subscribed_def udp_subscribed_def udp_look_def conn_ended_def)

lemma serve_step_closes:
  assumes "serve_step n acts n'" and "CloseConn k code why \<in> set acts"
    and "fmlookup (sn_conns n) k = Some c"
  shows "code = REFUSED \<and> \<not> admits (cfg_now n) (cn_peer c)"
  using assms(1)
proof (cases rule: serve_step.cases)
  case (EvictLook j d)
  with assms(2,3) show ?thesis by (auto simp: evict_look_def split: if_splits)
next
  case (Accept j now peer paths)
  with assms(2,3) show ?thesis by (auto simp: accept_conn_def split: if_splits)
qed (use assms(2) in \<open>auto split: option.splits\<close>)

lemma close_of_mem: "close_of k acts = Some (code, why) \<Longrightarrow> CloseConn k code why \<in> set acts"
  by (induction k acts rule: close_of.induct) (auto split: if_splits)

lemma exits_when_closed:
  assumes "dial_step d d'" and "d_phase d' = Exited e" and "d_phase d \<noteq> Exited e"
  shows "online d \<and> \<not> online d'"
  using assms
proof (cases rule: dial_step.cases)
  case (Closed now reason)
  then show ?thesis using assms by (auto simp: online_def)
qed (auto simp: dial_ok_def dial_failed_def wait_retry_def retry_due_def connected_changed_def
    waiting_changed_def online_def split: prod.splits if_splits)

section \<open>The invariant\<close>

text \<open>A binding of the local port to the remote one was configured and enabled.\<close>

definition configured :: "'id Config list \<Rightarrow> Proto \<Rightarrow> u16 \<Rightarrow> u16 \<Rightarrow> bool" where
  "configured cfgs proto local remote \<longleftrightarrow>
     (\<exists>cfg \<in> set cfgs. \<exists>b \<in> set (active_bindings cfg). binding_key b = (proto, local) \<and> b_remote b = remote)"

definition client_ok :: "('id, 'sock, 'l) System \<Rightarrow> bool" where
  "client_ok s \<longleftrightarrow>
     dial_inv (sy_dial s) \<and> sh_cfg (d_shared (sy_dial s)) \<in> set (sy_ccfgs s) \<and>
     (\<forall>proto local sock remote. fmlookup (d_bound (sy_dial s)) (proto, local) = Some (sock, remote) \<longrightarrow>
        configured (sy_ccfgs s) proto local remote) \<and>
     (\<forall>k l r x. Asked k l r x \<in> set (sy_log s) \<longrightarrow> configured (sy_ccfgs s) Tcp l r)"

definition refused_once :: "('id, 'sock, 'l) System \<Rightarrow> bool" where
  "refused_once s \<longleftrightarrow> (\<exists>cfg \<in> set (sy_scfgs s). \<not> admits cfg (sy_me s))"

definition link_ok :: "('id, 'sock, 'l) System \<Rightarrow> bool" where
  "link_ok s \<longleftrightarrow>
     (case sy_link s of
        Unlinked \<Rightarrow> True
      | Arriving k \<Rightarrow> k \<in> set (sy_used s) \<and> fmlookup (sn_conns (sy_serve s)) k = None
      | Linked k \<Rightarrow> k \<in> set (sy_used s) \<and> fmlookup (sn_conns (sy_serve s)) k \<noteq> None
      | ClosedBy k code why \<Rightarrow> k \<in> set (sy_used s) \<and> code = REFUSED \<and> refused_once s)"

definition server_ok :: "('id, 'sock, 'l) System \<Rightarrow> bool" where
  "server_ok s \<longleftrightarrow>
     cfg_now (sy_serve s) \<in> set (sy_scfgs s) \<and>
     (\<forall>k \<in> set (sy_used s). \<forall>c. fmlookup (sn_conns (sy_serve s)) k = Some c \<longrightarrow> cn_peer c = sy_me s) \<and>
     link_ok s \<and>
     (\<forall>why code. d_phase (sy_dial s) = Exited (ClosedByPeer why code) \<longrightarrow>
        code = unat REFUSED \<and> refused_once s)"

definition traffic_ok :: "('id, 'sock, 'l) System \<Rightarrow> bool" where
  "traffic_ok s \<longleftrightarrow>
     (\<forall>k st. (k, st) \<in> set (sy_streams s) \<longrightarrow> k \<in> set (sy_used s) \<and>
        (\<exists>l r x. Asked k l r x \<in> set (sy_log s) \<and> st = u16_to_be r @ x)) \<and>
     (\<forall>k p x. Reached k p x \<in> set (sy_log s) \<longrightarrow>
        (\<exists>l. Asked k l p x \<in> set (sy_log s)) \<and> (\<exists>cfg \<in> set (sy_scfgs s). (Tcp, p) \<in> rights cfg (sy_me s)))"

lemma configured_mono: "configured cfgs pr l r \<Longrightarrow> set cfgs \<subseteq> set cfgs' \<Longrightarrow> configured cfgs' pr l r"
  unfolding configured_def by blast

lemma remember_set: "cs \<noteq> [] \<Longrightarrow> set (remember c cs) = insert c (set cs)"
  by (auto simp: remember_def)

lemma remember_sub: "set cs \<subseteq> set (remember c cs)"
  by (auto simp: remember_def)

lemma remember_mem: "cs \<noteq> [] \<Longrightarrow> c \<in> set (remember c cs)"
  by (simp add: remember_set)

text \<open>The listeners of the loop: new ones come from the configuration in force.\<close>

lemma bound_configured:
  assumes "dial_step d d'" and "dial_inv d"
    and "fmlookup (d_bound d') (proto, local) = Some (sock, remote)"
  shows "fmlookup (d_bound d) (proto, local) = Some (sock, remote) \<or>
         configured [sh_cfg (d_shared d')] proto local remote"
proof -
  have change: "configured [sh_cfg (d_shared d')] proto local remote"
    if "d' = connected_changed os d \<and> d_phase d = Connected \<or> d' = waiting_changed os d \<and> d_phase d = Waiting" for os
    using change_reaches_sockets [OF assms(2) that] assms(3) by (fastforce simp: configured_def)
  from assms(1) show ?thesis
  proof (cases rule: dial_step.cases)
    case (Changed os)
    then show ?thesis using change by blast
  next
    case (WaitChanged os)
    then show ?thesis using change by blast
  next
    case (Closed now reason)
    then show ?thesis using assms(3)
      by (auto simp: conn_closed_def wait_retry_def Let_def split: close_reason.splits)
  qed (use assms(3) in \<open>auto simp: dial_ok_def dial_failed_def wait_retry_def retry_due_def\<close>)
qed

lemma ask_configured:
  assumes "client_ok s" and "AcceptTcp l m \<in> set (d_tasks (sy_dial s))"
  shows "configured (sy_ccfgs s) Tcp (m_local m) (m_remote m)"
proof -
  have "dial_inv (sy_dial s)" using assms(1) by (simp add: client_ok_def)
  from forwarders_of_listeners [OF this, of l m] assms(2)
  have "fmlookup (d_bound (sy_dial s)) (Tcp, m_local m) = Some (SockTcp l, m_remote m)" by blast
  with assms(1) show ?thesis unfolding client_ok_def by blast
qed

lemma reached_mem:
  "e \<in> set (reached k rest acts) \<longleftrightarrow> (\<exists>p. e = Reached k p rest \<and> CopyBoth p \<in> set acts)"
  by (induction k rest acts rule: reached.induct) auto

lemma client_ok_dial:
  assumes "client_ok s" and "dial_step (sy_dial s) d"
    and "sy_log s' = sy_log s" and "sy_dial s' = d"
    and sub: "set (sy_ccfgs s) \<subseteq> set (sy_ccfgs s')" and cur: "sh_cfg (d_shared d) \<in> set (sy_ccfgs s')"
  shows "client_ok s'"
proof -
  have inv: "dial_inv (sy_dial s)" using assms(1) by (simp add: client_ok_def)
  have bound: "configured (sy_ccfgs s') proto local remote"
    if "fmlookup (d_bound d) (proto, local) = Some (sock, remote)" for proto local sock remote
    using bound_configured [OF assms(2) inv that]
  proof
    assume "fmlookup (d_bound (sy_dial s)) (proto, local) = Some (sock, remote)"
    then have "configured (sy_ccfgs s) proto local remote" using assms(1) unfolding client_ok_def by blast
    then show ?thesis using sub by (rule configured_mono)
  next
    assume "configured [sh_cfg (d_shared d)] proto local remote"
    from configured_mono [OF this, of "sy_ccfgs s'"] cur show ?thesis by simp
  qed
  have asked: "configured (sy_ccfgs s') Tcp l r" if "Asked k l r x \<in> set (sy_log s)" for k l r x
  proof -
    have "configured (sy_ccfgs s) Tcp l r" using assms(1) that unfolding client_ok_def by blast
    then show ?thesis using sub by (rule configured_mono)
  qed
  show ?thesis
    unfolding client_ok_def assms(3,4) using dial_inv_step [OF assms(2) inv] cur bound asked by blast
qed

lemma closed_cfg: "sh_cfg (d_shared (conn_closed now reason d)) = sh_cfg (d_shared d)"
  by (simp add: conn_closed_def wait_retry_def Let_def split: close_reason.splits)

lemma opened_cfg: "sh_cfg (d_shared (dial_ok now i paths d)) = sh_cfg (d_shared d)"
  by (simp add: dial_ok_def)

lemma online_closes: "online d \<Longrightarrow> dial_step d (conn_closed now reason d)"
  by (auto simp: online_def intro: dial_step.Closed)

text \<open>The lists of configurations are never empty and only grow.\<close>

lemma histories_grow:
  "sys_step s s' \<Longrightarrow> set (sy_scfgs s) \<subseteq> set (sy_scfgs s') \<and> set (sy_ccfgs s) \<subseteq> set (sy_ccfgs s') \<and>
     sy_me s' = sy_me s \<and> set (sy_used s) \<subseteq> set (sy_used s') \<and>
     (sy_scfgs s \<noteq> [] \<longrightarrow> sy_scfgs s' \<noteq> []) \<and> (sy_ccfgs s \<noteq> [] \<longrightarrow> sy_ccfgs s' \<noteq> [])"
  by (induction rule: sys_induct) (auto simp: serve_acted_def dial_acted_def remember_def)

lemma client_ok_step: "sys_step s s' \<Longrightarrow> client_ok s \<Longrightarrow> sy_ccfgs s \<noteq> [] \<Longrightarrow> client_ok s'"
proof (induction rule: sys_induct)
  case (Serves s acts n)
  then show ?case by (simp add: client_ok_def serve_acted_def)
next
  case (Dials s d)
  show ?case
    by (rule client_ok_dial [OF Dials.prems(1) Dials.hyps(1)])
      (use Dials.prems(2) in \<open>simp_all add: dial_acted_def remember_sub remember_mem\<close>)
next
  case (Opens s k now paths)
  show ?case
    by (rule client_ok_dial [OF Opens.prems(1) dial_step.Opened [OF Opens.hyps(1)]])
      (use Opens.prems(1) in \<open>simp_all add: opened_cfg client_ok_def\<close>)
next
  case (CloseArrives s k code why now)
  show ?case
    by (rule client_ok_dial [OF CloseArrives.prems(1) online_closes [OF CloseArrives.hyps(2)]])
      (use CloseArrives.prems(1) in \<open>simp_all add: closed_cfg client_ok_def\<close>)
next
  case (Lost s now reason)
  show ?case
    by (rule client_ok_dial [OF Lost.prems(1) online_closes [OF Lost.hyps]])
      (use Lost.prems(1) in \<open>simp_all add: closed_cfg client_ok_def\<close>)
next
  case (Asks l m s k copied client sock res st)
  then show ?case using ask_configured [OF Asks.prems(1) Asks.hyps(1)] by (auto simp: client_ok_def)
next
  case (Carried i s k st c tcp_connect copy r acts)
  then show ?case by (auto simp: client_ok_def reached_mem)
qed (simp add: client_ok_def)

lemma link_after_cases:
  "link_after acts k = Linked k \<and> close_of k acts = None \<or>
   (\<exists>code why. link_after acts k = ClosedBy k code why \<and> CloseConn k code why \<in> set acts)"
  by (cases "close_of k acts") (auto simp: link_after_def dest: close_of_mem)

lemma refused_mono:
  "refused_once s \<Longrightarrow> set (sy_scfgs s) \<subseteq> set (sy_scfgs s') \<Longrightarrow> sy_me s' = sy_me s \<Longrightarrow> refused_once s'"
  unfolding refused_once_def by fastforce

lemma server_ok_serves:
  assumes "server_ok s" and "serve_step (sy_serve s) acts n" and "others_only (sy_used s) (sy_serve s) acts n"
    and "sy_scfgs s \<noteq> []"
  shows "server_ok (serve_acted acts n s)"
proof -
  let ?s = "serve_acted acts n s"
  have sub: "set (sy_scfgs s) \<subseteq> set (sy_scfgs ?s)" "sy_me ?s = sy_me s"
    by (simp_all add: serve_acted_def remember_sub)
  have cur: "cfg_now n \<in> set (sy_scfgs ?s)" using assms(4) by (simp add: serve_acted_def remember_mem)
  note keep = serve_step_keeps_peer [OF assms(2)]
  have peers: "cn_peer c = sy_me s" if "k \<in> set (sy_used s)" "fmlookup (sn_conns n) k = Some c" for k c
  proof (cases "fmlookup (sn_conns (sy_serve s)) k")
    case None
    with assms(3) that show ?thesis by (auto simp: others_only_def)
  next
    case (Some d)
    with keep [OF Some] that assms(1) show ?thesis by (auto simp: server_ok_def)
  qed
  have refused: "refused_once ?s" if "refused_once s" using refused_mono [OF that sub] .
  have "link_ok ?s"
  proof (cases "sy_link s")
    case Unlinked
    then show ?thesis by (simp add: link_ok_def serve_acted_def)
  next
    case (Arriving k)
    with assms(1,3) show ?thesis by (auto simp: server_ok_def link_ok_def serve_acted_def others_only_def)
  next
    case (ClosedBy k code why)
    with assms(1) refused show ?thesis by (simp add: server_ok_def link_ok_def serve_acted_def)
  next
    case (Linked k)
    with assms(1) obtain c where used: "k \<in> set (sy_used s)" and c: "fmlookup (sn_conns (sy_serve s)) k = Some c"
      by (auto simp: server_ok_def link_ok_def)
    show ?thesis
      using link_after_cases [of acts k]
    proof
      assume "link_after acts k = Linked k \<and> close_of k acts = None"
      with Linked used keep [OF c] show ?thesis by (auto simp: link_ok_def serve_acted_def)
    next
      assume "\<exists>code why. link_after acts k = ClosedBy k code why \<and> CloseConn k code why \<in> set acts"
      then obtain code why where closed: "link_after acts k = ClosedBy k code why" "CloseConn k code why \<in> set acts"
        by blast
      from serve_step_closes [OF assms(2) closed(2) c]
      have "code = REFUSED" "\<not> admits (cfg_now (sy_serve s)) (cn_peer c)" by blast+
      moreover have "cn_peer c = sy_me s" using assms(1) used c by (simp add: server_ok_def)
      moreover have "cfg_now (sy_serve s) \<in> set (sy_scfgs s)" using assms(1) by (simp add: server_ok_def)
      ultimately have "code = REFUSED" "refused_once s" by (auto simp: refused_once_def)
      with Linked used closed(1) refused show ?thesis by (simp add: link_ok_def serve_acted_def)
    qed
  qed
  with assms(1) cur peers refused show ?thesis
    by (auto simp: server_ok_def) (auto simp: serve_acted_def)
qed

lemma accept_conn_cases:
  assumes "accept_conn now k me paths n = (acts, n')"
  shows "if admits (cfg_now n) me
         then link_after acts k = Linked k \<and> cfg_now n' = cfg_now n \<and>
              (\<exists>c. fmlookup (sn_conns n') k = Some c \<and> cn_peer c = me) \<and>
              (\<forall>j. j \<noteq> k \<longrightarrow> fmlookup (sn_conns n') j = fmlookup (sn_conns n) j)
         else link_after acts k = ClosedBy k REFUSED (lit ''not allowlisted'') \<and> n' = n"
  using assms by (auto simp: accept_conn_def link_after_def split: if_splits)

lemma closed_exit:
  "d_phase (conn_closed now reason d) = Exited (ClosedByPeer why code) \<longleftrightarrow>
     reason = ApplicationClosed why code"
  by (cases reason) (auto simp: conn_closed_def wait_retry_def Let_def)

lemma server_ok_step: "sys_step s s' \<Longrightarrow> server_ok s \<Longrightarrow> sy_scfgs s \<noteq> [] \<Longrightarrow> server_ok s'"
proof (induction rule: sys_induct)
  case (Serves s acts n)
  then show ?case by (simp add: server_ok_serves)
next
  case (Dials s d)
  have "d_phase d = Exited e \<longrightarrow> d_phase (sy_dial s) = Exited e" for e
    using exits_when_closed [OF Dials.hyps(1), of e] Dials.hyps(2) by auto
  then show ?case
    using Dials.prems by (simp add: server_ok_def link_ok_def refused_once_def dial_acted_def split: link.splits)
next
  case (Opens s k now paths)
  then show ?case
    by (auto simp: server_ok_def link_ok_def refused_once_def dial_ok_def)
next
  case (Admits s k now paths acts n)
  then have k: "k \<in> set (sy_used s)" "fmlookup (sn_conns (sy_serve s)) k = None"
    and cur: "cfg_now (sy_serve s) \<in> set (sy_scfgs s)"
    by (simp_all add: server_ok_def link_ok_def)
  show ?case
  proof (cases "admits (cfg_now (sy_serve s)) (sy_me s)")
    case True
    with accept_conn_cases [OF Admits.hyps(2)] obtain c where n: "link_after acts k = Linked k"
        "cfg_now n = cfg_now (sy_serve s)" "fmlookup (sn_conns n) k = Some c" "cn_peer c = sy_me s"
        "\<And>j. j \<noteq> k \<Longrightarrow> fmlookup (sn_conns n) j = fmlookup (sn_conns (sy_serve s)) j" by auto
    have "cn_peer d = sy_me s" if "j \<in> set (sy_used s)" "fmlookup (sn_conns n) j = Some d" for j d
      using that n(3,4) n(5) [of j] Admits.prems(1) by (cases "j = k") (auto simp: server_ok_def)
    with n k(1) cur Admits.prems(1) show ?thesis
      by (simp add: server_ok_def link_ok_def refused_once_def)
  next
    case False
    with accept_conn_cases [OF Admits.hyps(2)]
    have n: "link_after acts k = ClosedBy k REFUSED (lit ''not allowlisted'')" "n = sy_serve s" by auto
    have "refused_once s" using False cur by (auto simp: refused_once_def)
    with n k(1) Admits.prems(1) show ?thesis
      by (simp add: server_ok_def link_ok_def refused_once_def)
  qed
next
  case (CloseArrives s k code why now)
  then have "code = REFUSED" "refused_once s" by (simp_all add: server_ok_def link_ok_def)
  with CloseArrives.prems show ?case by (simp add: server_ok_def link_ok_def refused_once_def closed_exit)
next
  case (Lost s now reason)
  then show ?case by (simp add: server_ok_def link_ok_def refused_once_def closed_exit)
next
  case (Asks l m s k copied client sock res st)
  then show ?case by (simp add: server_ok_def link_ok_def refused_once_def split: link.splits)
next
  case (Carried i s k st c tcp_connect copy r acts)
  then show ?case by (simp add: server_ok_def link_ok_def refused_once_def split: link.splits)
qed

text \<open>What a stream reaches is what its header named, with the rights of the moment.\<close>

lemma serve_stream_reaches:
  assumes "serve_stream list_read tcp_connect copy cfg peer (u16_to_be r @ x) = (res, acts)"
    and "CopyBoth p \<in> set acts"
  shows "p = r \<and> (Tcp, p) \<in> rights cfg peer"
  using assms
  by (auto simp: serve_stream_def read_target_port_def list_read_def be16.to_be_length be16.from_to_be
      grant_list_iff split: if_splits sum.splits)

lemma forward_writes:
  "forward_tcp (Inr []) (\<lambda>st b. Inr (st @ b)) (\<lambda>_ st. (copied, st @ client)) sock port = (res, Some st) \<Longrightarrow>
     st = u16_to_be port @ client"
  by (simp add: forward_tcp_def write_target_port_def)

lemma traffic_ok_step:
  "sys_step s s' \<Longrightarrow> traffic_ok s \<Longrightarrow> server_ok s \<Longrightarrow> traffic_ok s'"
proof (induction rule: sys_induct)
  case (Serves s acts n)
  have "set (sy_scfgs s) \<subseteq> set (remember (cfg_now n) (sy_scfgs s))" by (rule remember_sub)
  with Serves.prems(1) show ?case unfolding traffic_ok_def serve_acted_def by simp blast
next
  case (Asks l m s k copied client sock res st)
  have "k \<in> set (sy_used s)"
    using Asks.hyps(2) Asks.prems(2) by (auto simp: server_ok_def link_ok_def split: link.splits)
  with Asks.prems(1) forward_writes [OF Asks.hyps(3)] show ?case
    unfolding traffic_ok_def by simp blast
next
  case (Carried i s k st c tcp_connect copy r acts)
  have st: "(k, st) \<in> set (sy_streams s)" using Carried.hyps(1,2) by (metis nth_mem)
  then obtain l r0 x where asked: "Asked k l r0 x \<in> set (sy_log s)" "st = u16_to_be r0 @ x"
    and used: "k \<in> set (sy_used s)"
    using Carried.prems(1) unfolding traffic_ok_def by blast
  have me: "cn_peer c = sy_me s" "cfg_now (sy_serve s) \<in> set (sy_scfgs s)"
    using Carried.prems(2) used Carried.hyps(3) by (auto simp: server_ok_def)
  have new: "p = r0 \<and> (Tcp, p) \<in> rights (cfg_now (sy_serve s)) (sy_me s)" if "CopyBoth p \<in> set acts" for p
    using serve_stream_reaches [OF Carried.hyps(4) [unfolded asked(2) me(1)] that] .
  have rest: "drop 2 st = x" by (simp add: asked(2) be16.to_be_length)
  have sub: "set (take i (sy_streams s) @ drop (Suc i) (sy_streams s)) \<subseteq> set (sy_streams s)"
    using set_take_subset [of i "sy_streams s"] set_drop_subset [of "Suc i" "sy_streams s"] by auto
  show ?case
    unfolding traffic_ok_def
  proof (intro conjI allI impI)
    fix j st'
    assume "(j, st') \<in> set (sy_streams (s\<lparr>sy_streams := take i (sy_streams s) @ drop (Suc i) (sy_streams s),
        sy_log := sy_log s @ reached k (drop 2 st) acts\<rparr>))"
    then have "(j, st') \<in> set (sy_streams s)" using sub by auto
    with Carried.prems(1) show "j \<in> set (sy_used (s\<lparr>sy_streams := take i (sy_streams s) @ drop (Suc i) (sy_streams s),
        sy_log := sy_log s @ reached k (drop 2 st) acts\<rparr>))"
      and "\<exists>l r x. Asked j l r x \<in> set (sy_log (s\<lparr>sy_streams := take i (sy_streams s) @ drop (Suc i) (sy_streams s),
        sy_log := sy_log s @ reached k (drop 2 st) acts\<rparr>)) \<and> st' = u16_to_be r @ x"
      unfolding traffic_ok_def by simp_all blast
  next
    fix j p y
    assume "Reached j p y \<in> set (sy_log (s\<lparr>sy_streams := take i (sy_streams s) @ drop (Suc i) (sy_streams s),
        sy_log := sy_log s @ reached k (drop 2 st) acts\<rparr>))"
    then consider "Reached j p y \<in> set (sy_log s)" | "j = k" "y = x" "CopyBoth p \<in> set acts"
      by (auto simp: reached_mem rest)
    then have "(\<exists>l. Asked j l p y \<in> set (sy_log s)) \<and> (\<exists>cfg \<in> set (sy_scfgs s). (Tcp, p) \<in> rights cfg (sy_me s))"
    proof cases
      case 1
      with Carried.prems(1) show ?thesis unfolding traffic_ok_def by blast
    next
      case 2
      with new asked(1) me(2) show ?thesis by blast
    qed
    then show "\<exists>l. Asked j l p y \<in> set (sy_log (s\<lparr>sy_streams := take i (sy_streams s) @ drop (Suc i) (sy_streams s),
        sy_log := sy_log s @ reached k (drop 2 st) acts\<rparr>))"
      and "\<exists>cfg\<in>set (sy_scfgs (s\<lparr>sy_streams := take i (sy_streams s) @ drop (Suc i) (sy_streams s),
        sy_log := sy_log s @ reached k (drop 2 st) acts\<rparr>)). (Tcp, p) \<in> rights cfg (sy_me (s\<lparr>sy_streams :=
          take i (sy_streams s) @ drop (Suc i) (sy_streams s), sy_log := sy_log s @ reached k (drop 2 st) acts\<rparr>))"
      by auto
  qed
qed (simp_all add: traffic_ok_def dial_acted_def)

definition sys_inv :: "('id, 'sock, 'l) System \<Rightarrow> bool" where
  "sys_inv s \<longleftrightarrow> client_ok s \<and> server_ok s \<and> traffic_ok s \<and> sy_scfgs s \<noteq> [] \<and> sy_ccfgs s \<noteq> []"

lemma sys_inv_step: "sys_step s s' \<Longrightarrow> sys_inv s \<Longrightarrow> sys_inv s'"
  using client_ok_step [of s s'] server_ok_step [of s s'] traffic_ok_step [of s s'] histories_grow [of s s']
  by (auto simp: sys_inv_def)

lemma sys_inv_start:
  assumes "config_wf (sh_cfg cs)" and "live_of cs = fmempty"
  shows "sys_inv (sys_start os me peer ss cs)"
proof -
  obtain ch bound s where rec: "reconcile os (wanted cs) fmempty cs = (ch, bound, s)"
    by (cases "reconcile os (wanted cs) fmempty cs")
  note R = reconcile_table [OF rec wanted_distinct [OF assms(1)]]
  have "configured [sh_cfg cs] proto local remote"
    if "fmlookup bound (proto, local) = Some (sock, remote)" for proto local sock remote
  proof -
    have "(proto, local) \<in> binding_key ` set (wanted cs)"
    proof (rule ccontr)
      assume "(proto, local) \<notin> binding_key ` set (wanted cs)"
      with R have "fmlookup bound (proto, local) = None" by blast
      with that show False by simp
    qed
    then obtain b where b: "b \<in> set (wanted cs)" "binding_key b = (proto, local)" by force
    with R have "fmlookup bound (proto, local) = want_step os b (fmlookup fmempty (binding_key b))" by metis
    with that b show ?thesis by (auto simp: configured_def want_step_def split: sum.splits)
  qed
  moreover have "dial_inv (loop_start os peer cs)" by (rule loop_start_inv [OF assms])
  ultimately show ?thesis
    using R by (auto simp: sys_inv_def sys_start_def client_ok_def server_ok_def traffic_ok_def link_ok_def
        serve_start_def loop_start_def rec split: if_splits)
qed

lemma sys_run_inv: "sys_run s0 s \<Longrightarrow> sys_inv s0 \<Longrightarrow> sys_inv s"
  by (induction rule: sys_run.induct) (auto intro: sys_inv_step)

lemma sys_run_me: "sys_run s0 s \<Longrightarrow> sy_me s = sy_me s0"
  by (induction rule: sys_run.induct) (auto dest: histories_grow)

section \<open>The way up\<close>

text \<open>A run in which nobody edits anything: neither history grows.\<close>

definition quiet_run :: "('id, 'sock, 'l) System \<Rightarrow> ('id, 'sock, 'l) System \<Rightarrow> bool" where
  "quiet_run s s' \<longleftrightarrow> sys_run s s' \<and> cfg_now (sy_serve s') = cfg_now (sy_serve s) \<and>
     sh_cfg (d_shared (sy_dial s')) = sh_cfg (d_shared (sy_dial s)) \<and>
     sy_scfgs s' = sy_scfgs s \<and> set (sy_ccfgs s') = set (sy_ccfgs s)"

lemma quiet_trans: "quiet_run s1 s2 \<Longrightarrow> quiet_run s0 s1 \<Longrightarrow> quiet_run s0 s2"
  by (auto simp: quiet_run_def intro: sys_run_trans)

lemma quiet_step:
  assumes "sys_step s s'" and "cfg_now (sy_serve s') = cfg_now (sy_serve s)"
    and "sh_cfg (d_shared (sy_dial s')) = sh_cfg (d_shared (sy_dial s))"
    and "sy_scfgs s' = sy_scfgs s" and "set (sy_ccfgs s') = set (sy_ccfgs s)"
  shows "quiet_run s s'"
  using assms sys_run.more [OF sys_run.start assms(1)] by (simp add: quiet_run_def)

lemma quiet_dials:
  assumes "client_ok s" and "dial_step (sy_dial s) d" and "online d = online (sy_dial s)"
    and "sh_cfg (d_shared d) = sh_cfg (d_shared (sy_dial s))"
  shows "quiet_run s (dial_acted d s)"
proof -
  have "sh_cfg (d_shared (sy_dial s)) \<in> set (sy_ccfgs s)" using assms(1) by (simp add: client_ok_def)
  then show ?thesis
    using assms(4) by (intro quiet_step sys_Dials assms) (auto simp: dial_acted_def remember_def)
qed

lemma fresh_name: "\<exists>k. k \<notin> set used \<and> fmlookup (m :: (nat, 'v) fmap) k = None"
proof -
  have "finite (set used \<union> fset (fmdom m))" by simp
  then obtain k where "k \<notin> set used \<union> fset (fmdom m)" using ex_new_if_finite infinite_UNIV_nat by blast
  then show ?thesis by (auto simp: fmdom_notD)
qed

text \<open>From dialing: the handshake, and the admission of a peer that is admitted.\<close>

lemma dials_up:
  assumes "sys_inv s" and "d_phase (sy_dial s) = dial_phase.Dialing"
    and "admits (cfg_now (sy_serve s)) (sy_me s)"
  shows "\<exists>s' k. quiet_run s s' \<and> d_phase (sy_dial s') = Connected \<and> sy_link s' = Linked k"
proof -
  obtain k where k: "k \<notin> set (sy_used s)" "fmlookup (sn_conns (sy_serve s)) k = None"
    using fresh_name by blast
  let ?s1 = "s\<lparr>sy_dial := dial_ok 0 (d_peer (sy_dial s)) [] (sy_dial s), sy_link := Arriving k,
      sy_used := k # sy_used s\<rparr>"
  have one: "quiet_run s ?s1"
    by (rule quiet_step [OF sys_Opens [OF assms(2) k]]) (simp_all add: opened_cfg)
  obtain acts n where acc: "accept_conn 0 k (sy_me ?s1) [] (sy_serve ?s1) = (acts, n)"
    by (cases "accept_conn 0 k (sy_me ?s1) [] (sy_serve ?s1)")
  from accept_conn_cases [OF acc] assms(3)
  have n: "link_after acts k = Linked k" "cfg_now n = cfg_now (sy_serve s)" by auto
  let ?s2 = "?s1\<lparr>sy_serve := n, sy_link := link_after acts k\<rparr>"
  have "quiet_run ?s1 ?s2"
    by (rule quiet_step [OF sys_Admits [OF _ acc]]) (simp_all add: n)
  then have "quiet_run s ?s2" using one by (rule quiet_trans)
  then show ?thesis using n(1) by (intro exI [of _ ?s2] exI [of _ k]) (simp add: dial_ok_def)
qed

lemma waits_up:
  assumes "client_ok s" and "d_phase (sy_dial s) = dial_phase.Waiting"
  shows "quiet_run s (dial_acted (retry_due (sy_dial s)) s)"
  by (rule quiet_dials [OF assms(1) dial_step.WaitOver [OF assms(2)]])
    (simp_all add: retry_due_def online_def assms(2))

lemma comes_up:
  assumes "sys_inv s" and "\<And>e. d_phase (sy_dial s) \<noteq> Exited e"
    and "admits (cfg_now (sy_serve s)) (sy_me s)"
  shows "\<exists>s' k. quiet_run s s' \<and> d_phase (sy_dial s') = Connected \<and> sy_link s' = Linked k"
proof -
  have waiting: "\<exists>s' k. quiet_run t s' \<and> d_phase (sy_dial s') = Connected \<and> sy_link s' = Linked k"
    if t: "quiet_run s t" and w: "d_phase (sy_dial t) = dial_phase.Waiting" for t
  proof -
    let ?t = "dial_acted (retry_due (sy_dial t)) t"
    have "sys_inv t" using t sys_run_inv assms(1) unfolding quiet_run_def by blast
    then have up: "quiet_run t ?t" using waits_up w unfolding sys_inv_def by blast
    have "quiet_run s ?t" using quiet_trans [OF up t] .
    then have "sys_inv ?t" "sy_me ?t = sy_me s" "cfg_now (sy_serve ?t) = cfg_now (sy_serve s)"
      using sys_run_inv assms(1) sys_run_me unfolding quiet_run_def by blast+
    moreover have "d_phase (sy_dial ?t) = dial_phase.Dialing" by (simp add: dial_acted_def retry_due_def)
    ultimately obtain s' k where "quiet_run ?t s'" "d_phase (sy_dial s') = Connected" "sy_link s' = Linked k"
      using dials_up [of ?t] assms(3) by auto
    then show ?thesis using quiet_trans [OF _ up] by blast
  qed
  have self: "quiet_run s s" by (simp add: quiet_run_def sys_run.start)
  show ?thesis
  proof (cases "online (sy_dial s)")
    case True
    let ?t = "s\<lparr>sy_dial := conn_closed 0 (LinkLost []) (sy_dial s), sy_link := Unlinked\<rparr>"
    have t: "quiet_run s ?t"
      by (rule quiet_step [OF sys_Lost [OF True]]) (simp_all add: closed_cfg)
    have "d_phase (sy_dial ?t) = dial_phase.Waiting" by (simp add: conn_closed_def wait_retry_def Let_def)
    from waiting [OF t this] show ?thesis using quiet_trans [OF _ t] by blast
  next
    case False
    then consider "d_phase (sy_dial s) = dial_phase.Dialing" | "d_phase (sy_dial s) = dial_phase.Waiting"
      using assms(2) by (cases "d_phase (sy_dial s)") (auto simp: online_def)
    then show ?thesis
      using dials_up [OF assms(1)] assms(3) waiting [OF self] by cases blast+
  qed
qed

text \<open>
  On a link that is up: the loop reconciles, so an enabled binding the system can bind listens and
  has a forwarder; a client of it is forwarded, and the offering side carries the stream when it
  grants the port.
\<close>

lemma change_listens:
  fixes d :: "('id, 'l) Dialer"
  assumes "dial_inv d" and "d_phase d = Connected" and "b \<in> set (wanted (d_shared d))" and "b_proto b = Tcp"
    and "bind_one os b = Inr sock"
  shows "\<exists>l. AcceptTcp l (binding_map b) \<in> set (d_tasks (connected_changed os d))"
proof -
  let ?d = "connected_changed os d"
  have wf: "config_wf (sh_cfg (d_shared d))" using assms(1) by (simp add: dial_inv_def)
  obtain ch bound s' where rec: "reconcile os (wanted (d_shared d)) (d_bound d) (d_shared d) = (ch, bound, s')"
    by (cases "reconcile os (wanted (d_shared d)) (d_bound d) (d_shared d)")
  have bd: "d_bound ?d = bound" by (simp add: connected_changed_def rec)
  have "fmlookup bound (binding_key b) = want_step os b (fmlookup (d_bound d) (binding_key b))"
    using reconcile_table [OF rec wanted_distinct [OF wf]] assms(3) by blast
  then obtain so where so: "fmlookup bound (Tcp, b_local b) = Some (so, b_remote b)"
    using assms(4,5) by (auto simp: want_step_def binding_key_def split: option.splits)
  have inv: "dial_inv ?d" by (rule dial_inv_changed [OF assms(1,2)])
  have on: "online ?d" using assms(2) by (simp add: online_def connected_changed_def rec)
  from inv so bd obtain l where "fmlookup (d_bound ?d) (Tcp, b_local b) = Some (SockTcp l, b_remote b)"
    using bound_okD [of "d_bound ?d" "d_shared ?d" Tcp "b_local b" so "b_remote b"] by (auto simp: dial_inv_def)
  then show ?thesis
    using forwarders_of_listeners [OF inv, of l "binding_map b"] on by (auto simp: binding_map_def)
qed

lemma carries:
  fixes s :: "('id, 'sock, 'l) System" and os :: "Proto \<Rightarrow> u16 \<Rightarrow> rstring + 'l"
  assumes "sys_inv s" and "d_phase (sy_dial s) = Connected" and "sy_link s = Linked k"
    and "b \<in> set (active_bindings (sh_cfg (d_shared (sy_dial s))))" and "b_proto b = Tcp" and "bind_one os b = Inr sock"
    and "(Tcp, b_remote b) \<in> rights (cfg_now (sy_serve s)) (sy_me s)"
  shows "\<exists>s'. quiet_run s s' \<and> sy_link s' = Linked k \<and>
     Asked k (b_local b) (b_remote b) client \<in> set (sy_log s') \<and> last (sy_log s') = Reached k (b_remote b) client"
proof -
  have cl: "client_ok s" and inv: "dial_inv (sy_dial s)"
    using assms(1) by (simp_all add: sys_inv_def client_ok_def)
  have wf: "config_wf (sh_cfg (d_shared (sy_dial s)))" using inv by (simp add: dial_inv_def)
  let ?d = "connected_changed os (sy_dial s)"
  let ?s1 = "dial_acted ?d s"
  obtain ch bound t where rec: "reconcile os (wanted (d_shared (sy_dial s))) (d_bound (sy_dial s)) (d_shared (sy_dial s)) = (ch, bound, t)"
    by (cases "reconcile os (wanted (d_shared (sy_dial s))) (d_bound (sy_dial s)) (d_shared (sy_dial s))")
  have d: "sh_cfg (d_shared ?d) = sh_cfg (d_shared (sy_dial s))" "online ?d = online (sy_dial s)"
    using reconcile_frame [OF rec wf] assms(2) by (simp_all add: connected_changed_def rec online_def)
  have one: "quiet_run s ?s1"
    by (rule quiet_dials [OF cl dial_step.Changed [OF assms(2)] d(2,1)])
  obtain l where l: "AcceptTcp l (binding_map b) \<in> set (d_tasks ?d)"
    using change_listens [OF inv assms(2) assms(4-6)] by blast
  define st where "st = u16_to_be (b_remote b) @ client"
  let ?s2 = "?s1\<lparr>sy_streams := sy_streams ?s1 @ [(k, st)],
      sy_log := sy_log ?s1 @ [Asked k (b_local b) (b_remote b) client]\<rparr>"
  have "forward_tcp (Inr [] :: rstring + u8 list) (\<lambda>st b. Inr (st @ b)) (\<lambda>_ st. (Inr (0, 0), st @ client)) (0 :: nat)
      (m_remote (binding_map b)) = (Inr (), Some st)"
    by (simp add: forward_tcp_def write_target_port_def st_def binding_map_def)
  from sys_Asks [OF _ _ this, where s = ?s1 and k = k and l = l] l assms(3)
  have "sys_step ?s1 ?s2" by (simp add: dial_acted_def binding_map_def)
  then have two: "quiet_run ?s1 ?s2" by (rule quiet_step) simp_all
  have used: "k \<in> set (sy_used s)" "fmlookup (sn_conns (sy_serve s)) k \<noteq> None"
    using assms(1,3) by (auto simp: sys_inv_def server_ok_def link_ok_def)
  then obtain c where c: "fmlookup (sn_conns (sy_serve s)) k = Some c" "cn_peer c = sy_me s"
    using assms(1) by (auto simp: sys_inv_def server_ok_def)
  have srv: "serve_stream list_read (\<lambda>_. Inr 0 :: rstring + nat) (\<lambda>_ _. Inr (0, 0)) (cfg_now (sy_serve ?s2)) (cn_peer c) st =
      (Inr (), [ConnectLocal (b_remote b), CopyBoth (b_remote b)])"
    using assms(7) c(2)
    by (simp add: serve_stream_def read_target_port_def list_read_def st_def be16.to_be_length be16.from_to_be
        grant_list_iff dial_acted_def)
  let ?i = "length (sy_streams ?s1)"
  let ?s3 = "?s2\<lparr>sy_streams := take ?i (sy_streams ?s2) @ drop (Suc ?i) (sy_streams ?s2),
      sy_log := sy_log ?s2 @ reached k (drop 2 st) [ConnectLocal (b_remote b), CopyBoth (b_remote b)]\<rparr>"
  have "sys_step ?s2 ?s3"
    by (rule sys_Carried [OF _ _ _ srv]) (simp_all add: dial_acted_def c(1))
  then have "quiet_run ?s2 ?s3" by (rule quiet_step) simp_all
  from quiet_trans [OF quiet_trans [OF this two] one] have "quiet_run s ?s3" .
  moreover have "sy_link ?s3 = Linked k" using assms(3) by (simp add: dial_acted_def)
  ultimately show ?thesis
    by (intro exI [of _ ?s3]) (simp add: st_def be16.to_be_length)
qed

section \<open>Properties of the whole\<close>

lemma sys_step_serve:
  assumes "sys_step s s'" and "sys_inv s" and "serve_run n0 tr (sy_serve s)"
  shows "\<exists>tr'. serve_run n0 tr' (sy_serve s')"
  using assms
proof (induction rule: sys_induct)
  case (Serves s acts n)
  from serve_run.more [OF Serves.prems(2) Serves.hyps(1)] show ?case by (auto simp: serve_acted_def)
next
  case (Admits s k now paths acts n)
  then have "fmlookup (sn_conns (sy_serve s)) k = None" by (simp add: sys_inv_def server_ok_def link_ok_def)
  from serve_run.more [OF Admits.prems(2) accept_is_step [OF this Admits.hyps(2)]] show ?case by auto
qed (auto simp: dial_acted_def)

text \<open>
  The composition adds nothing to either side. In every run of the two machines each of them runs
  as it could alone, so what is shown of the node and of the loop holds of them together.
\<close>
theorem sides_run_as_alone:
  assumes "config_wf (sh_cfg cs)" and "live_of cs = fmempty" and "sys_run (sys_start os me peer ss cs) s"
  shows "dial_run (loop_start os peer cs) (sy_dial s) \<and> (\<exists>tr. serve_run (serve_start ss) tr (sy_serve s))"
proof
  show "dial_run (loop_start os peer cs) (sy_dial s)"
    using sys_run_dial [OF assms(3)] by (simp add: sys_start_def)
  from assms(3) show "\<exists>tr. serve_run (serve_start ss) tr (sy_serve s)"
  proof (induction rule: sys_run.induct)
    case start
    then show ?case using serve_run.start by (auto simp: sys_start_def)
  next
    case (more s s')
    have "sys_inv s" by (rule sys_run_inv [OF more.hyps(1) sys_inv_start [OF assms(1,2)]])
    with more show ?case using sys_step_serve by blast
  qed
qed


text \<open>
  C24: the loop never gives up by mistake. When the reaching process has ended because the peer closed
  the connection, the offering side has at some time run a configuration that does not admit it: a
  lost link, an edit that keeps it, a refused port or anything another peer does never ends it.
\<close>
theorem exit_means_refused:
  assumes "config_wf (sh_cfg cs)" and "live_of cs = fmempty" and "sys_run (sys_start os me peer ss cs) s"
    and "d_phase (sy_dial s) = Exited (ClosedByPeer why code)"
  shows "code = unat REFUSED \<and> (\<exists>cfg \<in> set (sy_scfgs s). \<not> admits cfg me)"
proof -
  have "sys_inv s" by (rule sys_run_inv [OF assms(3) sys_inv_start [OF assms(1,2)]])
  moreover have "sy_me s = me" using sys_run_me [OF assms(3)] by (simp add: sys_start_def)
  ultimately show ?thesis using assms(4) by (auto simp: sys_inv_def server_ok_def refused_once_def)
qed


section \<open>Witnesses\<close>

text \<open>The local port 2222 bound to the port 8080 that the offering side shares with peer 1.\<close>

definition web_binding :: Binding where
  "web_binding = \<lparr>b_proto = Tcp, b_local = 2222, b_remote = 8080, b_name = [], b_enabled = True\<rparr>"

definition web_client :: "nat Shared" where
  "web_client = shared_new (with_bindings default_config [web_binding]) [lit ''config.toml''] RoleConnect 0"

definition both_start :: "nat \<Rightarrow> (nat, nat, nat) System" where
  "both_start me = sys_start picky_os me 9 dns_shared web_client"

definition both_open :: "nat \<Rightarrow> (nat, nat, nat) System" where
  "both_open me = (both_start me)\<lparr>sy_dial := dial_ok 4 9 [] (sy_dial (both_start me)), sy_link := Arriving 0,
     sy_used := [0]\<rparr>"

definition both_up :: "(nat, nat, nat) System" where
  "both_up = (both_open 1)\<lparr>sy_serve := put_conn 0 dns_fresh dns_base, sy_link := Linked 0\<rparr>"

definition both_asked :: "(nat, nat, nat) System" where
  "both_asked = both_up\<lparr>sy_streams := [(0, u16_to_be 8080 @ [9])], sy_log := [Asked 0 2222 8080 [9]]\<rparr>"

definition both_done :: "(nat, nat, nat) System" where
  "both_done = both_asked\<lparr>sy_streams := [], sy_log := [Asked 0 2222 8080 [9], Reached 0 8080 [9]]\<rparr>"

lemma web_client_ok: "config_wf (sh_cfg web_client)" "live_of web_client = fmempty"
  by (simp_all add: web_client_def shared_new_def web_binding_def config_wf_def offers_wf_def peers_wf_def
      bindings_wf_def binding_wf_def default_config_def)

lemma web_loop:
  "d_peer (loop_start picky_os 9 web_client) = 9"
  "d_phase (loop_start picky_os 9 web_client) = dial_phase.Dialing"
  "sh_cfg (d_shared (loop_start picky_os 9 web_client)) = with_bindings default_config [web_binding]"
  "d_bound (loop_start picky_os 9 web_client) = fmupd (Tcp, 2222) (SockTcp 2222, 8080) fmempty"
  by (simp_all add: loop_start_def web_client_def shared_new_def active_bindings_def web_binding_def
      default_config_def reconcile_def reconcile_one_def picky_os_def sorted_list_of_fset.rep_eq)

lemma both_open_run: "sys_run (both_start me) (both_open me)"
proof -
  have "sys_step (both_start me) (both_open me)"
    using sys_Opens [of "both_start me" 0 4 "[]"]
    by (simp add: both_start_def both_open_def sys_start_def web_loop serve_start_def)
  from sys_run.more [OF sys_run.start this] show ?thesis .
qed

lemma both_up_run: "sys_run (both_start 1) both_up"
proof -
  have "sys_step (both_open 1) both_up"
    using sys_Admits [of "both_open 1" 0 3 "[]" "[]" "put_conn 0 dns_fresh dns_base"] dns_accept
    by (simp add: both_up_def both_open_def both_start_def sys_start_def link_after_def)
  from sys_run.more [OF both_open_run this] show ?thesis .
qed

lemma both_up_dial:
  "sy_dial both_up = dial_ok 4 9 [] (loop_start picky_os 9 web_client)" "sy_link both_up = Linked 0"
  "sy_serve both_up = put_conn 0 dns_fresh dns_base" "sy_streams both_up = []" "sy_log both_up = []"
  by (simp_all add: both_up_def both_open_def both_start_def sys_start_def)

lemma both_asked_run: "sys_run (both_start 1) both_asked"
proof -
  have "AcceptTcp 2222 (binding_map web_binding) \<in> set (d_tasks (sy_dial both_up))"
    by (simp add: both_up_dial dial_ok_def web_loop spawn_forwarders_mem tcp_listeners_mem binding_map_def
        web_binding_def)
  from sys_Asks [OF this, of 0 "Inr (0, 0)" "[9]" 0 "Inr ()" "u16_to_be 8080 @ [9]"]
  have "sys_step both_up both_asked"
    by (simp add: both_up_dial forward_tcp_def write_target_port_def binding_map_def web_binding_def both_asked_def)
  from sys_run.more [OF both_up_run this] show ?thesis .
qed

lemma both_done_step: "sys_step both_asked both_done"
proof -
  have "serve_stream list_read (\<lambda>_. Inr 0 :: rstring + nat) (\<lambda>_ _. Inr (0, 0)) (cfg_now (sy_serve both_asked))
      (cn_peer dns_fresh) (u16_to_be 8080 @ [9]) = (Inr (), [ConnectLocal 8080, CopyBoth 8080])"
    by (simp add: serve_stream_def read_target_port_def list_read_def be16.to_be_length be16.from_to_be
        grant_list_iff both_asked_def both_up_dial dns_fresh_def dns_conn_def dns_config_rights)
  from sys_Carried [OF _ _ _ this, of 0 0] show ?thesis
    by (simp add: both_asked_def both_done_def both_up_dial be16.to_be_length)
qed


theorem sides_run_as_alone_witness:
  "dial_run (loop_start picky_os 9 web_client) (sy_dial both_up) \<and>
   (\<exists>tr. serve_run (serve_start dns_shared) tr (sy_serve both_up))"
  by (rule sides_run_as_alone [OF web_client_ok both_up_run [unfolded both_start_def]])


text \<open>A stranger is turned away.\<close>

definition turned_away :: "(nat, nat, nat) System" where
  "turned_away = (both_open 5)\<lparr>sy_link := ClosedBy 0 REFUSED (lit ''not allowlisted'')\<rparr>"

lemma turned_away_run: "sys_run (both_start 5) turned_away"
proof -
  have "\<not> admits dns_config 5"
    by (simp add: admits_def cfg_peer_def dns_config_def example_config_def)
  then have "accept_conn 3 0 5 [] (serve_start dns_shared) = ([CloseConn 0 REFUSED (lit ''not allowlisted'')], serve_start dns_shared)"
    by (simp add: accept_conn_def serve_start_def)
  then have "sys_step (both_open 5) turned_away"
    using sys_Admits [of "both_open 5" 0 3 "[]" "[CloseConn 0 REFUSED (lit ''not allowlisted'')]"
        "serve_start dns_shared"]
    by (simp add: turned_away_def both_open_def both_start_def sys_start_def link_after_def)
  from sys_run.more [OF both_open_run this] show ?thesis .
qed

theorem exit_means_refused_witness:
  "unat REFUSED = (1 :: nat) \<and> \<not> admits dns_config 5"
proof -
  let ?s = "turned_away\<lparr>sy_dial := conn_closed 7 (ApplicationClosed (lit ''not allowlisted'') (unat REFUSED))
      (sy_dial turned_away), sy_link := Unlinked\<rparr>"
  have on: "online (sy_dial turned_away)"
    by (simp add: turned_away_def both_open_def)
  have "sys_step turned_away ?s"
    by (rule sys_CloseArrives [OF _ on]) (simp add: turned_away_def)
  from sys_run.more [OF turned_away_run [unfolded both_start_def] this]
  have run: "sys_run (sys_start picky_os 5 9 dns_shared web_client) ?s" .
  have "d_phase (sy_dial ?s) = Exited (ClosedByPeer (lit ''not allowlisted'') 1)"
    by (simp add: closed_exit REFUSED_def)
  from exit_means_refused [OF web_client_ok run this] show ?thesis
    by (simp add: REFUSED_def turned_away_def both_open_def both_start_def sys_start_def)
qed

end
