(* ===== verification/Udp_Sides.thy ===== *)
theory Udp_Sides
  imports Both_Sides Tunnel
begin

text \<open>
  UDP in the running system: the two machines of \<open>Both_Sides\<close>, with the datagrams of every
  connection between them. Each connection has the session table of the forwarders that the loop
  keeps for it (\<open>spawn_forwarders\<close>) and the session table of its \<open>pump_udp\<close>, and the network may
  lose, repeat and reorder what they send. Unlike in \<open>Tunnel\<close>, what can happen is decided by the
  state of the two processes: a forwarder runs only for a listener that is bound while the link is
  held, a datagram is handled under the configuration in force, and a change of the listeners
  replaces the table of the forwarders.
\<close>

section \<open>State\<close>

text \<open>
  The offering side keeps its table in the connection, so the field \<open>tn_serve\<close> of \<open>wh_udp\<close> is not
  used: \<open>udp_of\<close> puts the table of the connection there. \<open>wh_respawned\<close> is a ghost: the connections
  whose forwarders were started again while they were held.
\<close>

record ('id, 'sock, 'l, 'a) Whole =
  wh_sys :: "('id, 'sock, 'l) System"
  wh_udp :: "nat \<Rightarrow> ('a, 'l, 'sock) Tunnel"
  wh_respawned :: "nat list"

definition table_at :: "nat \<Rightarrow> ('id, 'sock, 'l) System \<Rightarrow> 'sock serve_table" where
  "table_at k s = (case fmlookup (sn_conns (sy_serve s)) k of None \<Rightarrow> fmempty | Some c \<Rightarrow> cn_table c)"

definition udp_of :: "('id, 'sock, 'l, 'a) Whole \<Rightarrow> nat \<Rightarrow> ('a, 'l, 'sock) Tunnel" where
  "udp_of w k = (wh_udp w k)\<lparr>tn_serve := table_at k (wh_sys w)\<rparr>"

definition whole_start ::
  "(Proto \<Rightarrow> u16 \<Rightarrow> rstring + 'l) \<Rightarrow> 'id \<Rightarrow> 'id \<Rightarrow> 'id Shared \<Rightarrow> 'id Shared \<Rightarrow> ('id, 'sock, 'l, 'a) Whole" where
  "whole_start os me peer ss cs =
     \<lparr>wh_sys = sys_start os me peer ss cs, wh_udp = (\<lambda>_. tunnel_start), wh_respawned = []\<rparr>"

section \<open>Steps\<close>

text \<open>
  The loop starts its forwarders again exactly when a reconciliation under a held connection changed
  the table of listeners (\<open>respawned_when_changed\<close> below).
\<close>

definition respawned_on :: "('id, 'sock, 'l) System \<Rightarrow> ('id, 'sock, 'l) System \<Rightarrow> nat option" where
  "respawned_on s s' =
     (if online (sy_dial s) \<and> online (sy_dial s') \<and> d_bound (sy_dial s') \<noteq> d_bound (sy_dial s)
      then link_name (sy_link s) else None)"

definition on_wire ::
  "nat \<Rightarrow> (('a, 'l, 'sock) Tunnel \<Rightarrow> ('a, 'l, 'sock) Tunnel) \<Rightarrow> ('id, 'sock, 'l, 'a) Whole \<Rightarrow>
     ('id, 'sock, 'l, 'a) Whole" where
  "on_wire k f w = w\<lparr>wh_udp := (wh_udp w)(k := f (wh_udp w k))\<rparr>"

definition control :: "('id, 'sock, 'l) System \<Rightarrow> ('id, 'sock, 'l, 'a) Whole \<Rightarrow> ('id, 'sock, 'l, 'a) Whole" where
  "control s' w =
     (case respawned_on (wh_sys w) s' of
        None \<Rightarrow> w\<lparr>wh_sys := s'\<rparr>
      | Some k \<Rightarrow> on_wire k respawn (w\<lparr>wh_sys := s', wh_respawned := k # wh_respawned w\<rparr>))"

text \<open>What the offering side does with the table of connection \<open>k\<close>.\<close>

definition table_set ::
  "nat \<Rightarrow> ('id, 'sock) Conn \<Rightarrow> 'sock serve_act list \<Rightarrow> 'sock serve_table \<Rightarrow> ('id, 'sock, 'l, 'a) Whole \<Rightarrow>
     ('id, 'sock, 'l, 'a) Whole" where
  "table_set k c acts t w =
     w\<lparr>wh_sys := serve_acted acts (with_table k c t (sy_serve (wh_sys w))) (wh_sys w)\<rparr>"

text \<open>The datagrams of the connections of this process are those that this process sent.\<close>

definition own_traffic :: "nat list \<Rightarrow> 'sock serve_act list \<Rightarrow> bool" where
  "own_traffic used acts \<longleftrightarrow> (\<forall>k \<in> set used. \<forall>a dg. UdpAct k a \<notin> set acts \<and> SendBack k dg \<notin> set acts)"

inductive whole_step :: "('id, 'sock, 'l, 'a) Whole \<Rightarrow> ('id, 'sock, 'l, 'a) Whole \<Rightarrow> bool" where
  Control: "link_step (wh_sys w) s' \<Longrightarrow> whole_step w (control s' w)"
| Serves: "serve_step (sy_serve (wh_sys w)) acts n \<Longrightarrow>
     others_only (sy_used (wh_sys w)) (sy_serve (wh_sys w)) acts n \<Longrightarrow> own_traffic (sy_used (wh_sys w)) acts \<Longrightarrow>
     whole_step w (w\<lparr>wh_sys := serve_acted acts n (wh_sys w)\<rparr>)"
| Out: "PumpOut l m \<in> set (d_tasks (sy_dial (wh_sys w))) \<Longrightarrow> link_name (sy_link (wh_sys w)) = Some k \<Longrightarrow>
     whole_step w (on_wire k (client_out now src l m x) w)"
| Arrive: "dg \<in> tn_up (wh_udp w k) \<Longrightarrow> fmlookup (sn_conns (sy_serve (wh_sys w))) k = Some c \<Longrightarrow>
     cn_phase c \<noteq> Ended \<Longrightarrow> cn_udp c \<noteq> [] \<Longrightarrow>
     (\<And>sock. (bind :: rstring + 'sock) = Inr sock \<Longrightarrow> \<not> sock_in_use (sy_serve (wh_sys w)) sock) \<Longrightarrow>
     serve_datagram bind connect send now (cfg_now (sy_serve (wh_sys w))) (cn_peer c) dg (cn_table c) = (r, acts, t) \<Longrightarrow>
     whole_step w (on_wire k (\<lambda>s. s\<lparr>tn_log := tn_log s @ service_got acts\<rparr>) (table_set k c (map (UdpAct k) acts) t w))"
| Reply: "k \<in> set (sy_used (wh_sys w)) \<Longrightarrow> fmlookup (sn_conns (sy_serve (wh_sys w))) k = Some c \<Longrightarrow>
     cn_phase c \<noteq> Ended \<Longrightarrow> serve_reply now i (recv :: rstring + u8 list) (cn_table c) = (out, t) \<Longrightarrow>
     whole_step w (on_wire k (\<lambda>s. reply_in now i recv (s\<lparr>tn_serve := cn_table c\<rparr>))
       (table_set k c (case out of None \<Rightarrow> [] | Some dg \<Rightarrow> [SendBack k dg]) t w))"
| Back: "PumpIn \<in> set (d_tasks (sy_dial (wh_sys w))) \<Longrightarrow> link_name (sy_link (wh_sys w)) = Some k \<Longrightarrow>
     dg \<in> tn_down (wh_udp w k) \<Longrightarrow> whole_step w (on_wire k (client_in now dg) w)"
| Reap: "Reaper \<in> set (d_tasks (sy_dial (wh_sys w))) \<Longrightarrow> link_name (sy_link (wh_sys w)) = Some k \<Longrightarrow>
     whole_step w (on_wire k (\<lambda>s. s\<lparr>tn_conn := conn_reap now (tn_conn s)\<rparr>) w)"

inductive whole_run :: "('id, 'sock, 'l, 'a) Whole \<Rightarrow> nat \<Rightarrow> ('id, 'sock, 'l, 'a) Whole \<Rightarrow> bool"
  for w0 :: "('id, 'sock, 'l, 'a) Whole" where
  start: "whole_run w0 0 w0"
| more: "whole_run w0 n w \<Longrightarrow> whole_step w w' \<Longrightarrow> whole_run w0 (Suc n) w'"

lemma on_wire_simps [simp]:
  "wh_sys (on_wire k f w) = wh_sys w" "wh_respawned (on_wire k f w) = wh_respawned w"
  "wh_udp (on_wire k f w) j = (if j = k then f (wh_udp w k) else wh_udp w j)"
  by (simp_all add: on_wire_def)

lemma table_set_simps [simp]:
  "wh_sys (table_set k c acts t w) = serve_acted acts (with_table k c t (sy_serve (wh_sys w))) (wh_sys w)"
  "wh_respawned (table_set k c acts t w) = wh_respawned w" "wh_udp (table_set k c acts t w) = wh_udp w"
  by (simp_all add: table_set_def)

lemma control_simps [simp]: "wh_sys (control s' w) = s'"
  by (simp add: control_def split: option.splits)

lemma serve_acted_simps [simp]:
  "sy_serve (serve_acted acts n s) = n" "sy_dial (serve_acted acts n s) = sy_dial s"
  "sy_used (serve_acted acts n s) = sy_used s" "sy_me (serve_acted acts n s) = sy_me s"
  "sy_ccfgs (serve_acted acts n s) = sy_ccfgs s"
  by (simp_all add: serve_acted_def)

lemma serve_acted_link [simp]: "link_name (sy_link (serve_acted acts n s)) = link_name (sy_link s)"
proof -
  have "link_name (link_after acts k) = Some k" for k
    by (simp add: link_after_def split: option.splits prod.splits)
  then show ?thesis by (simp add: serve_acted_def split: link.splits)
qed

section \<open>The two machines run as before\<close>

lemma table_step_others:
  assumes "fmlookup (sn_conns n) k = Some c" and "\<And>j a. StreamAct j a \<notin> set acts"
  shows "others_only used n acts (with_table k c t n)"
  using assms by (auto simp: others_only_def)

lemma whole_step_sys:
  "whole_step w w' \<Longrightarrow> wh_sys w' = wh_sys w \<or> sys_step (wh_sys w) (wh_sys w')"
proof (induction rule: whole_step.induct)
  case (Control w s')
  then show ?case by (simp add: sys_step.Link)
next
  case (Serves w acts n)
  then show ?case by (simp add: sys_step.Serves)
next
  case (Arrive dg w k c bind connect send now r acts t)
  have "serve_step (sy_serve (wh_sys w)) (map (UdpAct k) acts) (with_table k c t (sy_serve (wh_sys w)))"
    by (rule serve_step.Datagram [OF Arrive.hyps(2-4) Arrive.hyps(5) Arrive.hyps(6)])
  moreover have "others_only (sy_used (wh_sys w)) (sy_serve (wh_sys w)) (map (UdpAct k) acts)
      (with_table k c t (sy_serve (wh_sys w)))"
    by (rule table_step_others [OF Arrive.hyps(2)]) auto
  ultimately show ?case by (simp add: sys_step.Serves)
next
  case (Reply k w c now i recv out t)
  note step = serve_step.Reply [OF Reply.hyps(2-4)]
  moreover have "others_only (sy_used (wh_sys w)) (sy_serve (wh_sys w))
      (case out of None \<Rightarrow> [] | Some dg \<Rightarrow> [SendBack k dg]) (with_table k c t (sy_serve (wh_sys w)))"
    by (rule table_step_others [OF Reply.hyps(2)]) (auto split: option.splits)
  ultimately show ?case by (simp add: sys_step.Serves)
qed simp_all

lemma whole_run_sys: "whole_run w0 n w \<Longrightarrow> sys_run (wh_sys w0) (wh_sys w)"
proof (induction rule: whole_run.induct)
  case (more n w w')
  then show ?case using whole_step_sys [OF more.hyps(2)] sys_run.more by metis
qed (rule sys_run.start)

lemma respawned_when_changed:
  assumes "dial_inv d" and "d_phase d = Connected"
  shows "fst (reconcile os (wanted (d_shared d)) (d_bound d) (d_shared d)) \<longleftrightarrow>
           d_bound (connected_changed os d) \<noteq> d_bound d"
proof -
  obtain changed bound s' where rec: "reconcile os (wanted (d_shared d)) (d_bound d) (d_shared d) = (changed, bound, s')"
    by (cases "reconcile os (wanted (d_shared d)) (d_bound d) (d_shared d)") auto
  have "config_wf (sh_cfg (d_shared d))" using assms(1) by (simp add: dial_inv_def)
  from reconcile_frame [OF rec this] show ?thesis by (simp add: connected_changed_def rec)
qed

section \<open>What is on the wires\<close>

lemma reply_in_conn [simp]: "tn_conn (reply_in now i recv s) = tn_conn s"
  by (simp add: reply_in_def split: prod.splits)

text \<open>Every packet on a wire is one that a client or a service sent, and clients send to bindings.\<close>

definition known_traffic :: "'id Config list \<Rightarrow> ('a, 'l, 'sock) Tunnel \<Rightarrow> bool" where
  "known_traffic cfgs s \<longleftrightarrow>
     (\<forall>src p x. ClientSent src p x \<in> set (tn_log s) \<longrightarrow> (\<exists>l. configured cfgs Udp l p)) \<and>
     (\<forall>dg \<in> tn_up s. \<exists>i src p x. dg = encode_datagram i p x \<and> ClientSent src p x \<in> set (tn_log s)) \<and>
     (\<forall>dg \<in> tn_down s. \<exists>i p x. dg = encode_datagram i p x \<and> ServiceSent p x \<in> set (tn_log s))"

text \<open>Every session answers through a listener that is bound.\<close>

definition routes_bound :: "'l listeners \<Rightarrow> ('a, 'l) CSessions \<Rightarrow> bool" where
  "routes_bound bound t \<longleftrightarrow>
     (\<forall>i ses. fmlookup (by_id t) i = Some ses \<longrightarrow>
        (\<exists>port r. fmlookup bound (Udp, port) = Some (SockUdp (cs_sock ses), r)))"

lemma known_grow:
  assumes "known_traffic cfgs s" and "tn_up s' = tn_up s" and log: "set (tn_log s) \<subseteq> set (tn_log s')"
    and "\<And>src p x. ClientSent src p x \<in> set (tn_log s') \<Longrightarrow> ClientSent src p x \<in> set (tn_log s)"
    and down: "\<And>dg. dg \<in> tn_down s' \<Longrightarrow> dg \<in> tn_down s \<or>
      (\<exists>i p x. dg = encode_datagram i p x \<and> ServiceSent p x \<in> set (tn_log s'))"
  shows "known_traffic cfgs s'"
proof -
  have "\<exists>i p x. dg = encode_datagram i p x \<and> ServiceSent p x \<in> set (tn_log s')" if "dg \<in> tn_down s'" for dg
    using down [OF that] assms(1) log unfolding known_traffic_def by blast
  moreover have "\<exists>i src p x. dg = encode_datagram i p x \<and> ClientSent src p x \<in> set (tn_log s')"
    if "dg \<in> tn_up s'" for dg
    using that assms(1,2) log unfolding known_traffic_def by (simp, blast)
  ultimately show ?thesis using assms(1,4) unfolding known_traffic_def by blast
qed

lemma known_same:
  assumes "known_traffic cfgs s" and "tn_up s' = tn_up s" and "tn_down s' = tn_down s"
    and "set (tn_log s) \<subseteq> set (tn_log s')"
    and "\<And>src p x. ClientSent src p x \<in> set (tn_log s') \<Longrightarrow> ClientSent src p x \<in> set (tn_log s)"
  shows "known_traffic cfgs s'"
  by (rule known_grow [OF assms(1,2,4,5)]) (simp_all add: assms(3))

lemma known_mono:
  assumes "known_traffic cfgs s" and "set cfgs \<subseteq> set cfgs'"
  shows "known_traffic cfgs' s"
proof -
  have "configured cfgs' Udp l p" if "configured cfgs Udp l p" for l p
    using that assms(2) by (rule configured_mono)
  with assms(1) show ?thesis unfolding known_traffic_def by blast
qed

lemma known_start: "known_traffic cfgs tunnel_start"
  by (simp add: known_traffic_def tunnel_start_def)

lemma udp_out_datagram:
  "udp_out now src l m x t = (dg, t') \<Longrightarrow> dg = None \<or> (\<exists>i. dg = Some (encode_datagram i (m_remote m) x))"
  by (auto simp: udp_out_def split: prod.splits option.splits)

lemma known_out:
  assumes "known_traffic cfgs s" and "configured cfgs Udp port (m_remote m)"
  shows "known_traffic cfgs (client_out now src l m x s)"
proof -
  obtain dg t where out: "udp_out now src l m x (tn_conn s) = (dg, t)"
    by (cases "udp_out now src l m x (tn_conn s)")
  then have s': "client_out now src l m x s = s\<lparr>tn_conn := t, tn_up := tn_up s \<union> set_option dg,
      tn_log := tn_log s @ [ClientSent src (m_remote m) x]\<rparr>"
    by (simp add: client_out_def)
  from udp_out_datagram [OF out] assms show ?thesis
    unfolding known_traffic_def s' by simp blast
qed

lemma known_in: "known_traffic cfgs s \<Longrightarrow> known_traffic cfgs (client_in now dg s)"
  by (erule known_same)
    (simp_all add: client_in_frame, auto simp: client_in_def split: prod.splits option.splits)

lemma known_reply:
  assumes "known_traffic cfgs s"
  shows "known_traffic cfgs (reply_in now i recv (s\<lparr>tn_serve := t\<rparr>))"
proof -
  obtain dg t' where rep: "serve_reply now i recv t = (dg, t')"
    by (cases "serve_reply now i recv t")
  have sent: "\<exists>j p x. d = encode_datagram j p x \<and>
      ServiceSent p x \<in> set (tn_log (reply_in now i recv (s\<lparr>tn_serve := t\<rparr>)))" if "dg = Some d" for d
    using rep that by (force simp: serve_reply_def reply_in_def split: option.splits if_splits sum.splits)
  have fields: "tn_up (reply_in now i recv (s\<lparr>tn_serve := t\<rparr>)) = tn_up s"
    "tn_down (reply_in now i recv (s\<lparr>tn_serve := t\<rparr>)) = tn_down s \<union> set_option dg"
    "set (tn_log s) \<subseteq> set (tn_log (reply_in now i recv (s\<lparr>tn_serve := t\<rparr>)))"
    "ClientSent src p x \<in> set (tn_log (reply_in now i recv (s\<lparr>tn_serve := t\<rparr>))) \<longleftrightarrow>
       ClientSent src p x \<in> set (tn_log s)" for src p x
    by (auto simp: reply_in_def rep split: option.splits sum.splits)
  show ?thesis
  proof (rule known_grow [OF assms], goal_cases)
    case (4 d)
    then have "d \<in> tn_down s \<or> dg = Some d" by (simp add: fields)
    then show ?case using sent by blast
  qed (simp_all only: fields)
qed

lemma udp_of_conn: "tn_conn (udp_of w k) = tn_conn (wh_udp w k)"
  by (simp add: udp_of_def)

lemma got_not_sent:
  "ClientSent src p y \<notin> set (service_got acts)" "ClientGot l src y \<notin> set (service_got acts)"
  by (induction acts rule: service_got.induct) auto

lemma known_got: "known_traffic cfgs s \<Longrightarrow> known_traffic cfgs (s\<lparr>tn_log := tn_log s @ service_got acts\<rparr>)"
  by (erule known_same) (auto simp: got_not_sent)

lemma routes_none: "routes_bound bound no_sessions"
  by (simp add: routes_bound_def no_sessions_def)

lemma routes_out:
  assumes "routes_bound bound t" and "fmlookup bound (Udp, port) = Some (SockUdp l, r)"
  shows "routes_bound bound (snd (udp_out now src l m x t))"
proof -
  have "snd (udp_out now src l m x t) = snd (id_for now src (m_remote m) l t)"
    by (auto simp: udp_out_def split: prod.splits option.splits)
  with assms show ?thesis
    by (auto simp: routes_bound_def id_for_def Let_def split: option.splits)
qed

lemma routes_in:
  assumes "routes_bound bound t"
  shows "routes_bound bound (snd (udp_in now dg t))"
proof -
  obtain i where "snd (udp_in now dg t) = t \<or> snd (udp_in now dg t) = snd (reply_route now i t)"
    using udp_in_table [of now dg t, OF prod.collapse [symmetric]] by auto
  moreover have "routes_bound bound (snd (reply_route now i t))"
    using assms by (auto simp: routes_bound_def reply_route_def split: option.splits)
  ultimately show ?thesis using assms by auto
qed

lemma routes_reap: "routes_bound bound t \<Longrightarrow> routes_bound bound (conn_reap now t)"
  unfolding routes_bound_def conn_reap_by_id hm_retain_Some by blast

text \<open>A reply that reaches a client leaves by the listener and for the address of a session.\<close>

lemma udp_in_out:
  assumes "udp_in now dg t = (Some (l, src, x), t')"
  shows "\<exists>i p ses. decode_datagram dg = Some (i, p, x) \<and> fmlookup (by_id t) i = Some ses \<and>
           cs_sock ses = l \<and> cs_src ses = src"
  using assms by (auto simp: udp_in_def reply_route_def split: option.splits prod.splits)

section \<open>The invariant\<close>

definition whole_ok :: "('id, 'sock, 'l, 'a) Whole \<Rightarrow> bool" where
  "whole_ok w \<longleftrightarrow>
     sys_inv (wh_sys w) \<and>
     (\<forall>k. k \<notin> set (sy_used (wh_sys w)) \<longrightarrow> wh_udp w k = tunnel_start) \<and>
     (\<forall>k. known_traffic (sy_ccfgs (wh_sys w)) (wh_udp w k)) \<and>
     (\<forall>k. online (sy_dial (wh_sys w)) \<longrightarrow> link_name (sy_link (wh_sys w)) = Some k \<longrightarrow>
        routes_bound (d_bound (sy_dial (wh_sys w))) (tn_conn (wh_udp w k)))"

lemma whole_okI:
  assumes "sys_inv (wh_sys w)" and "\<And>k. k \<notin> set (sy_used (wh_sys w)) \<Longrightarrow> wh_udp w k = tunnel_start"
    and "\<And>k. known_traffic (sy_ccfgs (wh_sys w)) (wh_udp w k)"
    and "\<And>k. online (sy_dial (wh_sys w)) \<Longrightarrow> link_name (sy_link (wh_sys w)) = Some k \<Longrightarrow>
        routes_bound (d_bound (sy_dial (wh_sys w))) (tn_conn (wh_udp w k))"
  shows "whole_ok w"
  using assms by (simp add: whole_ok_def)

lemma whole_okD:
  assumes "whole_ok w"
  shows "sys_inv (wh_sys w)" and "k \<notin> set (sy_used (wh_sys w)) \<Longrightarrow> wh_udp w k = tunnel_start"
    and "known_traffic (sy_ccfgs (wh_sys w)) (wh_udp w k)"
    and "online (sy_dial (wh_sys w)) \<Longrightarrow> link_name (sy_link (wh_sys w)) = Some k \<Longrightarrow>
        routes_bound (d_bound (sy_dial (wh_sys w))) (tn_conn (wh_udp w k))"
  using assms by (simp_all add: whole_ok_def)

lemma link_used: "sys_inv s \<Longrightarrow> link_name (sy_link s) = Some k \<Longrightarrow> k \<in> set (sy_used s)"
  by (cases "sy_link s") (auto simp: sys_inv_def server_ok_def link_ok_def)

lemma start_tunnel_conn: "tn_conn tunnel_start = no_sessions" "tn_up tunnel_start = {}" "tn_down tunnel_start = {}"
  by (simp_all add: tunnel_start_def)

text \<open>A pump runs for a listener that is bound, and only while a link is held.\<close>

lemma pump_listener:
  assumes "sys_inv s" and "PumpOut l m \<in> set (d_tasks (sy_dial s))"
  shows "online (sy_dial s)" and "fmlookup (d_bound (sy_dial s)) (Udp, m_local m) = Some (SockUdp l, m_remote m)"
    and "configured (sy_ccfgs s) Udp (m_local m) (m_remote m)"
proof -
  have ok: "client_ok s" using assms(1) by (simp add: sys_inv_def)
  then have "dial_inv (sy_dial s)" by (simp add: client_ok_def)
  from forwarders_of_listeners [OF this, of l m] assms(2)
  show on: "online (sy_dial s)" and bound: "fmlookup (d_bound (sy_dial s)) (Udp, m_local m) = Some (SockUdp l, m_remote m)"
    by blast+
  from ok bound show "configured (sy_ccfgs s) Udp (m_local m) (m_remote m)" unfolding client_ok_def by blast
qed

lemma tasks_online: "sys_inv s \<Longrightarrow> task \<in> set (d_tasks (sy_dial s)) \<Longrightarrow> online (sy_dial s)"
  by (auto simp: sys_inv_def client_ok_def dial_inv_def split: if_splits)

text \<open>What a step of the control plane does to the sessions of the link it ends up with.\<close>

lemma link_step_routes:
  assumes "link_step s s'" and "sys_inv s" and "online (sy_dial s')" and "link_name (sy_link s') = Some k"
  shows "k \<notin> set (sy_used s) \<or>
     online (sy_dial s) \<and> link_name (sy_link s) = Some k \<and>
       (d_bound (sy_dial s') = d_bound (sy_dial s) \<or> respawned_on s s' = Some k)"
  using assms(1)
proof (cases rule: link_step.cases)
  case (Admits j now paths acts n)
  have "link_name (link_after acts j) = Some j" by (simp add: link_after_def split: option.splits prod.splits)
  with Admits assms(3,4) show ?thesis by simp
next
  case (Dials d)
  with assms(3,4) show ?thesis by (auto simp: dial_acted_def respawned_on_def)
qed (use assms(3,4) in auto)

lemma whole_ok_control:
  assumes "link_step (wh_sys w) s'" and "whole_ok w"
  shows "whole_ok (control s' w)"
proof (rule whole_okI)
  let ?s = "wh_sys w"
  note ok = whole_okD [OF assms(2)]
  have step: "sys_step ?s s'" by (rule sys_step.Link [OF assms(1)])
  note grow = histories_grow [OF step]
  have udp: "wh_udp (control s' w) k =
      (if respawned_on ?s s' = Some k then respawn (wh_udp w k) else wh_udp w k)" for k
    by (auto simp: control_def split: option.splits)
  have resp: "k \<in> set (sy_used ?s)" if "respawned_on ?s s' = Some k" for k
    using that link_used [OF ok(1)] by (auto simp: respawned_on_def split: if_splits)
  show "sys_inv (wh_sys (control s' w))" using sys_inv_step [OF step ok(1)] by simp
  show "wh_udp (control s' w) k = tunnel_start" if "k \<notin> set (sy_used (wh_sys (control s' w)))" for k
  proof -
    have "k \<notin> set (sy_used ?s)" using that grow by auto
    then show ?thesis using resp ok(2) by (auto simp: udp)
  qed
  show "known_traffic (sy_ccfgs (wh_sys (control s' w))) (wh_udp (control s' w) k)" for k
  proof -
    have "known_traffic (sy_ccfgs s') (wh_udp w k)" by (rule known_mono [OF ok(3)]) (use grow in blast)
    then show ?thesis by (auto simp: udp respawn_def intro: known_same)
  qed
  show "routes_bound (d_bound (sy_dial (wh_sys (control s' w)))) (tn_conn (wh_udp (control s' w) k))"
    if "online (sy_dial (wh_sys (control s' w)))" and "link_name (sy_link (wh_sys (control s' w))) = Some k" for k
  proof -
    from that have "online (sy_dial s')" "link_name (sy_link s') = Some k" by simp_all
    from link_step_routes [OF assms(1) ok(1) this] show ?thesis
      using ok(2,4) by (auto simp: udp respawn_def routes_none start_tunnel_conn)
  qed
qed

text \<open>A step on the wires of one connection, and what it does to the rest.\<close>

lemma whole_ok_wire:
  assumes "whole_ok w" and "sys_inv (wh_sys v)"
    and same: "wh_udp v = wh_udp w" "sy_dial (wh_sys v) = sy_dial (wh_sys w)" "sy_used (wh_sys v) = sy_used (wh_sys w)"
      "link_name (sy_link (wh_sys v)) = link_name (sy_link (wh_sys w))" "sy_ccfgs (wh_sys v) = sy_ccfgs (wh_sys w)"
    and "k \<in> set (sy_used (wh_sys w))" and "known_traffic (sy_ccfgs (wh_sys w)) (f (wh_udp w k))"
    and "online (sy_dial (wh_sys w)) \<Longrightarrow> link_name (sy_link (wh_sys w)) = Some k \<Longrightarrow>
        routes_bound (d_bound (sy_dial (wh_sys w))) (tn_conn (f (wh_udp w k)))"
  shows "whole_ok (on_wire k f v)"
  by (rule whole_okI) (use assms(8-10) assms(2) whole_okD(2-4) [OF assms(1)] in \<open>auto simp: same\<close>)

lemma whole_ok_out:
  assumes "whole_ok w" and "PumpOut l m \<in> set (d_tasks (sy_dial (wh_sys w)))" and "link_name (sy_link (wh_sys w)) = Some k"
  shows "whole_ok (on_wire k (client_out now src l m x) w)"
proof (rule whole_ok_wire [OF assms(1) _ refl refl refl refl refl])
  note ok = whole_okD [OF assms(1)]
  note pump = pump_listener [OF ok(1) assms(2)]
  show "sys_inv (wh_sys w)" by (rule ok(1))
  show "k \<in> set (sy_used (wh_sys w))" by (rule link_used [OF ok(1) assms(3)])
  show "known_traffic (sy_ccfgs (wh_sys w)) (client_out now src l m x (wh_udp w k))"
    by (rule known_out [OF ok(3) pump(3)])
  have "tn_conn (client_out now src l m x (wh_udp w k)) = snd (udp_out now src l m x (tn_conn (wh_udp w k)))"
    by (simp add: client_out_def split: prod.splits)
  then show "routes_bound (d_bound (sy_dial (wh_sys w))) (tn_conn (client_out now src l m x (wh_udp w k)))"
    using routes_out [OF ok(4) [OF pump(1) assms(3)] pump(2)] by simp
qed

text \<open>On the offering side of a connection the sessions of the reaching side do not change.\<close>

lemma whole_ok_serve_wire:
  assumes "whole_ok w" and "sys_inv (wh_sys (table_set k c acts t w))" and "k \<in> set (sy_used (wh_sys w))"
    and "known_traffic (sy_ccfgs (wh_sys w)) (f (wh_udp w k))" and "tn_conn (f (wh_udp w k)) = tn_conn (wh_udp w k)"
  shows "whole_ok (on_wire k f (table_set k c acts t w))"
  by (rule whole_ok_wire [where w = w]) (use whole_okD(4) [OF assms(1)] assms in simp_all)

lemma whole_ok_step:
  assumes "whole_step w w'" and "whole_ok w"
  shows "whole_ok w'"
proof -
  note ok = whole_okD [OF assms(2)]
  have inv: "sys_inv (wh_sys w')" using whole_step_sys [OF assms(1)] ok(1) sys_inv_step by metis
  from assms(1) show ?thesis
  proof (cases rule: whole_step.cases)
    case (Control s')
    with whole_ok_control assms(2) show ?thesis by blast
  next
    case (Serves acts n)
    show ?thesis by (rule whole_okI) (use inv ok Serves in auto)
  next
    case (Out l m k now src x)
    show ?thesis unfolding Out(1) by (rule whole_ok_out [OF assms(2) Out(2,3)])
  next
    case (Arrive dg k c bind connect send now r acts t)
    have "k \<in> set (sy_used (wh_sys w))"
      by (rule ccontr) (use Arrive(2) ok(2) [of k] in \<open>simp add: start_tunnel_conn\<close>)
    then show ?thesis
      using inv unfolding Arrive(1) on_wire_simps by (intro whole_ok_serve_wire assms(2) known_got ok(3)) simp_all
  next
    case (Reply k c now i recv out t)
    then show ?thesis
      using inv unfolding Reply(1) on_wire_simps by (intro whole_ok_serve_wire assms(2) known_reply ok(3)) simp_all
  next
    case (Back k dg now)
    show ?thesis unfolding Back(1)
      by (rule whole_ok_wire [OF assms(2) ok(1) refl refl refl refl refl link_used [OF ok(1) Back(3)]])
        (simp_all add: client_in_frame routes_in known_in ok(3,4))
  next
    case (Reap k now)
    have "known_traffic (sy_ccfgs (wh_sys w)) (wh_udp w k\<lparr>tn_conn := conn_reap now (tn_conn (wh_udp w k))\<rparr>)"
      by (rule known_same [OF ok(3)]) simp_all
    then show ?thesis unfolding Reap(1)
      by (rule whole_ok_wire [OF assms(2) ok(1) refl refl refl refl refl link_used [OF ok(1) Reap(3)]])
        (simp add: routes_reap ok(4))
  qed
qed

lemma whole_ok_start:
  assumes "config_wf (sh_cfg cs)" and "live_of cs = fmempty"
  shows "whole_ok (whole_start os me peer ss cs)"
proof -
  have "sy_link (sys_start os me peer ss cs) = Unlinked" by (simp add: sys_start_def)
  with sys_inv_start [OF assms] show ?thesis
    by (intro whole_okI) (auto simp: whole_start_def known_start start_tunnel_conn routes_none)
qed

lemma whole_run_ok: "whole_run w0 n w \<Longrightarrow> whole_ok w0 \<Longrightarrow> whole_ok w"
  by (induction rule: whole_run.induct) (auto intro: whole_ok_step)

section \<open>Each connection is a run of the tunnel\<close>

text \<open>
  What a turn of the offering side that neither takes a datagram of the connection nor sends one
  back does to its table.
\<close>

definition quiet_table :: "'id \<Rightarrow> 'sock serve_table \<Rightarrow> 'sock serve_table \<Rightarrow> bool" where
  "quiet_table peer t t' \<longleftrightarrow>
     t' = t \<or> (\<exists>now. t' = serve_reap now t) \<or> (\<exists>cfg :: 'id Config. t' = udp_changed cfg peer t) \<or>
     (\<exists>now i e. t' = snd (serve_reply now i (Inl e :: rstring + u8 list) t))"

lemma udp_changed_nothing: "udp_changed default_config peer t = fmempty"
proof (rule fmap_ext)
  fix i
  have "(Udp, p) \<notin> rights default_config peer" for p
    using policy.right_admit [of "(Udp, p)" default_config peer] by auto
  then show "fmlookup (udp_changed default_config peer t) i = fmlookup fmempty i"
    by (cases "fmlookup (udp_changed default_config peer t) i") (auto simp: udp_changed_table)
qed

lemma serve_step_quiet:
  assumes "serve_step n acts n'" and "fmlookup (sn_conns n) k = Some c" and "fmlookup (sn_conns n') k = Some c'"
    and "\<And>a dg. UdpAct k a \<notin> set acts \<and> SendBack k dg \<notin> set acts"
  shows "quiet_table (cn_peer c) (cn_table c) (cn_table c')"
  using assms(1)
proof (cases rule: serve_step.cases)
  case (Datagram j d bind connect send now dg r uacts t')
  show ?thesis
  proof (cases "j = k")
    case True
    with Datagram(1) assms(4) have "uacts = []" by (cases uacts) auto
    with Datagram(7) have "t' = cn_table d"
      by (auto simp: serve_datagram_def serve_touch_def open_session_def send_local_def
          split: option.splits sum.splits if_splits prod.splits)
    with Datagram assms(2,3) True show ?thesis by (auto simp: quiet_table_def)
  qed (use Datagram assms(2,3) in \<open>auto simp: quiet_table_def\<close>)
next
  case (Reply j d now i recv out t')
  show ?thesis
  proof (cases "j = k")
    case True
    with Reply(1) assms(4) have "out = None" by (cases out) auto
    with Reply(5) have "t' = cn_table d \<or> (\<exists>e. t' = snd (serve_reply now i (Inl e :: rstring + u8 list) (cn_table d)))"
      by (auto simp: serve_reply_def split: option.splits sum.splits if_splits)
    moreover have "d = c" "cn_table c' = t'" using Reply(2,3) assms(2,3) True by auto
    ultimately show ?thesis unfolding quiet_table_def by blast
  qed (use Reply assms(2,3) in \<open>auto simp: quiet_table_def\<close>)
next
  case (End j d)
  then show ?thesis
    using assms(2,3) udp_changed_nothing [of "cn_peer c" "cn_table c"]
    by (auto simp: quiet_table_def conn_ended_def split: if_splits) metis+
next
  case (Accept j now peer paths)
  then show ?thesis using assms(2,3) by (auto simp: quiet_table_def accept_conn_def split: if_splits)
next
  case (EvictLook j d)
  then show ?thesis using assms(2,3) by (auto simp: quiet_table_def evict_look_def split: if_splits)
qed (use assms(2,3) in \<open>auto simp: quiet_table_def publish_def evict_subscribed_def udp_subscribed_def udp_look_def
    split: if_splits\<close>)

lemma quiet_tunnel:
  assumes "quiet_table peer (tn_serve s) t"
  shows "s\<lparr>tn_serve := t\<rparr> = s \<or> tunnel_step peer s (s\<lparr>tn_serve := t\<rparr>)"
proof -
  have reply: "reply_in now i (Inl e) s = s\<lparr>tn_serve := snd (serve_reply now i (Inl e) (tn_serve s))\<rparr>" for now i e
    by (cases "fmlookup (tn_serve s) i") (simp_all add: reply_in_def serve_reply_def)
  from assms consider "t = tn_serve s" | now where "t = serve_reap now (tn_serve s)"
    | cfg :: "'a Config" where "t = udp_changed cfg peer (tn_serve s)"
    | now i e where "t = snd (serve_reply now i (Inl e :: rstring + u8 list) (tn_serve s))"
    unfolding quiet_table_def by blast
  then show ?thesis
  proof cases
    case (4 now i e)
    then show ?thesis using tunnel_step.Reply [of peer s now i "Inl e"] by (simp add: reply)
  qed (simp_all add: tunnel_step.ServeReap tunnel_step.Revoke)
qed

lemma table_serves:
  assumes "sys_inv s" and "serve_step (sy_serve s) acts n" and "others_only (sy_used s) (sy_serve s) acts n"
    and "own_traffic (sy_used s) acts" and "k \<in> set (sy_used s)"
  shows "quiet_table (sy_me s) (table_at k s) (table_at k (serve_acted acts n s))"
proof (cases "fmlookup (sn_conns (sy_serve s)) k")
  case None
  with assms(3,5) have "fmlookup (sn_conns n) k = None" by (simp add: others_only_def)
  with None show ?thesis by (simp add: table_at_def quiet_table_def)
next
  case (Some c)
  with assms(1,5) have peer: "cn_peer c = sy_me s" by (simp add: sys_inv_def server_ok_def)
  obtain c' where c': "fmlookup (sn_conns n) k = Some c'" using serve_step_keeps_peer [OF assms(2) Some] by auto
  have "UdpAct k a \<notin> set acts \<and> SendBack k dg \<notin> set acts" for a dg
    using assms(4,5) by (simp add: own_traffic_def)
  from serve_step_quiet [OF assms(2) Some c' this] show ?thesis by (simp add: table_at_def Some c' peer)
qed

lemma table_link:
  assumes "link_step s s'" and "sys_inv s"
  shows "table_at k s' = table_at k s \<and> (k \<in> set (sy_used s') \<longrightarrow> k \<notin> set (sy_used s) \<longrightarrow> table_at k s = fmempty)"
  using assms(1)
proof (cases rule: link_step.cases)
  case (Admits j now paths acts n)
  have "fmlookup (sn_conns (sy_serve s)) j = None"
    using assms(2) Admits(2) by (simp add: sys_inv_def server_ok_def link_ok_def)
  with Admits show ?thesis by (auto simp: table_at_def accept_conn_def split: if_splits)
qed (auto simp: table_at_def dial_acted_def)

lemma wire_serve:
  "(client_out now src l m x s)\<lparr>tn_serve := t\<rparr> = client_out now src l m x (s\<lparr>tn_serve := t\<rparr>)"
  "(client_in now dg s)\<lparr>tn_serve := t\<rparr> = client_in now dg (s\<lparr>tn_serve := t\<rparr>)"
  by (simp_all add: client_out_def client_in_def split: prod.splits option.splits)

lemma arrive_tunnel:
  assumes "cn_peer c = me" and "fmlookup (sn_conns (sy_serve (wh_sys w))) k = Some c" and "dg \<in> tn_up (wh_udp w k)"
    and "serve_datagram (bind :: rstring + 'sock) connect send now cfg (cn_peer c) dg (cn_table c) = (r, acts, t)"
  shows "tunnel_step me (udp_of w k) (udp_of w k\<lparr>tn_serve := t, tn_log := tn_log (udp_of w k) @ service_got acts\<rparr>)"
  by (rule tunnel_step.Arrive) (use assms in \<open>simp_all add: udp_of_def table_at_def\<close>)

lemma whole_step_tunnel:
  assumes "whole_step w w'" and "whole_ok w" and "k \<in> set (sy_used (wh_sys w))" and "k \<notin> set (wh_respawned w')"
  shows "udp_of w' k = udp_of w k \<or> tunnel_step (sy_me (wh_sys w)) (udp_of w k) (udp_of w' k)"
  using assms(1)
proof (cases rule: whole_step.cases)
  case (Control s')
  then have "wh_udp w' k = wh_udp w k" using assms(4) by (auto simp: control_def split: option.splits)
  with Control table_link [OF Control(2) whole_okD(1) [OF assms(2)], of k] show ?thesis by (simp add: udp_of_def)
next
  case (Serves acts n)
  from quiet_tunnel [of _ "udp_of w k"] table_serves [OF whole_okD(1) [OF assms(2)] Serves(2-4) assms(3)]
  show ?thesis by (simp add: udp_of_def Serves(1))
next
  case (Out l m j now src x)
  then show ?thesis by (cases "j = k") (simp_all add: udp_of_def wire_serve tunnel_step.Out)
next
  case (Back j dg now)
  then show ?thesis by (cases "j = k") (simp_all add: udp_of_def wire_serve tunnel_step.Back)
next
  case (Reap j now)
  have "udp_of w' k = udp_of w k\<lparr>tn_conn := conn_reap now (tn_conn (udp_of w k))\<rparr>" if "k = j"
    by (simp add: udp_of_def Reap(1) that)
  moreover have "udp_of w' k = udp_of w k" if "k \<noteq> j" using that by (simp add: udp_of_def Reap(1))
  ultimately show ?thesis using tunnel_step.ConnReap by metis
next
  case (Arrive dg j c bind connect send now r acts t)
  have "cn_peer c = sy_me (wh_sys w)" if "k = j"
    using whole_okD(1) [OF assms(2)] assms(3) Arrive(3) that by (simp add: sys_inv_def server_ok_def)
  then have "tunnel_step (sy_me (wh_sys w)) (udp_of w k)
      (udp_of w k\<lparr>tn_serve := t, tn_log := tn_log (udp_of w k) @ service_got acts\<rparr>)" if "k = j"
    using arrive_tunnel [OF _ Arrive(3,2,7)] that by simp
  moreover have "udp_of w' k = udp_of w k\<lparr>tn_serve := t, tn_log := tn_log (udp_of w k) @ service_got acts\<rparr>" if "k = j"
    by (simp add: Arrive(1) that udp_of_def table_at_def)
  moreover have "udp_of w' k = udp_of w k" if "k \<noteq> j" using that by (simp add: Arrive(1) udp_of_def table_at_def)
  ultimately show ?thesis by metis
next
  case (Reply j c now i recv out t)
  have "udp_of w' k = reply_in now i recv (udp_of w k)" if "k = j"
    using Reply(3,5) by (simp add: Reply(1) that udp_of_def table_at_def reply_in_def)
  moreover have "udp_of w' k = udp_of w k" if "k \<noteq> j" using that by (simp add: Reply(1) udp_of_def table_at_def)
  ultimately show ?thesis using tunnel_step.Reply by metis
qed

lemma connection_run:
  "whole_run w0 n w \<Longrightarrow> w0 = whole_start os me peer ss cs \<Longrightarrow> config_wf (sh_cfg cs) \<Longrightarrow> live_of cs = fmempty \<Longrightarrow>
     k \<in> set (sy_used (wh_sys w)) \<Longrightarrow> k \<notin> set (wh_respawned w) \<Longrightarrow> \<exists>m \<le> n. tunnel_run me m (udp_of w k)"
proof (induction arbitrary: k rule: whole_run.induct)
  case start
  then show ?case by (simp add: whole_start_def sys_start_def)
next
  case (more n w w')
  have "whole_ok w0" unfolding more.prems(1) by (rule whole_ok_start [OF more.prems(2,3)])
  from whole_run_ok [OF more.hyps(1) this] have ok: "whole_ok w" .
  have me: "sy_me (wh_sys w) = me"
    using sys_run_me [OF whole_run_sys [OF more.hyps(1)]] more.prems(1) by (simp add: whole_start_def sys_start_def)
  show ?case
  proof (cases "k \<in> set (sy_used (wh_sys w))")
    case True
    have "set (wh_respawned w) \<subseteq> set (wh_respawned w')"
      using more.hyps(2) by (cases rule: whole_step.cases) (auto simp: control_def split: option.splits)
    with more True obtain m where m: "m \<le> n" "tunnel_run me m (udp_of w k)" by blast
    from whole_step_tunnel [OF more.hyps(2) ok True more.prems(5)] m tunnel_run.more [OF m(2)] show ?thesis
      unfolding me by (metis Suc_le_mono le_SucI)
  next
    case False
    from more.hyps(2) have "udp_of w' k = tunnel_start"
    proof (cases rule: whole_step.cases)
      case (Control s')
      with False more.prems(4) table_link [OF Control(2) whole_okD(1) [OF ok], of k]
      have "table_at k (wh_sys w') = fmempty" by simp
      moreover have "wh_udp w' k = tunnel_start"
        using Control(1) False more.prems(5) whole_okD(2) [OF ok] by (auto simp: control_def split: option.splits)
      ultimately show ?thesis by (simp add: udp_of_def tunnel_start_def)
    qed (use False more.prems(4) in simp_all)
    then show ?thesis using tunnel_run.start by (metis zero_le)
  qed
qed

section \<open>End to end\<close>

text \<open>
  C25: the detailed system refines the tunnel. In every state of the two running processes, each
  connection of the reaching process whose forwarders were not started again while it was held has
  gone through a run of \<open>Tunnel\<close>, with no more steps than the system: its session tables, its
  datagrams and its packets are those of that run, whatever else the two machines and the other
  peers did in between.
\<close>
theorem connection_is_tunnel:
  assumes "config_wf (sh_cfg cs)" and "live_of cs = fmempty" and "whole_run (whole_start os me peer ss cs) n w"
    and "k \<in> set (sy_used (wh_sys w))" and "k \<notin> set (wh_respawned w)"
  shows "\<exists>m \<le> n. tunnel_run me m (udp_of w k)"
  by (rule connection_run [OF assms(3) refl assms(1,2,4,5)])

lemma whole_start_ok:
  assumes "config_wf (sh_cfg cs)" and "live_of cs = fmempty" and "whole_run (whole_start os me peer ss cs) n w"
  shows "whole_ok w" and "sy_me (wh_sys w) = me"
  using whole_run_ok [OF assms(3) whole_ok_start [OF assms(1,2)]]
    sys_run_me [OF whole_run_sys [OF assms(3)]] by (simp_all add: whole_start_def sys_start_def)

text \<open>Which step makes a packet arrive.\<close>

lemma got_event:
  assumes "whole_step w w'" and "ServiceGot sock x \<in> set (drop (length (tn_log (wh_udp w k))) (tn_log (wh_udp w' k)))"
  obtains dg c bind connect send now r acts t
  where "dg \<in> tn_up (wh_udp w k)" "fmlookup (sn_conns (sy_serve (wh_sys w))) k = Some c"
    "serve_datagram (bind :: rstring + 'sock) connect send now (cfg_now (sy_serve (wh_sys w))) (cn_peer c) dg
       (cn_table c) = (r, acts, t)" "UdpSend sock x \<in> set acts" "table_at k (wh_sys w') = t"
  using assms(1)
proof (cases rule: whole_step.cases)
  case (Arrive dg j c bind connect send now r acts t)
  then have jk: "j = k" using assms(2) by (auto split: if_splits)
  have "UdpSend sock x \<in> set acts" "table_at k (wh_sys w') = t"
    using assms(2) by (simp_all add: Arrive(1) jk service_got_mem table_at_def)
  with that [OF Arrive(2,3,7) [unfolded jk]] show ?thesis by blast
next
  case (Control s')
  then show ?thesis using assms(2) by (auto simp: control_def respawn_def split: option.splits if_splits)
qed (use assms(2) in \<open>auto simp: client_out_def client_in_def reply_in_def split: prod.splits option.splits sum.splits if_splits\<close>)

lemma client_event:
  assumes "whole_step w w'" and "ClientGot l src x \<in> set (drop (length (tn_log (wh_udp w k))) (tn_log (wh_udp w' k)))"
  obtains dg now t
  where "PumpIn \<in> set (d_tasks (sy_dial (wh_sys w)))" "link_name (sy_link (wh_sys w)) = Some k"
    "dg \<in> tn_down (wh_udp w k)" "udp_in now dg (tn_conn (wh_udp w k)) = (Some (l, src, x), t)"
proof -
  from assms(1) show ?thesis
  proof (cases rule: whole_step.cases)
    case (Back j dg now)
    then have "j = k" using assms(2) by (auto split: if_splits)
    with Back assms(2) show ?thesis
      by (cases "udp_in now dg (tn_conn (wh_udp w k))")
        (auto simp: client_in_def intro: that split: option.splits)
  next
    case (Control s')
    then show ?thesis using assms(2) by (auto simp: control_def respawn_def split: option.splits if_splits)
  qed (use assms(2) in \<open>auto simp: got_not_sent client_out_def reply_in_def split: prod.splits option.splits sum.splits if_splits\<close>)
qed

text \<open>A datagram that arrives meets a session of the port it names.\<close>

lemma arrives_on_port:
  assumes "config_wf (sh_cfg cs)" and "live_of cs = fmempty" and "whole_run (whole_start os me peer ss cs) n w"
    and "n < 2 ^ 32" and "k \<in> set (sy_used (wh_sys w))" and "k \<notin> set (wh_respawned w)"
    and "fmlookup (sn_conns (sy_serve (wh_sys w))) k = Some c" and "encode_datagram i p x \<in> tn_up (wh_udp w k)"
    and "serve_datagram bind connect send now cfg peer' (encode_datagram i p x) (cn_table c) = (r, acts, t)"
    and "fmlookup t i = Some ses"
  shows "ss_port ses = p"
proof -
  from connection_run [OF assms(3) refl assms(1,2,5,6)] obtain m where m: "m \<le> n" "tunnel_run me m (udp_of w k)"
    by blast
  with assms(4) obtain own where own: "owned own (udp_of w k)" using tunnel_inv by (meson le_less_trans)
  have here: "tn_serve (udp_of w k) = cn_table c" "encode_datagram i p x \<in> tn_up (udp_of w k)"
    using assms(7,8) by (simp_all add: udp_of_def table_at_def)
  from ownedD(4) [OF own here(2)] obtain a where a: "own i = Some (a, p)"
    by (metis decode_encode option.inject prod.inject)
  have "owned own ((udp_of w k)\<lparr>tn_serve := t, tn_log := tn_log (udp_of w k) @ []\<rparr>)"
    by (rule owned_arrive [OF own here(2) assms(9) [folded here(1)]])
  from ownedD(5) [OF this, of i ses] assms(10) a show ?thesis by simp
qed

text \<open>
  C5: UDP from end to end. Whatever the two processes, their panels, the network and the other peers
  do, a payload that is handed to a socket on a connection of this client is one that a local client
  sent to a port, through a binding to that port that was configured and enabled, and the
  configuration the offering side runs at that moment grants this peer that port. Unless the
  forwarders were started again under the connection, or a run of 2^32 steps has wrapped the ids, the
  socket is that of a session of exactly that port.
\<close>
theorem udp_end_to_end:
  assumes "config_wf (sh_cfg cs)" and "live_of cs = fmempty" and "whole_run (whole_start os me peer ss cs) n w"
    and "whole_step w w'"
    and "ServiceGot sock x \<in> set (drop (length (tn_log (wh_udp w k))) (tn_log (wh_udp w' k)))"
  shows "\<exists>src l p. ClientSent src p x \<in> set (tn_log (wh_udp w k)) \<and> configured (sy_ccfgs (wh_sys w)) Udp l p \<and>
           (Udp, p) \<in> rights (cfg_now (sy_serve (wh_sys w))) me \<and>
           (k \<notin> set (wh_respawned w) \<longrightarrow> n < 2 ^ 32 \<longrightarrow>
              (\<exists>i ses. fmlookup (table_at k (wh_sys w')) i = Some ses \<and> ss_sock ses = sock \<and> ss_port ses = p))"
proof -
  note ok = whole_start_ok [OF assms(1-3)]
  from assms(4,5) obtain dg c bind connect send now r acts t
    where up: "dg \<in> tn_up (wh_udp w k)" and c: "fmlookup (sn_conns (sy_serve (wh_sys w))) k = Some c"
      and dat: "serve_datagram (bind :: rstring + 'b) connect send now (cfg_now (sy_serve (wh_sys w))) (cn_peer c) dg
        (cn_table c) = (r, acts, t)" and send: "UdpSend sock x \<in> set acts" and t: "table_at k (wh_sys w') = t"
    by (rule got_event)
  have k: "k \<in> set (sy_used (wh_sys w))"
    by (rule ccontr) (use up whole_okD(2) [OF ok(1), of k] in \<open>simp add: start_tunnel_conn\<close>)
  have peer: "cn_peer c = me" using whole_okD(1) [OF ok(1)] k c ok(2) by (simp add: sys_inv_def server_ok_def)
  from whole_okD(3) [OF ok(1), of k] up obtain i src p y where
    dg: "dg = encode_datagram i p y" and sent: "ClientSent src p y \<in> set (tn_log (wh_udp w k))"
    unfolding known_traffic_def by blast
  from whole_okD(3) [OF ok(1), of k] sent obtain l where conf: "configured (sy_ccfgs (wh_sys w)) Udp l p"
    unfolding known_traffic_def by blast
  from serve_datagram_send [OF dat send] dg peer obtain ses where
    ses: "y = x" "(Udp, p) \<in> rights (cfg_now (sy_serve (wh_sys w))) me" "fmlookup t i = Some ses" "ss_sock ses = sock"
    by auto
  have "ss_port ses = p" if "k \<notin> set (wh_respawned w)" "n < 2 ^ 32"
    by (rule arrives_on_port [OF assms(1-3) that(2) k that(1) c _ _ ses(3)]) (use up dat dg in auto)
  with sent conf ses t show ?thesis by blast
qed

text \<open>
  C6: and back. A payload that is handed to a local client is one that a service sent on a session of
  the connection that is held at that moment, and it leaves by a listener that is bound at that
  moment. Unless the forwarders were started again under the connection, or a run of 2^32 steps has
  wrapped the ids, the session belongs to this client and to the port the service answered on.
\<close>
theorem udp_replies_end_to_end:
  assumes "config_wf (sh_cfg cs)" and "live_of cs = fmempty" and "whole_run (whole_start os me peer ss cs) n w"
    and "whole_step w w'"
    and "ClientGot l src x \<in> set (drop (length (tn_log (wh_udp w k))) (tn_log (wh_udp w' k)))"
  shows "link_name (sy_link (wh_sys w)) = Some k \<and>
         (\<exists>port r. fmlookup (d_bound (sy_dial (wh_sys w))) (Udp, port) = Some (SockUdp l, r)) \<and>
         (\<exists>p. ServiceSent p x \<in> set (tn_log (wh_udp w k)) \<and>
            (k \<notin> set (wh_respawned w) \<longrightarrow> n < 2 ^ 32 \<longrightarrow>
               fmlookup (by_key (tn_conn (wh_udp w k))) (src, p) \<noteq> None))"
proof -
  note ok = whole_start_ok [OF assms(1-3)]
  from assms(4,5) obtain dg now t where ev: "PumpIn \<in> set (d_tasks (sy_dial (wh_sys w)))"
    "link_name (sy_link (wh_sys w)) = Some k" "dg \<in> tn_down (wh_udp w k)"
    "udp_in now dg (tn_conn (wh_udp w k)) = (Some (l, src, x), t)"
    by (rule client_event)
  have on: "online (sy_dial (wh_sys w))" by (rule tasks_online [OF whole_okD(1) [OF ok(1)] ev(1)])
  from udp_in_out [OF ev(4)] obtain i p ses where
    dec: "decode_datagram dg = Some (i, p, x)" and ses: "fmlookup (by_id (tn_conn (wh_udp w k))) i = Some ses" "cs_sock ses = l"
    by blast
  with whole_okD(4) [OF ok(1) on ev(2)] have bound:
    "\<exists>port r. fmlookup (d_bound (sy_dial (wh_sys w))) (Udp, port) = Some (SockUdp l, r)"
    unfolding routes_bound_def by blast
  from whole_okD(3) [OF ok(1), of k] ev(3) dec have sent: "ServiceSent p x \<in> set (tn_log (wh_udp w k))"
    unfolding known_traffic_def by fastforce
  have "fmlookup (by_key (tn_conn (wh_udp w k))) (src, p) \<noteq> None" if fresh: "k \<notin> set (wh_respawned w)" and few: "n < 2 ^ 32"
  proof -
    have "k \<in> set (sy_used (wh_sys w))" by (rule link_used [OF whole_okD(1) [OF ok(1)] ev(2)])
    from connection_run [OF assms(3) refl assms(1,2) this fresh] obtain m where
      m: "m \<le> n" "tunnel_run me m (udp_of w k)" by blast
    have "dg \<in> tn_down (udp_of w k)" "udp_in now dg (tn_conn (udp_of w k)) = (Some (l, src, x), t)"
      using ev(3,4) by (simp_all add: udp_of_def)
    from replies_to_owner [OF m(2) le_less_trans [OF m(1) few] this] dec show ?thesis
      by (auto simp: udp_of_def)
  qed
  with ev(2) bound sent show ?thesis by blast
qed

section \<open>A packet gets through\<close>

lemma whole_run_trans: "whole_run w1 m w2 \<Longrightarrow> whole_run w0 n w1 \<Longrightarrow> whole_run w0 (n + m) w2"
  by (induction rule: whole_run.induct) (auto intro: whole_run.more)

text \<open>The pump of the connection subscribes, if it has not yet.\<close>

lemma pump_ready:
  assumes "fmlookup (sn_conns (sy_serve (wh_sys w))) k = Some c" and "cn_phase c \<noteq> Ended"
    and "sy_link (wh_sys w) = Linked k"
  obtains m v d where "m \<le> 1" "whole_run w m v" "wh_udp v = wh_udp w" "wh_respawned v = wh_respawned w"
    "fmlookup (sn_conns (sy_serve (wh_sys v))) k = Some d" "cn_phase d \<noteq> Ended" "cn_udp d \<noteq> []"
    "cn_peer d = cn_peer c" "cfg_now (sy_serve (wh_sys v)) = cfg_now (sy_serve (wh_sys w))"
    "sy_dial (wh_sys v) = sy_dial (wh_sys w)" "sy_link (wh_sys v) = Linked k"
    "\<And>sock. sock_in_use (sy_serve (wh_sys v)) sock \<longleftrightarrow> sock_in_use (sy_serve (wh_sys w)) sock"
proof (cases "cn_udp c = []")
  case True
  let ?n = "udp_subscribed k c (sy_serve (wh_sys w))"
  let ?v = "w\<lparr>wh_sys := serve_acted [] ?n (wh_sys w)\<rparr>"
  have n: "fmlookup (sn_conns ?n) j = (if j = k then Some (c\<lparr>cn_udp := [cfg_now (sy_serve (wh_sys w))]\<rparr>)
      else fmlookup (sn_conns (sy_serve (wh_sys w))) j)" "sn_shared ?n = sn_shared (sy_serve (wh_sys w))" for j
    by (simp_all add: udp_subscribed_def)
  have "whole_step w ?v"
    by (rule whole_step.Serves [OF serve_step.UdpSubscribe [OF assms(1,2) True]])
      (use assms(1) n in \<open>auto simp: others_only_def own_traffic_def\<close>)
  then have run: "whole_run w 1 ?v" using whole_run.more [OF whole_run.start] by fastforce
  have "session_at ?n j i sock \<longleftrightarrow> session_at (sy_serve (wh_sys w)) j i sock" for j i sock
    using assms(1) by (simp add: session_at_def n)
  then have socks: "sock_in_use ?n sock \<longleftrightarrow> sock_in_use (sy_serve (wh_sys w)) sock" for sock
    by (simp add: sock_in_use_def)
  have "sy_link (serve_acted [] ?n (wh_sys w)) = Linked k"
    using assms(3) by (simp add: serve_acted_def link_after_def)
  then show ?thesis
    using that [of 1 ?v "c\<lparr>cn_udp := [cfg_now (sy_serve (wh_sys w))]\<rparr>"] run assms(2) n socks by simp
next
  case False
  then show ?thesis using that [of 0 w c] assms by (simp add: whole_run.start)
qed

text \<open>A datagram for a granted port is delivered when the system opens and writes to sockets.\<close>

lemma serve_datagram_delivers:
  assumes "(Udp, p) \<in> rights cfg peer"
  obtains sock acts t where
    "serve_datagram (Inr free :: rstring + 'sock) (\<lambda>_ _. Inr ()) (\<lambda>_ _. Inr ()) now cfg peer (encode_datagram i p x) tab =
       (Delivered, acts, t)"
    "service_got acts = [ServiceGot sock x]" "\<exists>ses. fmlookup t i = Some ses \<and> ss_sock ses = sock"
  using that assms
  by (cases "fmlookup tab i")
    (auto simp: serve_datagram_def grant_list_iff serve_touch_def open_session_def send_local_def)

text \<open>A pump that reads a packet sends it.\<close>

lemma packet_sent:
  assumes "config_wf (sh_cfg cs)" and "live_of cs = fmempty" and "whole_run (whole_start os me peer ss cs) n w"
    and "n + 1 < 2 ^ 32" and "k \<in> set (sy_used (wh_sys w))" and "k \<notin> set (wh_respawned w)"
  obtains i where "encode_datagram i (m_remote m) x \<in> tn_up (client_out now src l m x (wh_udp w k))"
    "ClientSent src (m_remote m) x \<in> set (tn_log (client_out now src l m x (wh_udp w k)))"
proof -
  from connection_run [OF assms(3) refl assms(1,2,5,6)] obtain b where b: "b \<le> n" "tunnel_run me b (udp_of w k)"
    by blast
  with assms(4) have "b < 2 ^ 32" by simp
  from tunnel_inv [OF b(2) this] obtain own where own: "unat (next_id (tn_conn (udp_of w k))) \<le> b" "owned own (udp_of w k)"
    by blast
  have "next_id (tn_conn (wh_udp w k)) \<noteq> -1" "sess_ok (tn_conn (wh_udp w k))"
    using own(1) b(1) assms(4) ownedD(1) [OF own(2)]
    by (auto simp: unsigned_minus_1_eq_mask mask_eq_exp_minus_1 udp_of_conn)
  moreover obtain dg t where eq: "udp_out now src l m x (tn_conn (wh_udp w k)) = (dg, t)" by fastforce
  ultimately obtain i where "udp_out now src l m x (tn_conn (wh_udp w k)) = (Some (encode_datagram i (m_remote m) x), t)"
    by (metis udp_out_cases)
  then show ?thesis using that [of i] by (simp add: client_out_def)
qed


section \<open>Witnesses\<close>

text \<open>
  Peer 1 reaches the name server of \<open>dns_config\<close> through local port 5353: client 100 asks, the service
  answers on socket 70. The system here binds any port and numbers its listeners by their ports.
\<close>

definition free_os :: "Proto \<Rightarrow> u16 \<Rightarrow> rstring + nat" where
  "free_os proto port = Inr (unat port)"

definition dns_binding :: Binding where
  "dns_binding = \<lparr>b_proto = Udp, b_local = 5353, b_remote = 53, b_name = [], b_enabled = True\<rparr>"

definition dns_client :: "nat Shared" where
  "dns_client = shared_new (with_bindings default_config [dns_binding]) [lit ''config.toml''] RoleConnect 0"

definition dns_sys :: "(nat, nat, nat) System" where
  "dns_sys = sys_start free_os 1 9 dns_shared dns_client"

definition dns_open :: "(nat, nat, nat) System" where
  "dns_open = dns_sys\<lparr>sy_dial := dial_ok 4 9 [] (sy_dial dns_sys), sy_link := Arriving 0, sy_used := [0]\<rparr>"

definition dns_up :: "(nat, nat, nat) System" where
  "dns_up = dns_open\<lparr>sy_serve := put_conn 0 dns_fresh dns_base, sy_link := Linked 0\<rparr>"

definition dns_sub :: "(nat, nat, nat) System" where
  "dns_sub = serve_acted [] (udp_subscribed 0 dns_fresh (sy_serve dns_up)) dns_up"

lemma dns_client_ok: "config_wf (sh_cfg dns_client)" "live_of dns_client = fmempty"
  by (simp_all add: dns_client_def shared_new_def dns_binding_def config_wf_def offers_wf_def peers_wf_def
      bindings_wf_def binding_wf_def default_config_def)

lemma dns_loop:
  "d_peer (loop_start free_os 9 dns_client) = 9"
  "d_phase (loop_start free_os 9 dns_client) = dial_phase.Dialing"
  "sh_cfg (d_shared (loop_start free_os 9 dns_client)) = with_bindings default_config [dns_binding]"
  "d_bound (loop_start free_os 9 dns_client) = fmupd (Udp, 5353) (SockUdp 5353, 53) fmempty"
  by (simp_all add: loop_start_def dns_client_def shared_new_def active_bindings_def dns_binding_def
      default_config_def reconcile_def reconcile_one_def free_os_def sorted_list_of_fset.rep_eq)

lemma dns_udp: "udp_listeners (fmupd (Udp, 5353) (SockUdp 5353, 53) fmempty) = [(5353, binding_map dns_binding)]"
  by (simp add: udp_listeners_def hm_iter_def sorted_list_of_fset.rep_eq binding_map_def dns_binding_def
      List.map_filter_simps)

lemma dns_tasks:
  "PumpOut 5353 (binding_map dns_binding) \<in> set (d_tasks (sy_dial dns_up))" "PumpIn \<in> set (d_tasks (sy_dial dns_up))"
  by (simp_all add: dns_up_def dns_open_def dns_sys_def sys_start_def dial_ok_def dns_loop spawn_forwarders_def dns_udp)

abbreviation idle_wires :: "(nat, nat, nat) System \<Rightarrow> (nat, nat, nat, nat) Whole" where
  "idle_wires s \<equiv> \<lparr>wh_sys = s, wh_udp = (\<lambda>_. tunnel_start), wh_respawned = []\<rparr>"

lemma dns_open_step: "whole_step (idle_wires dns_sys) (idle_wires dns_open)"
proof -
  have "link_step dns_sys dns_open"
    using link_step.Opens [of dns_sys 0 4 "[]"]
    by (simp add: dns_open_def dns_sys_def sys_start_def dns_loop serve_start_def)
  from whole_step.Control [of "idle_wires dns_sys" dns_open] this show ?thesis
    by (simp add: control_def respawned_on_def dns_sys_def sys_start_def dns_loop online_def)
qed

lemma dns_up_step: "whole_step (idle_wires dns_open) (idle_wires dns_up)"
proof -
  have "link_step dns_open dns_up"
    using link_step.Admits [of dns_open 0 3 "[]" "[]" "put_conn 0 dns_fresh dns_base"] dns_accept
    by (simp add: dns_up_def dns_open_def dns_sys_def sys_start_def link_after_def)
  from whole_step.Control [of "idle_wires dns_open" dns_up] this show ?thesis
    by (simp add: control_def respawned_on_def dns_up_def)
qed

lemma dns_sub_step: "whole_step (idle_wires dns_up) (idle_wires dns_sub)"
proof -
  have "serve_step (sy_serve dns_up) [] (udp_subscribed 0 dns_fresh (sy_serve dns_up))"
    by (rule serve_step.UdpSubscribe) (simp_all add: dns_up_def dns_fresh_def dns_conn_def)
  from whole_step.Serves [of "idle_wires dns_up", OF _ _ _] this show ?thesis
    by (simp add: dns_sub_def others_only_def own_traffic_def udp_subscribed_def dns_up_def)
qed

text \<open>The question, and its arrival.\<close>

definition dns_asked :: "(nat, nat, nat, nat) Whole" where
  "dns_asked = on_wire 0 (client_out 5 100 5353 (binding_map dns_binding) [9]) (idle_wires dns_sub)"

definition dns_got :: "(nat, nat, nat, nat) Whole" where
  "dns_got = on_wire 0 (\<lambda>s. s\<lparr>tn_log := tn_log s @ [ServiceGot 70 [9]]\<rparr>)
     (table_set 0 (dns_fresh\<lparr>cn_udp := [dns_config]\<rparr>) (map (UdpAct 0) [UdpBind 70, UdpConnect 70 53, UdpSend 70 [9]])
        (fmupd 1 \<lparr>ss_sock = 70, ss_reply = True, ss_last = 6, ss_port = 53\<rparr> fmempty) dns_asked)"

definition dns_answered :: "(nat, nat, nat, nat) Whole" where
  "dns_answered = on_wire 0 (\<lambda>s. reply_in 7 1 (Inr [8]) (s\<lparr>tn_serve := fmupd 1 \<lparr>ss_sock = 70, ss_reply = True, ss_last = 6, ss_port = 53\<rparr> fmempty\<rparr>))
     (table_set 0 (dns_fresh\<lparr>cn_udp := [dns_config], cn_table := fmupd 1 \<lparr>ss_sock = 70, ss_reply = True, ss_last = 6, ss_port = 53\<rparr> fmempty\<rparr>)
        [SendBack 0 (encode_datagram 1 53 [8])]
        (fmupd 1 \<lparr>ss_sock = 70, ss_reply = True, ss_last = 7, ss_port = 53\<rparr> fmempty) dns_got)"

lemma dns_sub_conns:
  "sy_dial dns_sub = sy_dial dns_up" "link_name (sy_link dns_sub) = Some 0" "sy_used dns_sub = [0]"
  "fmlookup (sn_conns (sy_serve dns_sub)) k = (if k = 0 then Some (dns_fresh\<lparr>cn_udp := [dns_config]\<rparr>) else None)"
  "cfg_now (sy_serve dns_sub) = dns_config"
  by (simp_all add: dns_sub_def dns_up_def dns_open_def udp_subscribed_def) (simp add: dns_base_def serve_start_def)

lemma dns_run0: "whole_run (whole_start free_os 1 9 dns_shared dns_client) 3 (idle_wires dns_sub)"
proof -
  have "whole_start free_os 1 9 dns_shared dns_client = idle_wires dns_sys"
    by (simp add: whole_start_def dns_sys_def)
  with whole_run.more [OF whole_run.more [OF whole_run.more [OF whole_run.start dns_open_step] dns_up_step] dns_sub_step]
  show ?thesis by (simp add: numeral_3_eq_3)
qed

lemma dns_asked_run: "whole_run (whole_start free_os 1 9 dns_shared dns_client) 4 dns_asked"
proof -
  have "whole_step (idle_wires dns_sub) dns_asked"
    unfolding dns_asked_def by (rule whole_step.Out) (simp_all add: dns_sub_conns dns_tasks)
  from whole_run.more [OF dns_run0 this] show ?thesis by simp
qed

lemma dns_asked_wire: "encode_datagram 1 53 [9] \<in> tn_up (wh_udp dns_asked 0)"
  by (simp add: dns_asked_def client_out_def udp_out_def id_for_def tunnel_start_def no_sessions_def
      binding_map_def dns_binding_def)

lemma dns_got_step: "whole_step dns_asked dns_got"
proof -
  have sys: "wh_sys dns_asked = dns_sub" by (simp add: dns_asked_def)
  have "serve_datagram (Inr 70) (\<lambda>_ _. Inr ()) (\<lambda>_ _. Inr ()) 6 (cfg_now (sy_serve (wh_sys dns_asked)))
      (cn_peer (dns_fresh\<lparr>cn_udp := [dns_config]\<rparr>)) (encode_datagram 1 53 [9]) (cn_table (dns_fresh\<lparr>cn_udp := [dns_config]\<rparr>)) =
     (Delivered, [UdpBind 70, UdpConnect 70 53, UdpSend 70 [9]],
      fmupd 1 \<lparr>ss_sock = 70, ss_reply = True, ss_last = 6, ss_port = 53\<rparr> fmempty)"
    by (simp add: sys dns_sub_conns dns_fresh_def dns_conn_def serve_datagram_def grant_list_iff dns_config_rights
        serve_touch_def open_session_def send_local_def)
  from whole_step.Arrive [OF dns_asked_wire _ _ _ _ this] show ?thesis
    by (simp add: sys dns_sub_conns dns_got_def sock_in_use_def session_at_def)
      (simp add: dns_fresh_def dns_conn_def)
qed

lemma dns_answered_run: "whole_run (whole_start free_os 1 9 dns_shared dns_client) 6 dns_answered"
proof -
  from whole_run.more [OF dns_asked_run dns_got_step]
  have run: "whole_run (whole_start free_os 1 9 dns_shared dns_client) 5 dns_got" by simp
  have sys: "sy_used (wh_sys dns_got) = [0]"
    "fmlookup (sn_conns (sy_serve (wh_sys dns_got))) 0 =
      Some (dns_fresh\<lparr>cn_udp := [dns_config], cn_table := fmupd 1 \<lparr>ss_sock = 70, ss_reply = True, ss_last = 6, ss_port = 53\<rparr> fmempty\<rparr>)"
    by (simp_all add: dns_got_def dns_asked_def dns_sub_conns)
  have "whole_step dns_got dns_answered"
    using whole_step.Reply [of 0 dns_got, OF _ sys(2), of 7 1 "Inr [8]" "Some (encode_datagram 1 53 [8])"]
    by (simp add: sys(1) dns_answered_def serve_reply_def serve_touch_def) (simp add: dns_fresh_def dns_conn_def)
  from whole_run.more [OF run this] show ?thesis by simp
qed

theorem connection_is_tunnel_witness: "\<exists>m \<le> 6. tunnel_run (1 :: nat) m (udp_of dns_answered 0)"
  by (rule connection_is_tunnel [OF dns_client_ok dns_answered_run])
    (simp_all add: dns_answered_def dns_got_def dns_asked_def dns_sub_conns)

theorem udp_end_to_end_witness:
  "(\<exists>l. configured (sy_ccfgs dns_sub) Udp l 53) \<and> (Udp, 53) \<in> rights dns_config 1 \<and>
   fmlookup (table_at 0 (wh_sys dns_got)) 1 = Some \<lparr>ss_sock = 70, ss_reply = True, ss_last = 6, ss_port = 53\<rparr>"
proof -
  have log: "tn_log (wh_udp dns_asked 0) = [ClientSent 100 53 [9]]"
    by (simp add: dns_asked_def client_out_def tunnel_start_def binding_map_def dns_binding_def split: prod.splits)
  have "ServiceGot 70 [9] \<in> set (drop (length (tn_log (wh_udp dns_asked 0))) (tn_log (wh_udp dns_got 0)))"
    by (simp add: dns_got_def)
  from udp_end_to_end [OF dns_client_ok dns_asked_run dns_got_step this] obtain l where
    "configured (sy_ccfgs (wh_sys dns_asked)) Udp l 53" "(Udp, 53) \<in> rights (cfg_now (sy_serve (wh_sys dns_asked))) 1"
    by (auto simp: log)
  then show ?thesis by (auto simp: dns_got_def dns_asked_def dns_sub_conns table_at_def)
qed

theorem udp_replies_end_to_end_witness:
  "(\<exists>port r. fmlookup (d_bound (sy_dial dns_sub)) (Udp, port) = Some (SockUdp 5353, r)) \<and>
   (\<exists>p. fmlookup (by_key (tn_conn (wh_udp dns_answered 0))) (100, p) \<noteq> None)"
proof -
  let ?w = "on_wire 0 (client_in 8 (encode_datagram 1 53 [8])) dns_answered"
  have sys: "sy_dial (wh_sys dns_answered) = sy_dial dns_sub"
    "link_name (sy_link (wh_sys dns_answered)) = Some 0" "wh_respawned dns_answered = []"
    by (simp_all add: dns_answered_def dns_got_def dns_asked_def dns_sub_conns)
  have down: "encode_datagram 1 53 [8] \<in> tn_down (wh_udp dns_answered 0)"
    by (simp add: dns_answered_def reply_in_def serve_reply_def)
  have step: "whole_step dns_answered ?w"
    by (rule whole_step.Back [OF _ sys(2) down]) (simp add: sys dns_sub_conns dns_tasks)
  have conn: "tn_conn (wh_udp dns_answered 0) = tn_conn (wh_udp dns_asked 0)"
    by (simp add: dns_answered_def dns_got_def)
  have "udp_in 8 (encode_datagram 1 53 [8]) (tn_conn (wh_udp dns_answered 0)) =
      (Some (5353, 100, [8]), snd (udp_in 8 (encode_datagram 1 53 [8]) (tn_conn (wh_udp dns_answered 0))))"
    by (simp add: conn udp_in_def reply_route_def dns_asked_def client_out_def udp_out_def id_for_def tunnel_start_def
        no_sessions_def)
  then obtain t where "udp_in 8 (encode_datagram 1 53 [8]) (tn_conn (wh_udp dns_answered 0)) = (Some (5353, 100, [8]), t)"
    by blast
  then have "ClientGot 5353 100 [8] \<in> set (drop (length (tn_log (wh_udp dns_answered 0))) (tn_log (wh_udp ?w 0)))"
    by (simp add: client_in_def)
  from udp_replies_end_to_end [OF dns_client_ok dns_answered_run step this] show ?thesis
    by (auto simp: sys)
qed


end
