(* ===== verification/Accept_Loops.thy ===== *)
theory Accept_Loops
  imports Tcp_Path Hosted
begin

text \<open>
  The loops that accept: the stream acceptor of a connection (\<open>serve_conn\<close> of \<open>serve.rs\<close>) and the
  connection acceptor of the panel (\<open>serve\<close> of \<open>admin.rs\<close>), beside \<open>accept_tcp\<close> of \<open>Tcp_Path\<close>. What each
  hands to a task of its own is run by the step relations: \<open>serve_step\<close>, \<open>hosted_step\<close>.
\<close>

section \<open>The loops\<close>

text \<open>The streams handed to \<open>serve_stream\<close>, and the error that ended the loop, if it has ended.\<close>

fun accept_streams :: "('e + 's) list \<Rightarrow> 's list \<times> 'e option" where
  "accept_streams [] = ([], None)"
| "accept_streams (Inl e # rs) = ([], Some e)"
| "accept_streams (Inr s # rs) = (case accept_streams rs of (tasks, stop) \<Rightarrow> (s # tasks, stop))"

text \<open>The connections handed to \<open>serve_connection\<close>; an error is logged and the loop goes on.\<close>

fun accept_panel :: "('e + 'c) list \<Rightarrow> 'c list" where
  "accept_panel [] = []"
| "accept_panel (Inl e # rs) = accept_panel rs"
| "accept_panel (Inr c # rs) = c # accept_panel rs"

lemma accept_streams_spec:
  "accept_streams rs =
     (map projr (takeWhile is_ok rs), map_option projl (List.find (\<lambda>r. \<not> is_ok r) rs))"
  by (induction rs rule: accept_streams.induct) auto

lemma accept_panel_spec: "accept_panel rs = map projr (filter is_ok rs)"
  by (induction rs rule: accept_panel.induct) auto

text \<open>
  An error of \<open>accept\<close> ends the stream acceptor and the accept loop of a listener, and with them
  everything that arrives later; the panel serves all the same.
\<close>

lemma accept_error:
  "fst (accept_streams (rs @ Inl e # rs')) = fst (accept_streams rs)"
  "snd (accept_streams (rs @ Inl e # rs')) \<noteq> None"
  "accept_tcp m (rs @ Inl e # rs') = (fst (accept_tcp m rs), False)"
  "accept_panel (rs @ Inl e # rs') = accept_panel rs @ accept_panel rs'"
  by (induction rs rule: accept_panel.induct) (auto simp: split_beta)

section \<open>The panel as a whole\<close>

text \<open>
  The requests of the accepted connections in the order their tasks come to handle them. Every
  request is a step of the process, so a panel that has served any number of connections leaves a
  valid configuration running, and it is the one on disk.
\<close>

fun panel_handles ::
  "Admin \<Rightarrow> (('id::linorder, 'h) AdminEnv \<times> 'h Request) list \<Rightarrow> 'id Shared \<times> fs \<Rightarrow> 'id Shared \<times> fs" where
  "panel_handles a [] st = st"
| "panel_handles a ((env, req) # reqs) st = panel_handles a reqs (snd (route env a req st))"

lemma panel_keeps_agreement:
  assumes "agrees from_toml st" and "\<And>c t. to_toml c = Inr t \<Longrightarrow> from_toml (CONFIG_HEADER @ t) = Inr c"
    and "\<forall>(env, req) \<in> set reqs. ae_to_toml env = to_toml"
  shows "agrees from_toml (panel_handles a reqs st)"
  using assms(1,3)
proof (induction a reqs st rule: panel_handles.induct)
  case (1 a st)
  then show ?case by simp
next
  case (2 a env req reqs st)
  obtain s files where st: "st = (s, files)" by (cases st)
  obtain resp s' files' where route: "route env a req (s, files) = (resp, s', files')" by (metis prod_cases3)
  have "agrees from_toml (s', files')"
    using route
  proof (cases rule: route_is_commit)
    case (accepted f)
    then show ?thesis using commit_agrees [OF accepted(3)] assms(2) 2(3) by auto
  next
    case refused
    then show ?thesis using agrees_cong [of from_toml s files s' files'] 2(2) st by auto
  qed
  then have "agrees from_toml (snd (route env a req st))" by (simp add: route st)
  then show ?case using 2 by simp
qed

end
