(* ===== verification/Secrets.thy ===== *)
theory Secrets
  imports Cli
begin

text \<open>
  The two secrets on a Unix file system, with the permission bits that \<open>Persist\<close> and \<open>Cli\<close> leave
  out: \<open>write_key\<close> of \<open>src/main.rs\<close>, \<open>write_secret\<close> of \<open>src/config.rs\<close> and their callers, as system
  calls on files that carry a mode. A mode has the nine permission bits; the process has a file mode
  creation mask. Which call fails is decided by an argument, as in \<open>Persist\<close>.
\<close>

unbundle bit_operations_syntax

section \<open>Files with modes\<close>

type_synonym mode = u32

record ufs =
  uf_files :: "(path, mode \<times> rstring) fmap"
  uf_dirs :: "(path, mode) fmap"

text \<open>
  \<open>OpenFile excl p m\<close> is \<open>OpenOptions\<close> with \<open>write\<close>, \<open>mode(m)\<close> and either \<open>create_new\<close>
  (\<open>excl\<close>) or \<open>create\<close> and \<open>truncate\<close>: the mode is used only when the file is made.
\<close>

datatype sys_call =
    MkDirs path
  | OpenFile bool path mode
  | WriteAll path rstring
  | Chmod path mode

fun call_refused :: "sys_call \<Rightarrow> ufs \<Rightarrow> bool" where
  "call_refused (OpenFile excl p m) f \<longleftrightarrow> excl \<and> fmlookup (uf_files f) p \<noteq> None"
| "call_refused _ f \<longleftrightarrow> False"

definition put_data :: "path \<Rightarrow> rstring \<Rightarrow> ufs \<Rightarrow> ufs" where
  "put_data p s f =
     (case fmlookup (uf_files f) p of
        None \<Rightarrow> f
      | Some (m, _) \<Rightarrow> f\<lparr>uf_files := fmupd p (m, s) (uf_files f)\<rparr>)"

fun call_apply :: "mode \<Rightarrow> sys_call \<Rightarrow> ufs \<Rightarrow> ufs" where
  "call_apply um (MkDirs d) f =
     (if fmlookup (uf_dirs f) d = None then f\<lparr>uf_dirs := fmupd d (511 AND NOT um) (uf_dirs f)\<rparr> else f)"
| "call_apply um (OpenFile excl p m) f =
     (case fmlookup (uf_files f) p of
        None \<Rightarrow> f\<lparr>uf_files := fmupd p (m AND NOT um, []) (uf_files f)\<rparr>
      | Some (m', _) \<Rightarrow> f\<lparr>uf_files := fmupd p (m', []) (uf_files f)\<rparr>)"
| "call_apply um (WriteAll p s) f = put_data p s f"
| "call_apply um (Chmod d m) f = f\<lparr>uf_dirs := fmupd d m (uf_dirs f)\<rparr>"

text \<open>A write that stops in the middle has written a part; the other calls do nothing.\<close>

fun call_partial :: "sys_call \<Rightarrow> nat option \<Rightarrow> ufs \<Rightarrow> ufs" where
  "call_partial (WriteAll p s) n f = put_data p (case n of None \<Rightarrow> [] | Some n \<Rightarrow> take n s) f"
| "call_partial c n f = f"

type_synonym uos = "sys_call \<Rightarrow> (rstring \<times> nat option) option"

definition sys_exec :: "mode \<Rightarrow> uos \<Rightarrow> sys_call \<Rightarrow> ufs \<Rightarrow> (rstring + unit) \<times> ufs" where
  "sys_exec um os c f =
     (if call_refused c f then (Inl (lit ''file exists''), f)
      else (case os c of
              Some (e, n) \<Rightarrow> (Inl e, call_partial c n f)
            | None \<Rightarrow> (Inr (), call_apply um c f)))"

text \<open>Every state that can be observed while a list of calls runs, or be left by a failure or a crash.\<close>

fun instants :: "mode \<Rightarrow> sys_call list \<Rightarrow> ufs \<Rightarrow> ufs set" where
  "instants um [] f = {f}"
| "instants um (c # cs) f =
     {f} \<union> range (\<lambda>n. call_partial c n f) \<union> (if call_refused c f then {} else instants um cs (call_apply um c f))"

section \<open>The code\<close>

text \<open>384 is \<open>0o600\<close> and 448 is \<open>0o700\<close>. The result of the last call of \<open>write_key\<close> is ignored.\<close>

definition write_secret_unix ::
  "mode \<Rightarrow> uos \<Rightarrow> path \<Rightarrow> rstring \<Rightarrow> ufs \<Rightarrow> ('id error + unit) \<times> ufs" where
  "write_secret_unix um os path s f =
     (case sys_exec um os (OpenFile False path 384) f of
        (Inl e, f1) \<Rightarrow> (Inl (Context (CtxCreating path) (Os e)), f1)
      | (Inr _, f1) \<Rightarrow>
          (case sys_exec um os (WriteAll path s) f1 of
             (Inl e, f2) \<Rightarrow> (Inl (Os e), f2)
           | (Inr _, f2) \<Rightarrow> (Inr (), f2)))"

definition write_key_unix ::
  "mode \<Rightarrow> uos \<Rightarrow> path \<Rightarrow> rstring \<Rightarrow> ufs \<Rightarrow> ('id error + unit) \<times> ufs" where
  "write_key_unix um os path key f =
     (case sys_exec um os (OpenFile True path 384) f of
        (Inl e, f1) \<Rightarrow> (Inl (Context (CtxCreating path) (Os e)), f1)
      | (Inr _, f1) \<Rightarrow>
          (case sys_exec um os (WriteAll path key) f1 of
             (Inl e, f2) \<Rightarrow> (Inl (Os e), f2)
           | (Inr _, f2) \<Rightarrow> (Inr (), snd (sys_exec um os (Chmod (butlast path) 448) f2))))"

definition contents :: "ufs \<Rightarrow> fs" where
  "contents f = fmmap snd (uf_files f)"

definition load_or_create_token_unix ::
  "mode \<Rightarrow> uos \<Rightarrow> (path \<Rightarrow> bool) \<Rightarrow> u8 list \<Rightarrow> path \<Rightarrow> ufs \<Rightarrow> ('id error + rstring) \<times> ufs" where
  "load_or_create_token_unix um os read_fails bytes dir f =
     (case stored_token read_fails dir (contents f) of
        Some t \<Rightarrow> (Inr t, f)
      | None \<Rightarrow>
          (case sys_exec um os (MkDirs dir) f of
             (Inl e, f1) \<Rightarrow> (Inl (Context (CtxCreating dir) (Os e)), f1)
           | (Inr _, f1) \<Rightarrow>
               (case write_secret_unix um os (token_path dir) (mint_token bytes) f1 of
                  (Inl e, f2) \<Rightarrow> (Inl e, f2)
                | (Inr _, f2) \<Rightarrow> (Inr (mint_token bytes), f2))))"

definition load_or_create_key_unix ::
  "mode \<Rightarrow> uos \<Rightarrow> (path \<Rightarrow> rstring option) \<Rightarrow> rstring \<Rightarrow> path \<Rightarrow> ufs \<Rightarrow> ('id error + rstring) \<times> ufs" where
  "load_or_create_key_unix um os read_fails fresh dir f =
     (case read_fails (key_path dir) of
        Some e \<Rightarrow> (Inl (Context (CtxReading (key_path dir)) (Os e)), f)
      | None \<Rightarrow>
          (case fmlookup (uf_files f) (key_path dir) of
             Some (_, bytes) \<Rightarrow>
               if length bytes = 32 then (Inr bytes, f) else (Inl (BadKey (key_path dir)), f)
           | None \<Rightarrow>
               (case sys_exec um os (MkDirs dir) f of
                  (Inl e, f1) \<Rightarrow> (Inl (Context (CtxCreating dir) (Os e)), f1)
                | (Inr _, f1) \<Rightarrow>
                    (case write_key_unix um os (key_path dir) fresh f1 of
                       (Inl e, f2) \<Rightarrow> (Inl e, f2)
                     | (Inr _, f2) \<Rightarrow> (Inr fresh, f2)))))"

section \<open>Without the modes it is the file system of \<open>Persist\<close>\<close>

text \<open>The outcome of a write as \<open>Persist\<close> sees it, from the outcomes of the two calls.\<close>

fun plain_os :: "bool \<Rightarrow> uos \<Rightarrow> os" where
  "plain_os excl os (CreateDirAll d) = map_option (\<lambda>(e, n). (e, None)) (os (MkDirs d))"
| "plain_os excl os (WriteFile p s) =
     (case os (OpenFile excl p 384) of
        Some (e, _) \<Rightarrow> Some (e, None)
      | None \<Rightarrow> map_option (\<lambda>(e, n). (e, Some (case n of None \<Rightarrow> 0 | Some n \<Rightarrow> n))) (os (WriteAll p s)))"
| "plain_os excl os (RenameFile p q) = None"

lemma contents_lookup [simp]: "fmlookup (contents f) p = map_option snd (fmlookup (uf_files f) p)"
  by (simp add: contents_def)

lemma contents_simps [simp]:
  "contents (f\<lparr>uf_files := fmupd p (m, s) (uf_files f)\<rparr>) = fmupd p s (contents f)"
  "contents (f\<lparr>uf_dirs := d\<rparr>) = contents f"
  by (auto simp: contents_def intro: fmap_ext)

lemma plain_dirs:
  "map_prod (map_err (\<lambda>e. Context (CtxCreating d) (Os e))) contents (sys_exec um os (MkDirs d) f) =
     fs_exec (plain_os excl os) [CreateDirAll d] (contents f)"
  by (auto simp: sys_exec_def split: option.splits)

lemma plain_secret:
  "map_prod id contents (write_secret_unix um os path s f) = write_secret (plain_os False os) path s (contents f)"
  by (auto simp: write_secret_unix_def write_secret_def sys_exec_def put_data_def split: option.splits)

lemma plain_key:
  "map_prod id contents (write_key_unix um os path key f) = write_key False (plain_os True os) path key (contents f)"
  by (auto simp: write_key_unix_def write_key_def write_secret_def sys_exec_def put_data_def split: option.splits)

text \<open>
  Forgetting the modes is a refinement: on a Unix build the two functions that make the secrets
  return what the model without modes says and leave the contents it says, whatever fails and
  whatever the files, their modes and the creation mask are.
\<close>
theorem secrets_refine_files:
  "map_prod id contents (load_or_create_key_unix um os rf fresh dir f :: ('id error + rstring) \<times> ufs) =
     load_or_create_key False (plain_os True os) rf fresh dir (contents f) \<and>
   map_prod id contents (load_or_create_token_unix um os rb bytes dir f :: ('id error + rstring) \<times> ufs) =
     load_or_create_token (plain_os False os) rb bytes dir (contents f)"
proof
  let ?mk = "sys_exec um os (MkDirs dir) f"
  have dirs: "fs_exec (plain_os excl os) [CreateDirAll dir] (contents f) =
      (map_err (\<lambda>e. Context (CtxCreating dir) (Os e) :: 'id error) (fst ?mk), contents (snd ?mk))" for excl
    by (subst plain_dirs [of dir um os f excl, symmetric]) (simp add: map_prod_def split: prod.splits)
  have key: "write_key False (plain_os True os) (key_path dir) fresh (contents (snd ?mk)) =
      map_prod id contents (write_key_unix um os (key_path dir) fresh (snd ?mk) :: ('id error + unit) \<times> ufs)"
    by (rule plain_key [symmetric])
  have token: "write_secret (plain_os False os) (token_path dir) (mint_token bytes) (contents (snd ?mk)) =
      map_prod id contents (write_secret_unix um os (token_path dir) (mint_token bytes) (snd ?mk) :: ('id error + unit) \<times> ufs)"
    by (rule plain_secret [symmetric])
  have same: "contents (snd ?mk) = contents f" by (simp add: sys_exec_def split: option.splits prod.splits)
  show "map_prod id contents (load_or_create_key_unix um os rf fresh dir f :: ('id error + rstring) \<times> ufs) =
     load_or_create_key False (plain_os True os) rf fresh dir (contents f)"
    using key by (cases ?mk)
      (auto simp: load_or_create_key_unix_def load_or_create_key_def dirs same
        simp del: fs_exec.simps split: option.splits sum.splits prod.splits)
  show "map_prod id contents (load_or_create_token_unix um os rb bytes dir f :: ('id error + rstring) \<times> ufs) =
     load_or_create_token (plain_os False os) rb bytes dir (contents f)"
    using token by (cases ?mk)
      (auto simp: load_or_create_token_unix_def load_or_create_token_def dirs same
        simp del: fs_exec.simps split: option.splits sum.splits prod.splits)
qed

section \<open>Who can read the secrets\<close>

text \<open>63 is \<open>0o077\<close>: no bit for the group or for others.\<close>

definition owner_only :: "mode \<Rightarrow> bool" where
  "owner_only m \<longleftrightarrow> m AND 63 = 0"

lemma owner_only_masked: "owner_only (384 AND NOT um)"
proof -
  have "(384 AND NOT um) AND 63 = NOT um AND ((384 :: u32) AND 63)"
    by (simp only: and.assoc and.commute and.left_commute)
  then show ?thesis by (simp add: owner_only_def)
qed

text \<open>Nobody but the owner can read the file while the calls run, if that holds at the start.\<close>

definition shut :: "path \<Rightarrow> ufs \<Rightarrow> bool" where
  "shut p f \<longleftrightarrow> (\<forall>m s. fmlookup (uf_files f) p = Some (m, s) \<longrightarrow> owner_only m)"

fun opens_shut :: "sys_call \<Rightarrow> bool" where
  "opens_shut (OpenFile excl p m) \<longleftrightarrow> m = 384"
| "opens_shut _ \<longleftrightarrow> True"

lemma shut_put: "shut p f \<Longrightarrow> shut p (put_data q s f)"
  by (auto simp: shut_def put_data_def split: option.splits if_splits)

lemma shut_call:
  assumes "shut p f" and "opens_shut c"
  shows "shut p (call_apply um c f)" and "shut p (call_partial c n f)"
proof -
  show "shut p (call_apply um c f)"
  proof (cases c)
    case (OpenFile excl q m)
    then have "m = 384" using assms(2) by simp
    then show ?thesis
      using assms(1) owner_only_masked [of um] unfolding OpenFile shut_def
      by (cases "fmlookup (uf_files f) q") (auto split: if_splits)
  qed (use assms(1) in \<open>simp_all add: shut_put\<close>, simp_all add: shut_def)
  show "shut p (call_partial c n f)" using assms(1) by (cases c) (simp_all add: shut_put)
qed

lemma shut_instants:
  "shut p f \<Longrightarrow> \<forall>c \<in> set cs. opens_shut c \<Longrightarrow> g \<in> instants um cs f \<Longrightarrow> shut p g"
proof (induction cs arbitrary: f)
  case (Cons c cs)
  then have "shut p (call_apply um c f)" "shut p (call_partial c n f)" for n using shut_call by auto
  with Cons show ?case by (auto split: if_splits)
qed simp

lemma instants_start: "f \<in> instants um cs f"
  by (cases cs) auto

lemma instants_more: "g \<in> instants um cs (call_apply um c f) \<Longrightarrow> \<not> call_refused c f \<Longrightarrow> g \<in> instants um (c # cs) f"
  by simp

text \<open>A call fails and leaves one of the states, or the rest goes on from its result.\<close>

lemma exec_cases:
  obtains (fails) e g where "sys_exec um os c f = (Inl e, g)" "\<And>cs. g \<in> instants um (c # cs) f"
  | (goes) "sys_exec um os c f = (Inr (), call_apply um c f)" "\<not> call_refused c f"
  by (cases "call_refused c f"; cases "os c") (auto simp: sys_exec_def)

text \<open>What \<open>load_or_create_key\<close> does when there is no key.\<close>

definition key_calls :: "path \<Rightarrow> rstring \<Rightarrow> sys_call list" where
  "key_calls dir key =
     [MkDirs dir, OpenFile True (key_path dir) 384, WriteAll (key_path dir) key, Chmod dir 448]"

lemma write_key_instants:
  "snd (write_key_unix um os path key f) \<in>
     instants um [OpenFile True path 384, WriteAll path key, Chmod (butlast path) 448] f"
proof (cases rule: exec_cases [of um os "OpenFile True path 384" f])
  case (fails e g)
  then show ?thesis unfolding write_key_unix_def by (simp del: instants.simps)
next
  case made: goes
  let ?f1 = "call_apply um (OpenFile True path 384) f"
  have "snd (write_key_unix um os path key f) \<in> instants um [WriteAll path key, Chmod (butlast path) 448] ?f1"
  proof (cases rule: exec_cases [of um os "WriteAll path key" ?f1])
    case (fails e g)
    with made show ?thesis unfolding write_key_unix_def by (simp del: instants.simps call_apply.simps)
  next
    case goes
    have "snd (sys_exec um os (Chmod (butlast path) 448) f2) \<in> instants um [Chmod (butlast path) 448] f2" for f2
      by (auto simp: sys_exec_def split: option.splits)
    from instants_more [OF this goes(2)] made goes show ?thesis
      unfolding write_key_unix_def by (simp del: instants.simps call_apply.simps)
  qed
  from instants_more [OF this made(2)] show ?thesis .
qed

lemma key_run_instants:
  "snd (load_or_create_key_unix um os rf fresh dir f :: ('id error + rstring) \<times> ufs) \<in> instants um (key_calls dir fresh) f"
proof (cases "rf (key_path dir) = None \<and> fmlookup (uf_files f) (key_path dir) = None")
  case True
  have parent: "butlast (key_path dir) = dir" by (simp add: key_path_def)
  show ?thesis
  proof (cases rule: exec_cases [of um os "MkDirs dir" f])
    case (fails e g)
    with True show ?thesis by (simp add: load_or_create_key_unix_def key_calls_def del: instants.simps)
  next
    case goes
    obtain w :: "'id error + unit" and f2 where w: "write_key_unix um os (key_path dir) fresh (call_apply um (MkDirs dir) f) = (w, f2)"
      by fastforce
    then have "snd (load_or_create_key_unix um os rf fresh dir f :: ('id error + rstring) \<times> ufs) =
        snd (write_key_unix um os (key_path dir) fresh (call_apply um (MkDirs dir) f) :: ('id error + unit) \<times> ufs)"
      using True goes by (cases w) (simp_all add: load_or_create_key_unix_def del: call_apply.simps)
    then show ?thesis
      using instants_more [OF write_key_instants goes(2), of um os "key_path dir" fresh]
      by (simp add: key_calls_def parent del: instants.simps call_apply.simps)
  qed
next
  case False
  then have "snd (load_or_create_key_unix um os rf fresh dir f :: ('id error + rstring) \<times> ufs) = f"
    by (auto simp: load_or_create_key_unix_def split: option.splits prod.splits if_splits)
  then show ?thesis by (simp add: instants_start del: instants.simps)
qed

text \<open>
  C11: the key is never readable by anybody but its owner, not for an instant. When a start makes the
  key, then in every state that can be seen while it does, or be left by a failure or a crash, the
  key file, if it is there, has no bit for the group or for others, whatever the creation mask of
  the process is; the start itself ends in one of these states, and no other file is touched.
\<close>
theorem key_never_readable:
  assumes "fmlookup (uf_files f) (key_path dir) = None"
  shows "snd (load_or_create_key_unix um os rf fresh dir f :: ('id error + rstring) \<times> ufs) \<in> instants um (key_calls dir fresh) f \<and>
         (\<forall>g \<in> instants um (key_calls dir fresh) f.
            (\<forall>m s. fmlookup (uf_files g) (key_path dir) = Some (m, s) \<longrightarrow> owner_only m) \<and>
            (\<forall>p. p \<noteq> key_path dir \<longrightarrow> fmlookup (uf_files g) p = fmlookup (uf_files f) p))"
proof (intro conjI ballI)
  show "snd (load_or_create_key_unix um os rf fresh dir f :: ('id error + rstring) \<times> ufs) \<in> instants um (key_calls dir fresh) f"
    by (rule key_run_instants)
  fix g assume g: "g \<in> instants um (key_calls dir fresh) f"
  have "shut (key_path dir) g"
    by (rule shut_instants [OF _ _ g]) (simp_all add: shut_def assms key_calls_def)
  then show "\<forall>m s. fmlookup (uf_files g) (key_path dir) = Some (m, s) \<longrightarrow> owner_only m" by (simp add: shut_def)
  show "\<forall>p. p \<noteq> key_path dir \<longrightarrow> fmlookup (uf_files g) p = fmlookup (uf_files f) p"
    using g by (auto simp: key_calls_def put_data_def split: if_splits option.splits)
qed

theorem key_never_readable_witness:
  "snd (load_or_create_key_unix 0 (\<lambda>_. None) (\<lambda>_. None) [7] [] \<lparr>uf_files = fmempty, uf_dirs = fmempty\<rparr> :: (nat error + rstring) \<times> ufs)
     \<in> instants 0 (key_calls [] [7]) \<lparr>uf_files = fmempty, uf_dirs = fmempty\<rparr>"
  by (rule conjunct1 [OF key_never_readable]) simp

text \<open>
  The token has the same protection only in a file that the start makes itself: \<open>create\<close> with
  \<open>truncate\<close> keeps the mode of a file that is there, for instance an empty one.
\<close>

lemma token_mode:
  assumes "write_secret_unix um os path s f = (Inr (), g)"
  shows "fmlookup (uf_files g) path =
           Some (case fmlookup (uf_files f) path of None \<Rightarrow> 384 AND NOT um | Some (m, _) \<Rightarrow> m, s)"
  using assms by (auto simp: write_secret_unix_def sys_exec_def put_data_def split: option.splits)

lemma fresh_token_owner_only:
  assumes "write_secret_unix um os path s f = (Inr (), g)" and "shut path f"
  shows "\<exists>m. fmlookup (uf_files g) path = Some (m, s) \<and> owner_only m"
  using token_mode [OF assms(1)] assms(2) owner_only_masked [of um]
  by (auto simp: shut_def split: option.splits)

definition empty_token :: ufs where
  "empty_token = \<lparr>uf_files = fmupd (token_path []) (420, []) fmempty, uf_dirs = fmempty\<rparr>"

lemma token_in_readable_file:
  "fmlookup (uf_files (snd (load_or_create_token_unix um (\<lambda>_. None) (\<lambda>_. False) bytes [] empty_token ::
      (nat error + rstring) \<times> ufs))) (token_path []) = Some (420, mint_token bytes) \<and> \<not> owner_only 420"
  by (simp add: load_or_create_token_unix_def stored_token_def empty_token_def sys_exec_def write_secret_unix_def
      put_data_def owner_only_def trim_def)

text \<open>
  A start that dies between making the key file and filling it leaves a file that no later start
  accepts: the error says to delete it.
\<close>

lemma key_crash_needs_deletion:
  assumes "fmlookup (uf_files f) (key_path dir) = None" and "rf (key_path dir) = None"
  shows "\<exists>g \<in> instants um (key_calls dir fresh) f. \<forall>um' os' fresh'.
           load_or_create_key_unix um' os' rf fresh' dir g = (Inl (BadKey (key_path dir)) :: 'id error + rstring, g)"
proof -
  define g where "g = call_apply um (OpenFile True (key_path dir) 384) (call_apply um (MkDirs dir) f)"
  have "g \<in> instants um (key_calls dir fresh) f"
    using assms(1) by (simp add: key_calls_def g_def)
  moreover have "fmlookup (uf_files g) (key_path dir) = Some (384 AND NOT um, [])"
    using assms(1) by (simp add: g_def)
  ultimately show ?thesis using assms(2) by (intro bexI [of _ g]) (simp_all add: load_or_create_key_unix_def)
qed

end
