(* ===== verification/Unit_Tests.thy ===== *)
theory Unit_Tests
  imports Serve_Side Cli "HOL-Library.Sublist"
begin

text \<open>
  The unit tests of the program (the \<open>tests\<close> modules of \<open>proto.rs\<close>, \<open>main.rs\<close>, \<open>config.rs\<close> and
  \<open>state.rs\<close>), each as the Boolean of its assertions over the model's definitions. \<open>pk\<close> is the key a
  seed gives, of which the tests use that different seeds give different ones; the TOML library is an
  argument, and its laws are the hypotheses of the tests that run it.
\<close>

section \<open>Framing and port maps\<close>

definition datagram_round_trips_and_rejects_runts :: bool where
  "datagram_round_trips_and_rejects_runts \<longleftrightarrow>
     decode_datagram (encode_datagram 7 51820 [112, 97, 121, 108, 111, 97, 100]) =
       Some (7, 51820, [112, 97, 121, 108, 111, 97, 100]) \<and>
     map_option (\<lambda>(_, _, payload). length payload) (decode_datagram (encode_datagram 1 2 [])) = Some 0 \<and>
     list_all (\<lambda>runt. decode_datagram (replicate runt 0) = None) [0, 1, 5]"

definition port_map_parses_and_rejects_junk :: bool where
  "port_map_parses_and_rejects_junk \<longleftrightarrow>
     (port_map_from_str (lit ''2222:22'') :: nat error + PortMap) = Inr \<lparr>m_local = 2222, m_remote = 22\<rparr> \<and>
     list_all (\<lambda>bad. \<not> is_ok (port_map_from_str (lit bad) :: nat error + PortMap))
       [''2222'', ''2222:'', '':22'', ''0:22'', ''2222:0'', ''a:22'', ''70000:22'', ''2222:22:22'']"

lemma datagram_round_trips_and_rejects_runts: datagram_round_trips_and_rejects_runts
  by (simp add: datagram_round_trips_and_rejects_runts_def) (simp add: decode_datagram_def DATAGRAM_HEADER_def)

lemma port_map_parses_and_rejects_junk: port_map_parses_and_rejects_junk
  by (simp add: port_map_parses_and_rejects_junk_def port_map_from_str_def parse_map_port_def parse_u16_def
      lit_def is_digit_def)

section \<open>The configuration\<close>

definition test_offer :: "Proto \<Rightarrow> u16 \<Rightarrow> Offer" where
  "test_offer proto port = \<lparr>o_proto = proto, o_port = port, o_name = [], o_enabled = True\<rparr>"

definition test_peer :: "'id \<Rightarrow> string \<Rightarrow> bool \<Rightarrow> Offer list \<Rightarrow> 'id Peer" where
  "test_peer i name on offers = \<lparr>p_id = i, p_name = lit name, p_enabled = on, p_offers = offers\<rparr>"

definition test_binding :: "Proto \<Rightarrow> u16 \<Rightarrow> u16 \<Rightarrow> Binding" where
  "test_binding proto local remote =
     \<lparr>b_proto = proto, b_local = local, b_remote = remote, b_name = [], b_enabled = True\<rparr>"

definition granted_merges_shared_and_per_peer_and_honours_enabled :: "(nat \<Rightarrow> 'id) \<Rightarrow> bool" where
  "granted_merges_shared_and_per_peer_and_honours_enabled pk \<longleftrightarrow>
     (let cfg = with_peers
            (with_shared default_config [test_offer Tcp 22, (test_offer Tcp 80)\<lparr>o_enabled := False\<rparr>])
            [test_peer (pk 1) ''laptop'' True [test_offer Tcp 8080, test_offer Udp 53],
             test_peer (pk 2) ''parked'' False [test_offer Tcp 9999]]
      in granted cfg (pk 1) Tcp = Some [22, 8080] \<and> granted cfg (pk 1) Udp = Some [53] \<and>
         granted cfg (pk 2) Tcp = None \<and> granted cfg (pk 3) Tcp = None \<and>
         admits cfg (pk 1) \<and> \<not> admits cfg (pk 2) \<and> \<not> admits cfg (pk 3))"

definition validate_rejects_duplicates_and_bad_values :: "(nat \<Rightarrow> 'id) \<Rightarrow> bool" where
  "validate_rejects_duplicates_and_bad_values pk \<longleftrightarrow>
     (let ok = (\<lambda>c. is_ok (validate c :: 'id error + unit));
          dup_peer = with_peers default_config [test_peer (pk 1) ''a'' True [], test_peer (pk 1) ''b'' True []];
          dup_offer = with_shared default_config [test_offer Tcp 22, test_offer Tcp 22];
          both = with_shared default_config [test_offer Tcp 22, test_offer Udp 22];
          zero = with_shared default_config [test_offer Tcp 0];
          dup_local = with_bindings default_config [test_binding Tcp 2222 22, test_binding Tcp 2222 80];
          long = with_peers default_config
            [(test_peer (pk 1) [] True [])\<lparr>p_name := replicate (NAME_MAX + 1) 120\<rparr>];
          ctrl = with_peers default_config
            [(test_peer (pk 1) [] True [])\<lparr>p_name := lit ''bad'' @ [10] @ lit ''name''\<rparr>]
      in \<not> ok dup_peer \<and> \<not> ok dup_offer \<and> ok both \<and>
         \<not> ok zero \<and> \<not> ok dup_local \<and> \<not> ok long \<and>
         \<not> ok ctrl)"

definition seeding_is_idempotent_and_never_clobbers :: "(nat \<Rightarrow> 'id) \<Rightarrow> bool" where
  "seeding_is_idempotent_and_never_clobbers pk \<longleftrightarrow>
     (let (cfg1, ch1) = seed_from_flags default_config [pk 1] [22] [53];
          (cfg2, ch2) = seed_from_flags cfg1 [pk 1] [22] [53];
          parked = with_peers cfg2
            ((peers_of cfg2)[0 := (peers_of cfg2 ! 0)\<lparr>p_enabled := False, p_name := lit ''kept''\<rparr>]);
          (cfg3, ch3) = seed_from_flags parked [pk 1] [22] [53];
          (cfg4, ch4) = seed_bindings cfg3 [\<lparr>m_local = 2222, m_remote = 22\<rparr>] [];
          (cfg5, ch5) = seed_bindings cfg4 [\<lparr>m_local = 2222, m_remote = 22\<rparr>] []
      in ch1 \<and> \<not> ch2 \<and> length (peers_of cfg2) = 1 \<and> length (shared_of cfg2) = 2 \<and>
         \<not> ch3 \<and> \<not> p_enabled (peers_of cfg3 ! 0) \<and> p_name (peers_of cfg3 ! 0) = lit ''kept'' \<and>
         ch4 \<and> \<not> ch5 \<and> length (bindings_of cfg5) = 1)"

definition admin_addr_defaults_to_loopback :: "(rstring \<Rightarrow> ('v6 \<times> u16) option) \<Rightarrow> bool" where
  "admin_addr_defaults_to_loopback parse_v6 \<longleftrightarrow>
     (admin_addr parse_v6 (lit ''7000'') :: nat error + 'v6 ip \<times> u16) = Inr (V4 127 0 0 1, 7000) \<and>
     (admin_addr parse_v6 (lit ''0.0.0.0:7000'') :: nat error + 'v6 ip \<times> u16) = Inr (V4 0 0 0 0, 7000) \<and>
     list_all (\<lambda>bad. \<not> is_ok (admin_addr parse_v6 (lit bad) :: nat error + 'v6 ip \<times> u16))
       [''0'', ''notaport'', ''127.0.0.1'', ''127.0.0.1:0'', ''99999'']"

definition token_eq_matches_only_identical_tokens :: bool where
  "token_eq_matches_only_identical_tokens \<longleftrightarrow>
     token_eq (lit ''abc'') (lit ''abc'') \<and> \<not> token_eq (lit ''abc'') (lit ''abd'') \<and>
     \<not> token_eq (lit ''abc'') (lit ''ab'') \<and> \<not> token_eq (lit '''') (lit ''a'') \<and>
     token_eq (lit '''') (lit '''')"

definition proto_parses_case_insensitively :: bool where
  "proto_parses_case_insensitively \<longleftrightarrow>
     (proto_from_str (lit ''tcp'') :: nat error + Proto) = Inr Tcp \<and>
     (proto_from_str (lit ''UDP'') :: nat error + Proto) = Inr Udp \<and>
     \<not> is_ok (proto_from_str (lit ''sctp'') :: nat error + Proto)"

lemma inj_pk: "inj (pk :: nat \<Rightarrow> 'id) \<Longrightarrow> pk i = pk j \<longleftrightarrow> i = j"
  by (rule inj_eq)

lemma granted_merges_shared_and_per_peer_and_honours_enabled:
  "inj pk \<Longrightarrow> granted_merges_shared_and_per_peer_and_honours_enabled pk"
  by (simp add: granted_merges_shared_and_per_peer_and_honours_enabled_def granted_def cfg_peer_def admits_def
      peer_granted_def test_peer_def test_offer_def inj_pk default_config_def with_peers_def with_shared_def)

lemma validate_rejects_duplicates_and_bad_values:
  "validate_rejects_duplicates_and_bad_values pk"
  by (simp add: validate_rejects_duplicates_and_bad_values_def is_ok_iff validate_ok config_wf_def offers_wf_def
      peers_wf_def bindings_wf_def offer_wf_def peer_wf_def binding_wf_def name_wf_def test_peer_def
      test_offer_def test_binding_def offer_key_def binding_key_def default_config_def with_peers_def
      with_shared_def with_bindings_def is_control_def)

lemma seeding_is_idempotent_and_never_clobbers:
  "seeding_is_idempotent_and_never_clobbers pk"
  by (simp add: seeding_is_idempotent_and_never_clobbers_def seed_from_flags_def seed_bindings_def
      default_config_def with_peers_def with_shared_def with_bindings_def)

lemma admin_addr_defaults_to_loopback:
  "admin_addr_defaults_to_loopback (\<lambda>_. None)"
  by (simp add: admin_addr_defaults_to_loopback_def admin_addr_def parse_u16_def parse_v4_def parse_octet_def
      lit_def is_digit_def check_port_def)

lemma token_eq_matches_only_identical_tokens: token_eq_matches_only_identical_tokens
  by (simp add: token_eq_matches_only_identical_tokens_def token_eq_bytes as_bytes_def utf8_def lit_def)

lemma proto_parses_case_insensitively: proto_parses_case_insensitively
  by (simp add: proto_parses_case_insensitively_def proto_from_str_def to_ascii_lowercase_def lit_def)

section \<open>The shared state\<close>

text \<open>
  \<open>shared()\<close>: a fresh state on a path in an empty directory, on a disk that does not fail. A
  \<open>watch\<close> receiver is the list of what it has seen and what was published since, as in the node.
\<close>

definition test_path :: path where
  "test_path = [lit ''tmp'', lit ''config.toml'']"

definition test_shared :: "'id Shared" where
  "test_shared = shared_new default_config test_path RoleServe 0"

definition test_mutate ::
  "('id Config \<Rightarrow> rstring + rstring) \<Rightarrow> ('id Config \<Rightarrow> 'id error + 'id Config) \<Rightarrow> 'id Shared \<times> fs \<Rightarrow>
     ('id error + unit) \<times> 'id Shared \<times> fs" where
  "test_mutate to_toml f = mutate to_toml (\<lambda>_. None) (\<lambda>c. and_then (f c) (\<lambda>c'. Inr (c', ())))"

definition push_ssh :: "'id Config \<Rightarrow> 'id error + 'id Config" where
  "push_ssh c = Inr (with_shared c (shared_of c @ [test_offer Tcp 22]))"

definition mutation_persists_publishes_and_is_observable ::
  "('id Config \<Rightarrow> rstring + rstring) \<Rightarrow> (rstring \<Rightarrow> rstring + 'id Config) \<Rightarrow> (nat \<Rightarrow> 'id) \<Rightarrow> bool" where
  "mutation_persists_publishes_and_is_observable to_toml from_toml pk \<longleftrightarrow>
     (let rx = [sh_cfg (test_shared :: 'id Shared)];
          (r, sh, files) = test_mutate to_toml
            (\<lambda>c. Inr (with_peers c (peers_of c @ [test_peer (pk 1) ''laptop'' True []]))) (test_shared, fmempty);
          rx' = pending rx (sh_cfg sh)
      in peers_of (sh_cfg (test_shared :: 'id Shared)) = [] \<and> is_ok r \<and> admits (sh_cfg sh) (pk 1) \<and>
         2 \<le> length rx' \<and> admits (last rx') (pk 1) \<and>
         (case load (\<lambda>_. None) from_toml (sh_path sh) files of
            Inl e \<Rightarrow> False
          | Inr reloaded \<Rightarrow> admits reloaded (pk 1) \<and> p_name (peers_of reloaded ! 0) = lit ''laptop''))"

definition mutation_applies_with_no_subscriber :: "('id Config \<Rightarrow> rstring + rstring) \<Rightarrow> bool" where
  "mutation_applies_with_no_subscriber to_toml \<longleftrightarrow>
     (let (r, sh, files) = test_mutate to_toml push_ssh (test_shared, fmempty);
          rx = [sh_cfg sh]
      in is_ok r \<and> length (shared_of (sh_cfg sh)) = 1 \<and> length (shared_of (last rx)) = 1)"

definition rejected_mutation_leaves_running_config_untouched ::
  "('id Config \<Rightarrow> rstring + rstring) \<Rightarrow> (rstring \<Rightarrow> rstring + 'id Config) \<Rightarrow> bool" where
  "rejected_mutation_leaves_running_config_untouched to_toml from_toml \<longleftrightarrow>
     (let (r1, sh1, f1) = test_mutate to_toml push_ssh (test_shared, fmempty);
          (r2, sh2, f2) = test_mutate to_toml push_ssh (sh1, f1);
          (r3, sh3, f3) = test_mutate to_toml (\<lambda>_. Inl (Os (lit ''nope''))) (sh2, f2)
      in is_ok r1 \<and> \<not> is_ok r2 \<and> length (shared_of (sh_cfg sh2)) = 1 \<and> sh_cfg sh2 = sh_cfg sh1 \<and>
         \<not> is_ok r3 \<and> length (shared_of (sh_cfg sh3)) = 1 \<and>
         load (\<lambda>_. None) from_toml (sh_path sh3) f3 = Inr (sh_cfg sh3))"

definition runtime_tracks_peers_and_binds ::
  "('id::linorder \<Rightarrow> rstring) \<Rightarrow> ('id \<Rightarrow> rstring) \<Rightarrow> nat \<Rightarrow> (nat \<Rightarrow> 'id) \<Rightarrow> bool" where
  "runtime_tracks_peers_and_binds to_string fmt_short now pk \<longleftrightarrow>
     (let live = live_peers to_string fmt_short now;
          sh1 = peer_connected now (pk 1) test_shared;
          sh2 = peer_path (pk 1) (lit ''direct'') (Some (lit ''ip:1.2.3.4:5'')) (Some 12) sh1;
          sh3 = peer_path (pk 1) (lit ''direct'') None None (peer_disconnected (pk 1) sh2);
          b = test_binding Tcp 2222 22;
          sh4 = set_bind Tcp 2222 Listening sh3;
          sh5 = set_bind Tcp 2222 (Failed (lit ''in use'')) sh4;
          sh6 = clear_bind Tcp 2222 sh5
      in live test_shared = [] \<and> length (live sh1) = 1 \<and> pl_path (live sh1 ! 0) = lit ''pending'' \<and>
         pl_path (live sh2 ! 0) = lit ''direct'' \<and> pl_rtt (live sh2 ! 0) = Some 12 \<and>
         length (pl_id (live sh2 ! 0)) = 64 \<and> live sh3 = [] \<and>
         bind_state b sh3 = None \<and> bind_state b sh4 = Some Listening \<and>
         (\<exists>e. bind_state b sh5 = Some (Failed e)) \<and> bind_state b sh6 = None)"

lemma test_shared_simps [simp]:
  "sh_cfg test_shared = default_config" "sh_path test_shared = test_path"
  by (simp_all add: test_shared_def shared_new_def)

lemma test_mutate_ok:
  assumes "f (sh_cfg s) = Inr c" and "config_wf c" and "sh_path s = [dir, file]" and "to_toml c = Inr t"
  shows "\<exists>files'. test_mutate to_toml f (s, files) = (Inr (), s\<lparr>sh_cfg := c\<rparr>, files') \<and>
           fmlookup files' [dir, file] = Some (CONFIG_HEADER @ t)"
proof -
  obtain files' where sv: "save (\<lambda>_. None) to_toml [dir, file] c files = (Inr (), files')"
    using assms(2,4) by (simp add: save_def validate_ok [THEN iffD2] path_parent_def save_ops_def)
  from save_outcome [OF sv] assms(4) have "fmlookup files' [dir, file] = Some (CONFIG_HEADER @ t)" by auto
  moreover have "test_mutate to_toml f (s, files) = (Inr (), s\<lparr>sh_cfg := c\<rparr>, files')"
    using assms(1-3) sv by (simp add: test_mutate_def mutate_def validate_ok [THEN iffD2])
  ultimately show ?thesis by blast
qed

lemma fresh_mutate_ok:
  assumes "f (sh_cfg test_shared) = Inr c" and "config_wf c" and "to_toml c = Inr t"
  shows "\<exists>files'. test_mutate to_toml f (test_shared, files) = (Inr (), test_shared\<lparr>sh_cfg := c\<rparr>, files') \<and>
           fmlookup files' test_path = Some (CONFIG_HEADER @ t)"
  unfolding test_path_def by (rule test_mutate_ok) (simp_all add: assms [simplified] test_path_def)

text \<open>The laws of the TOML library: it prints a valid configuration and parses what it printed.\<close>

definition toml_ok :: "('id Config \<Rightarrow> rstring + rstring) \<Rightarrow> (rstring \<Rightarrow> rstring + 'id Config) \<Rightarrow> bool" where
  "toml_ok to_toml from_toml \<longleftrightarrow>
     (\<forall>c. config_wf c \<longrightarrow> (\<exists>t. to_toml c = Inr t \<and> from_toml (CONFIG_HEADER @ t) = Inr c))"

lemma toml_okE:
  assumes "toml_ok to_toml from_toml" and "config_wf c"
  obtains t where "to_toml c = Inr t" and "from_toml (CONFIG_HEADER @ t) = Inr c"
  using assms by (auto simp: toml_ok_def)

lemma ssh_wf: "config_wf (with_shared default_config [test_offer Tcp 22])"
  by (simp add: config_wf_def offers_wf_def peers_wf_def bindings_wf_def offer_wf_def default_config_def
      test_offer_def with_shared_def)

lemma push_ssh_default: "push_ssh (sh_cfg test_shared) = Inr (with_shared default_config [test_offer Tcp 22])"
  by (simp add: push_ssh_def) (simp add: default_config_def)

lemma mutation_persists_publishes_and_is_observable:
  assumes "toml_ok to_toml from_toml"
  shows "mutation_persists_publishes_and_is_observable to_toml from_toml pk"
proof -
  note [simp del] = One_nat_def
  let ?c = "with_peers default_config [test_peer (pk 1) ''laptop'' True []]"
  have wf: "config_wf ?c"
    by (simp add: config_wf_def offers_wf_def peers_wf_def bindings_wf_def peer_wf_def default_config_def
        test_peer_def with_peers_def name_wf_def NAME_MAX_def is_control_def lit_def)
  obtain t where t: "to_toml ?c = Inr t" "from_toml (CONFIG_HEADER @ t) = Inr ?c"
    by (rule toml_okE [OF assms wf])
  let ?f = "\<lambda>c. Inr (with_peers c (peers_of c @ [test_peer (pk 1) ''laptop'' True []]))"
  have no: "peers_of default_config = []" by (simp add: default_config_def)
  have f: "?f (sh_cfg test_shared) = Inr ?c" by (simp add: no)
  obtain files where run: "test_mutate to_toml ?f (test_shared, fmempty) =
      (Inr (), test_shared\<lparr>sh_cfg := ?c\<rparr>, files)"
    and disk: "fmlookup files test_path = Some (CONFIG_HEADER @ t)"
    using fresh_mutate_ok [of ?f ?c to_toml t fmempty] f wf t(1) by blast
  have "admits ?c (pk 1)" by (simp add: admits_def cfg_peer_def test_peer_def)
  moreover have "load (\<lambda>_. None) from_toml test_path files = Inr ?c"
    using t(2) disk validate_wf [OF wf] by (simp add: load_def)
  ultimately show ?thesis
    by (simp add: mutation_persists_publishes_and_is_observable_def run pending_def no) (simp add: test_peer_def)
qed

lemma mutation_applies_with_no_subscriber:
  assumes "toml_ok to_toml from_toml"
  shows "mutation_applies_with_no_subscriber to_toml"
proof -
  obtain t where t: "to_toml (with_shared default_config [test_offer Tcp 22]) = Inr t"
    by (rule toml_okE [OF assms ssh_wf])
  obtain files where "test_mutate to_toml push_ssh (test_shared, fmempty) =
      (Inr (), test_shared\<lparr>sh_cfg := with_shared default_config [test_offer Tcp 22]\<rparr>, files)"
    using fresh_mutate_ok [of push_ssh _ to_toml t fmempty] push_ssh_default ssh_wf t by blast
  then show ?thesis by (simp add: mutation_applies_with_no_subscriber_def)
qed

lemma rejected_mutation_leaves_running_config_untouched:
  assumes "toml_ok to_toml from_toml"
  shows "rejected_mutation_leaves_running_config_untouched to_toml from_toml"
proof -
  let ?c = "with_shared default_config [test_offer Tcp 22]"
  let ?s = "test_shared\<lparr>sh_cfg := ?c\<rparr>"
  obtain t where t: "to_toml ?c = Inr t" "from_toml (CONFIG_HEADER @ t) = Inr ?c"
    by (rule toml_okE [OF assms ssh_wf])
  obtain files where run: "test_mutate to_toml push_ssh (test_shared, fmempty) = (Inr (), ?s, files)"
    and disk: "fmlookup files test_path = Some (CONFIG_HEADER @ t)"
    using fresh_mutate_ok [of push_ssh _ to_toml t fmempty] push_ssh_default ssh_wf t(1) by blast
  have "\<not> is_ok (validate (with_shared ?c [test_offer Tcp 22, test_offer Tcp 22]) :: 'a error + unit)"
    by (simp add: is_ok_iff validate_ok config_wf_def offers_wf_def)
  then obtain e where e: "validate (with_shared ?c [test_offer Tcp 22, test_offer Tcp 22]) = (Inl e :: 'a error + unit)"
    by (auto simp: not_is_ok_iff)
  have second: "test_mutate to_toml push_ssh (?s, files) = (Inl e, ?s, files)"
    using e by (simp add: test_mutate_def mutate_def push_ssh_def)
  have third: "test_mutate to_toml (\<lambda>_. Inl (Os (lit ''nope''))) (?s, files) = (Inl (Os (lit ''nope'')), ?s, files)"
    by (simp add: test_mutate_def mutate_def)
  have "load (\<lambda>_. None) from_toml test_path files = Inr ?c"
    using t(2) disk by (simp add: load_def validate_wf [OF ssh_wf])
  then show ?thesis
    by (simp add: rejected_mutation_leaves_running_config_untouched_def run second third)
qed

lemma runtime_tracks_peers_and_binds:
  assumes "length (to_string (pk 1)) = 64"
  shows "runtime_tracks_peers_and_binds to_string fmt_short now pk"
  using assms
  by (simp add: runtime_tracks_peers_and_binds_def live_peers_def live_row_def hm_iter_def peer_connected_def
      peer_disconnected_def peer_path_def set_bind_def clear_bind_def bind_state_def test_binding_def
      test_shared_def shared_new_def default_path_info_def lit_def Let_def sorted_list_of_fset.rep_eq)

section \<open>The test of the TOML library\<close>

text \<open>\<open>contains\<close> is \<open>sublist\<close>, and \<open>to_string\<close> prints an id.\<close>

definition toml_config :: "'id \<Rightarrow> 'id Config" where
  "toml_config i =
     with_bindings
       (with_peers
         (with_shared default_config [\<lparr>o_proto = Tcp, o_port = 22, o_name = lit ''ssh'', o_enabled = True\<rparr>])
         [test_peer i ''laptop'' True [test_offer Udp 51820]])
       [\<lparr>b_proto = Tcp, b_local = 2222, b_remote = 22, b_name = lit ''ssh'', b_enabled = True\<rparr>]"

definition round_trips_through_toml ::
  "('id \<Rightarrow> rstring) \<Rightarrow> ('id Config \<Rightarrow> rstring + rstring) \<Rightarrow> (rstring \<Rightarrow> rstring + 'id Config) \<Rightarrow> (nat \<Rightarrow> 'id) \<Rightarrow> bool" where
  "round_trips_through_toml to_string to_toml from_toml pk \<longleftrightarrow>
     (case to_toml (toml_config (pk 1)) of
        Inl e \<Rightarrow> False
      | Inr text \<Rightarrow> from_toml text = Inr (toml_config (pk 1)) \<and> sublist (to_string (pk 1)) text)"

text \<open>
  The configuration of the test is valid, so the program can come to write it. The laws of the
  library, for valid configurations: it prints them, parses what it printed, and prints every id as
  its string.
\<close>

lemma toml_config_wf: "config_wf (toml_config i)"
  by (simp add: toml_config_def config_wf_def offers_wf_def peers_wf_def peer_wf_def bindings_wf_def offer_wf_def
      binding_wf_def test_peer_def test_offer_def name_wf_def NAME_MAX_def lit_def is_control_def)

lemma round_trips_through_toml:
  assumes "\<And>c. config_wf c \<Longrightarrow> \<exists>t. to_toml c = Inr t \<and> from_toml t = Inr c \<and> (\<forall>p \<in> set (peers_of c). sublist (to_string (p_id p)) t)"
  shows "round_trips_through_toml to_string to_toml from_toml pk"
proof -
  from assms [OF toml_config_wf, of "pk 1"] obtain t where
    t: "to_toml (toml_config (pk 1)) = Inr t" "from_toml t = Inr (toml_config (pk 1))"
    and ids: "\<forall>p \<in> set (peers_of (toml_config (pk 1))). sublist (to_string (p_id p)) t" by blast
  have "sublist (to_string (pk 1)) t" using ids by (simp add: toml_config_def test_peer_def)
  with t show ?thesis by (simp add: round_trips_through_toml_def)
qed

end
