(* ===== verification/Tunnel_Tests.thy ===== *)
theory Tunnel_Tests
  imports Both_Sides Tunnel Unit_Tests
begin

text \<open>
  The integration tests of \<open>tunnel.rs\<close> over the two machines of \<open>Both_Sides\<close>: each test is the Boolean
  of its assertions, for arbitrary keys, ports and operating system instead of the ephemeral ones.
  Where a test waits for something to become true, the turns of the tasks it waits for are written
  out. The harness is deterministic code over the steps of the two machines, and shown to take no
  other.
\<close>

section \<open>The harness\<close>

record Offered =
  of_tcp :: "u16 list"
  of_udp :: "u16 list"

text \<open>What a test makes up: two endpoints, the local ports, a temporary file name, the TOML printer.\<close>

record ('id, 'l) Rig =
  rg_server :: 'id
  rg_client :: 'id
  rg_os :: "Proto \<Rightarrow> u16 \<Rightarrow> rstring + 'l"
  rg_random :: rstring
  rg_toml :: "'id Config \<Rightarrow> rstring + rstring"

definition temp_config_path :: "rstring \<Rightarrow> path" where
  "temp_config_path random = [lit ''tmp'', lit ''rtun-tunnel-test-'' @ random @ lit ''.toml'']"

definition shared_serve :: "rstring \<Rightarrow> 'id list \<Rightarrow> Offered \<Rightarrow> 'id Shared" where
  "shared_serve random allow offered =
     shared_new
       (with_peers
         (with_shared default_config (map (test_offer Tcp) (of_tcp offered) @ map (test_offer Udp) (of_udp offered)))
         (map (\<lambda>i. test_peer i [] True []) allow))
       (temp_config_path random) RoleServe 0"

definition shared_connect :: "rstring \<Rightarrow> PortMap list \<Rightarrow> PortMap list \<Rightarrow> 'id Shared" where
  "shared_connect random tcp udp =
     shared_new
       (with_bindings default_config
         (map (\<lambda>m. test_binding Tcp (m_local m) (m_remote m)) tcp @
          map (\<lambda>m. test_binding Udp (m_local m) (m_remote m)) udp))
       (temp_config_path random) RoleConnect 0"

text \<open>The two tasks of a connection have subscribed.\<close>

definition tasks_ready :: "nat \<Rightarrow> ('id, 'sock) ServeNode \<Rightarrow> ('id, 'sock) ServeNode" where
  "tasks_ready k n =
     (case fmlookup (sn_conns n) k of
        None \<Rightarrow> n
      | Some c \<Rightarrow> udp_subscribed k (c\<lparr>cn_evict := [cfg_now n]\<rparr>) (evict_subscribed k c n))"

text \<open>The client dials and is heard, on the connection \<open>k\<close>.\<close>

definition opened :: "nat \<Rightarrow> ('id, 'sock, 'l) System \<Rightarrow> ('id, 'sock, 'l) System" where
  "opened k s =
     (case accept_conn 0 k (sy_me s) [] (sy_serve s) of
        (acts, n) \<Rightarrow>
          s\<lparr>sy_dial := dial_ok 0 (d_peer (sy_dial s)) [] (sy_dial s), sy_used := k # sy_used s,
            sy_serve := tasks_ready k n, sy_link := link_after acts k\<rparr>)"

text \<open>Both roles with their files; \<open>client_id\<close> is \<open>sy_me\<close>.\<close>

record ('id, 'l) Live =
  li_sys :: "('id, nat, 'l) System"
  li_serve_disk :: fs
  li_connect_disk :: fs

definition live_tunnel :: "('id, 'l) Rig \<Rightarrow> Offered \<Rightarrow> PortMap list \<Rightarrow> PortMap list \<Rightarrow> ('id, 'l) Live" where
  "live_tunnel rig offered tcp udp =
     \<lparr>li_sys = opened 0
        (sys_start (rg_os rig) (rg_client rig) (rg_server rig)
          (shared_serve (rg_random rig) [rg_client rig] offered) (shared_connect (rg_random rig) tcp udp)),
      li_serve_disk = fmempty, li_connect_disk = fmempty\<rparr>"

text \<open>
  \<open>live.serve.mutate(..).unwrap()\<close> and the same of the other side, where the loop then sees the
  change; \<open>None\<close> is the panic.
\<close>

definition serve_mutate ::
  "('id, 'l) Rig \<Rightarrow> ('id Config \<Rightarrow> 'id error + 'id Config) \<Rightarrow> ('id, 'l) Live \<Rightarrow> ('id, 'l) Live option" where
  "serve_mutate rig f live =
     (case test_mutate (rg_toml rig) f (sn_shared (sy_serve (li_sys live)), li_serve_disk live) of
        (Inl e, _, _) \<Rightarrow> None
      | (Inr _, sh, files) \<Rightarrow>
          Some (live\<lparr>li_sys := serve_acted [] (publish sh (sy_serve (li_sys live))) (li_sys live),
                     li_serve_disk := files\<rparr>))"

definition connect_mutate ::
  "('id, 'l) Rig \<Rightarrow> ('id Config \<Rightarrow> 'id error + 'id Config) \<Rightarrow> ('id, 'l) Live \<Rightarrow> ('id, 'l) Live option" where
  "connect_mutate rig f live =
     (case test_mutate (rg_toml rig) f (d_shared (sy_dial (li_sys live)), li_connect_disk live) of
        (Inl e, _, _) \<Rightarrow> None
      | (Inr _, sh, files) \<Rightarrow>
          (let s = dial_acted ((sy_dial (li_sys live))\<lparr>d_shared := sh\<rparr>) (li_sys live)
           in Some (live\<lparr>li_sys := dial_acted (connected_changed (rg_os rig) (sy_dial s)) s,
                         li_connect_disk := files\<rparr>)))"

subsection \<open>Traffic\<close>

text \<open>The echo services by their ports, and the forwarders that answer on a local port.\<close>

definition tcp_echo :: "u16 list \<Rightarrow> u16 \<Rightarrow> rstring + nat" where
  "tcp_echo services port = (if port \<in> set services then Inr 0 else Inl (lit ''connection refused''))"

definition answering :: "u16 \<Rightarrow> 'l task list \<Rightarrow> PortMap list" where
  "answering port tasks =
     List.map_filter (\<lambda>t. case t of AcceptTcp l m \<Rightarrow> if m_local m = port then Some m else None | _ \<Rightarrow> None) tasks"

text \<open>
  A client connects to a local port and writes; \<open>None\<close> when nobody is listening or no link is up. Then
  the far side handles a stream, and the echo service sends back what reaches it.
\<close>

definition ask :: "u16 \<Rightarrow> u8 list \<Rightarrow> ('id, 'sock, 'l) System \<Rightarrow> ('id, 'sock, 'l) System option" where
  "ask port payload s =
     (case (answering port (d_tasks (sy_dial s)), link_name (sy_link s)) of
        (m # _, Some k) \<Rightarrow>
          (case forward_tcp (Inr [] :: rstring + u8 list) (\<lambda>st b. Inr (st @ b))
                  (\<lambda>_ st. (Inr (length payload, 0), st @ payload)) (0 :: nat) (m_remote m) of
             (_, Some st) \<Rightarrow>
               Some (s\<lparr>sy_streams := sy_streams s @ [(k, st)],
                       sy_log := sy_log s @ [Asked k (m_local m) (m_remote m) payload]\<rparr>)
           | (_, None) \<Rightarrow> None)
      | _ \<Rightarrow> None)"

definition carry :: "u16 list \<Rightarrow> nat \<Rightarrow> ('id, 'sock, 'l) System \<Rightarrow> ('id, 'sock, 'l) System" where
  "carry services i s =
     (case sy_streams s ! i of
        (k, st) \<Rightarrow>
          (case fmlookup (sn_conns (sy_serve s)) k of
             None \<Rightarrow> s
           | Some c \<Rightarrow>
               (case serve_stream list_read (tcp_echo services) (\<lambda>rest _. Inr (length rest, length rest))
                       (cfg_now (sy_serve s)) (cn_peer c) st of
                  (_, acts) \<Rightarrow>
                    s\<lparr>sy_streams := take i (sy_streams s) @ drop (Suc i) (sy_streams s),
                      sy_log := sy_log s @ reached k (drop 2 st) acts\<rparr>)))"

fun echoed :: "sys_event list \<Rightarrow> u8 list" where
  "echoed [] = []"
| "echoed (Reached k p x # log) = x @ echoed log"
| "echoed (Asked k l r x # log) = echoed log"

definition new_echo :: "('id, 'sock, 'l) System \<Rightarrow> ('id, 'sock, 'l) System \<Rightarrow> u8 list" where
  "new_echo s s' = echoed (drop (length (sy_log s)) (sy_log s'))"

text \<open>A refused stream is reset: the client reads nothing.\<close>

definition round_trip :: "u16 list \<Rightarrow> u16 \<Rightarrow> u8 list \<Rightarrow> ('id, 'sock, 'l) System \<Rightarrow> u8 list option" where
  "round_trip services port payload s =
     (case ask port payload s of
        None \<Rightarrow> None
      | Some s1 \<Rightarrow> Some (new_echo s1 (carry services (length (sy_streams s)) s1)))"

section \<open>The harness takes the steps of the two machines\<close>

lemma answering_mem: "m \<in> set (answering port tasks) \<longleftrightarrow> (\<exists>l. AcceptTcp l m \<in> set tasks) \<and> m_local m = port"
  by (force simp: answering_def List.map_filter_def split: task.splits if_splits)

lemma ask_step: "ask port payload s = Some s' \<Longrightarrow> sys_step s s'"
proof -
  assume a: "ask port payload s = Some s'"
  then obtain m ms k where mk: "answering port (d_tasks (sy_dial s)) = m # ms" "link_name (sy_link s) = Some k"
    by (auto simp: ask_def split: list.splits option.splits)
  then obtain l where l: "AcceptTcp l m \<in> set (d_tasks (sy_dial s))"
    using answering_mem [of m port "d_tasks (sy_dial s)"] by auto
  obtain res st where f: "forward_tcp (Inr [] :: rstring + u8 list) (\<lambda>st b. Inr (st @ b))
      (\<lambda>_ st. (Inr (length payload, 0), st @ payload)) (0 :: nat) (m_remote m) = (res, Some st)"
    by (simp add: forward_tcp_def write_target_port_def)
  show ?thesis using sys_Asks [OF l mk(2) f] a by (simp add: ask_def mk f)
qed

lemma carry_step: "i < length (sy_streams s) \<Longrightarrow> sys_run s (carry services i s)"
proof (cases "fmlookup (sn_conns (sy_serve s)) (fst (sy_streams s ! i))")
  case None
  then show ?thesis by (cases "sy_streams s ! i") (simp add: carry_def sys_run.start)
next
  case (Some c)
  assume i: "i < length (sy_streams s)"
  obtain k st where st: "sy_streams s ! i = (k, st)" by fastforce
  obtain r acts where srv: "serve_stream list_read (tcp_echo services) (\<lambda>rest _. Inr (length rest, length rest))
      (cfg_now (sy_serve s)) (cn_peer c) st = (r, acts)" by fastforce
  from sys_Carried [OF i st _ srv] Some
  show ?thesis by (auto simp: carry_def st srv intro: sys_run.more [OF sys_run.start])
qed

lemma opened_run:
  assumes "d_phase (sy_dial s) = dial_phase.Dialing" and "k \<notin> set (sy_used s)"
    and "fmlookup (sn_conns (sy_serve s)) k = None" and "last (sy_scfgs s) = cfg_now (sy_serve s)"
  shows "sys_run s (opened k s)"
proof -
  let ?s1 = "s\<lparr>sy_dial := dial_ok 0 (d_peer (sy_dial s)) [] (sy_dial s), sy_link := Arriving k, sy_used := k # sy_used s\<rparr>"
  have "sys_step s ?s1" by (rule sys_Opens [OF assms(1-3)])
  then have one: "sys_run s ?s1" by (rule sys_run.more [OF sys_run.start])
  obtain acts n where acc: "accept_conn 0 k (sy_me s) [] (sy_serve s) = (acts, n)" by fastforce
  let ?s2 = "?s1\<lparr>sy_serve := n, sy_link := link_after acts k\<rparr>"
  have "sys_step ?s1 ?s2" by (rule sys_Admits [where now = 0 and paths = "[]"]) (simp_all add: acc)
  from sys_run.more [OF one this] have two: "sys_run s ?s2" .
  show ?thesis
  proof (cases "admits (cfg_now (sy_serve s)) (sy_me s)")
    case False
    with acc assms(3) have "tasks_ready k n = n" by (auto simp: accept_conn_def tasks_ready_def)
    then show ?thesis using two by (simp add: opened_def acc)
  next
    case True
    with acc obtain c where n: "acts = []" "fmlookup (sn_conns n) k = Some c" "cn_phase c = ConnPhase.Serving"
        "cn_evict c = []" "cn_udp c = []" "cfg_now n = cfg_now (sy_serve s)"
      by (auto simp: accept_conn_def)
    let ?n3 = "evict_subscribed k c n" and ?c3 = "c\<lparr>cn_evict := [cfg_now n]\<rparr>"
    let ?s3 = "serve_acted [] ?n3 ?s2" and ?s4 = "serve_acted [] (udp_subscribed k ?c3 ?n3) (serve_acted [] ?n3 ?s2)"
    have "serve_step n [] ?n3" by (rule serve_step.EvictSubscribe) (simp_all add: n)
    then have "sys_step ?s2 ?s3"
      by (intro sys_step.Serves) (simp_all add: others_only_def evict_subscribed_def n)
    from sys_run.more [OF two this] have three: "sys_run s ?s3" .
    have "serve_step ?n3 [] (udp_subscribed k ?c3 ?n3)"
      by (rule serve_step.UdpSubscribe) (simp_all add: n evict_subscribed_def)
    then have "sys_step ?s3 ?s4"
      by (intro sys_step.Serves) (simp_all add: others_only_def udp_subscribed_def evict_subscribed_def serve_acted_def)
    from sys_run.more [OF three this] have "sys_run s ?s4" .
    then show ?thesis
      by (simp add: opened_def acc tasks_ready_def n serve_acted_def remember_def assms(4) evict_subscribed_def
          udp_subscribed_def link_after_def)
  qed
qed

text \<open>What a round trip gives in a state in which the link is up.\<close>

definition tunnel_up :: "nat \<Rightarrow> ('id, 'sock, 'l) System \<Rightarrow> bool" where
  "tunnel_up k s \<longleftrightarrow> sys_inv s \<and> d_phase (sy_dial s) = Connected \<and> sy_link s = Linked k"

lemma tunnel_upD:
  assumes "tunnel_up k s"
  shows "dial_inv (sy_dial s)" and "link_name (sy_link s) = Some k" and "online (sy_dial s)"
    and "\<exists>c. fmlookup (sn_conns (sy_serve s)) k = Some c \<and> cn_peer c = sy_me s"
  using assms by (auto simp: tunnel_up_def sys_inv_def client_ok_def server_ok_def link_ok_def online_def)

lemma ask_nobody:
  assumes "tunnel_up k s" and "fmlookup (d_bound (sy_dial s)) (Tcp, port) = None"
  shows "ask port x s = None"
proof -
  have "answering port (d_tasks (sy_dial s)) = []"
  proof (rule ccontr)
    assume "answering port (d_tasks (sy_dial s)) \<noteq> []"
    then obtain m where "m \<in> set (answering port (d_tasks (sy_dial s)))" by (cases "answering port (d_tasks (sy_dial s))") auto
    then obtain l where "AcceptTcp l m \<in> set (d_tasks (sy_dial s))" "m_local m = port" by (auto simp: answering_mem)
    with forwarders_of_listeners [OF tunnel_upD(1) [OF assms(1)]] assms(2) show False by fastforce
  qed
  then show ?thesis by (simp add: ask_def)
qed

lemma ask_listening:
  assumes "tunnel_up k s" and "fmlookup (d_bound (sy_dial s)) (Tcp, port) = Some (sock, remote)"
  shows "ask port x s =
     Some (s\<lparr>sy_streams := sy_streams s @ [(k, u16_to_be remote @ x)], sy_log := sy_log s @ [Asked k port remote x]\<rparr>)"
proof -
  note up = tunnel_upD [OF assms(1)]
  note fwd = forwarders_of_listeners [OF up(1)]
  obtain l where "sock = SockTcp l"
    using bound_okD [of "d_bound (sy_dial s)" "d_shared (sy_dial s)" Tcp port sock remote] assms(2) up(1)
    by (auto simp: dial_inv_def)
  then have "AcceptTcp l \<lparr>m_local = port, m_remote = remote\<rparr> \<in> set (d_tasks (sy_dial s))"
    using fwd [of l "\<lparr>m_local = port, m_remote = remote\<rparr>"] assms(2) up(3) by simp
  then have "\<lparr>m_local = port, m_remote = remote\<rparr> \<in> set (answering port (d_tasks (sy_dial s)))"
    unfolding answering_mem by auto
  then obtain m ms where m: "answering port (d_tasks (sy_dial s)) = m # ms"
    by (cases "answering port (d_tasks (sy_dial s))") auto
  then obtain l' where "AcceptTcp l' m \<in> set (d_tasks (sy_dial s))" "m_local m = port"
    using answering_mem [of m port "d_tasks (sy_dial s)"] by auto
  then have "m_local m = port" "m_remote m = remote" using fwd [of l' m] assms(2) by auto
  with m up(2) show ?thesis by (simp add: ask_def forward_tcp_def write_target_port_def)
qed

lemma carry_streams:
  assumes "fmlookup (sn_conns (sy_serve s)) k = Some c" and "sy_streams s ! i = (k, u16_to_be remote @ x)"
  shows "carry services i s =
     s\<lparr>sy_streams := take i (sy_streams s) @ drop (Suc i) (sy_streams s),
       sy_log := sy_log s @ (if remote \<in> set services \<and> (Tcp, remote) \<in> rights (cfg_now (sy_serve s)) (cn_peer c)
         then [Reached k remote x] else [])\<rparr>"
  using assms
  by (auto simp: carry_def serve_stream_def read_target_port_def list_read_def be16.to_be_length be16.from_to_be
      grant_list_iff tcp_echo_def)

lemma round_trip_nobody:
  "tunnel_up k s \<Longrightarrow> fmlookup (d_bound (sy_dial s)) (Tcp, port) = None \<Longrightarrow> round_trip services port x s = None"
  by (simp add: round_trip_def ask_nobody)

lemma round_trip_listening:
  assumes "tunnel_up k s" and "fmlookup (d_bound (sy_dial s)) (Tcp, port) = Some (sock, remote)"
  shows "round_trip services port x s =
     Some (if remote \<in> set services \<and> (Tcp, remote) \<in> rights (cfg_now (sy_serve s)) (sy_me s) then x else [])"
proof -
  obtain c where c: "fmlookup (sn_conns (sy_serve s)) k = Some c" "cn_peer c = sy_me s"
    using tunnel_upD(4) [OF assms(1)] by blast
  let ?s1 = "s\<lparr>sy_streams := sy_streams s @ [(k, u16_to_be remote @ x)], sy_log := sy_log s @ [Asked k port remote x]\<rparr>"
  have "carry services (length (sy_streams s)) ?s1 =
      ?s1\<lparr>sy_streams := sy_streams s,
         sy_log := sy_log ?s1 @ (if remote \<in> set services \<and> (Tcp, remote) \<in> rights (cfg_now (sy_serve s)) (sy_me s)
           then [Reached k remote x] else [])\<rparr>"
    using carry_streams [of ?s1 k c "length (sy_streams s)" remote x services] c by simp
  then show ?thesis by (simp add: round_trip_def ask_listening [OF assms] new_echo_def)
qed

section \<open>Live tunnels\<close>

text \<open>What the harness needs of its surroundings: the TOML library prints, the ports are free.\<close>

definition rig_ok :: "('id, 'l) Rig \<Rightarrow> bool" where
  "rig_ok rig \<longleftrightarrow> (\<forall>c. config_wf c \<longrightarrow> (\<exists>t. rg_toml rig c = Inr t)) \<and> (\<forall>proto port. \<exists>l. rg_os rig proto port = Inr l)"

lemma rig_okD:
  assumes "rig_ok rig"
  shows "config_wf c \<Longrightarrow> \<exists>t. rg_toml rig c = Inr t" and "\<exists>l. rg_os rig proto port = Inr l"
    and "\<exists>l. bind_one (rg_os rig) b = Inr l"
proof -
  show "config_wf c \<Longrightarrow> \<exists>t. rg_toml rig c = Inr t" and "\<exists>l. rg_os rig proto port = Inr l"
    using assms by (auto simp: rig_ok_def)
  obtain l where "rg_os rig (b_proto b) (b_local b) = Inr l" using assms unfolding rig_ok_def by blast
  then show "\<exists>l. bind_one (rg_os rig) b = Inr l" by (cases "b_proto b") simp_all
qed

lemma test_entries [simp]:
  "o_proto (test_offer proto port) = proto" "o_port (test_offer proto port) = port"
  "o_name (test_offer proto port) = []" "o_enabled (test_offer proto port)"
  "p_id (test_peer i name on offers) = i" "p_name (test_peer i name on offers) = lit name"
  "p_enabled (test_peer i name on offers) = on" "p_offers (test_peer i name on offers) = offers"
  "b_proto (test_binding proto local remote) = proto" "b_local (test_binding proto local remote) = local"
  "b_remote (test_binding proto local remote) = remote" "b_name (test_binding proto local remote) = []"
  "b_enabled (test_binding proto local remote)"
  by (simp_all add: test_offer_def test_peer_def test_binding_def)

lemma default_lists [simp]:
  "shared_of default_config = []" "peers_of default_config = []" "bindings_of default_config = []"
  by (simp_all add: default_config_def)

lemma lit_Nil [simp]: "lit [] = []"
  by (simp add: lit_def)

lemma shared_serve_simps [simp]:
  "shared_of (sh_cfg (shared_serve r allow off)) = map (test_offer Tcp) (of_tcp off) @ map (test_offer Udp) (of_udp off)"
  "peers_of (sh_cfg (shared_serve r allow off)) = map (\<lambda>i. test_peer i [] True []) allow"
  "bindings_of (sh_cfg (shared_serve r allow off)) = []"
  "sh_path (shared_serve r allow off) = temp_config_path r"
  by (simp_all add: shared_serve_def shared_new_def)

lemma shared_connect_simps [simp]:
  "bindings_of (sh_cfg (shared_connect r tcp udp)) =
     map (\<lambda>m. test_binding Tcp (m_local m) (m_remote m)) tcp @ map (\<lambda>m. test_binding Udp (m_local m) (m_remote m)) udp"
  "shared_of (sh_cfg (shared_connect r tcp udp)) = []" "peers_of (sh_cfg (shared_connect r tcp udp)) = []"
  "sh_path (shared_connect r tcp udp) = temp_config_path r"
  "live_of (shared_connect r tcp udp) = fmempty"
  by (simp_all add: shared_connect_def shared_new_def)

lemma shared_serve_rights:
  "(proto, port) \<in> rights (sh_cfg (shared_serve r [i] off)) i \<longleftrightarrow>
     port \<in> set (case proto of Tcp \<Rightarrow> of_tcp off | Udp \<Rightarrow> of_udp off)"
  by (cases proto) (auto simp: rights_def cfg_peer_def offer_key_def bex_Un)

lemma shared_connect_wf:
  "(\<forall>m \<in> set tcp \<union> set udp. m_local m \<noteq> 0 \<and> m_remote m \<noteq> 0) \<Longrightarrow>
     distinct (map m_local tcp) \<Longrightarrow> distinct (map m_local udp) \<Longrightarrow>
     config_wf (sh_cfg (shared_connect r tcp udp))"
  by (auto simp: config_wf_def offers_wf_def peers_wf_def bindings_wf_def binding_wf_def binding_key_def
      distinct_map comp_def inj_on_def)

lemma opened_phase: "d_phase (sy_dial (opened k s)) = Connected"
  by (simp add: opened_def dial_ok_def split: prod.splits)

lemma opened_frame:
  "sy_me (opened k s) = sy_me s" "d_bound (sy_dial (opened k s)) = d_bound (sy_dial s)"
  "sh_cfg (d_shared (sy_dial (opened k s))) = sh_cfg (d_shared (sy_dial s))"
  "cfg_now (sy_serve (opened k s)) = cfg_now (sy_serve s)"
  "sy_streams (opened k s) = sy_streams s" "sy_log (opened k s) = sy_log s"
  by (auto simp: opened_def dial_ok_def accept_conn_def tasks_ready_def evict_subscribed_def udp_subscribed_def
      split: prod.splits option.splits if_splits)

lemma opened_link:
  assumes "admits (cfg_now (sy_serve s)) (sy_me s)"
  shows "sy_link (opened k s) = Linked k"
  using assms by (simp add: opened_def accept_conn_def link_after_def)

text \<open>A tunnel the harness has set up is up, and stays so under the edits of the tests.\<close>

lemma started_facts:
  assumes "rig_ok rig" and "config_wf (sh_cfg cs)" and "live_of cs = fmempty"
    and s0_def: "s0 = sys_start (rg_os rig) me peer ss cs"
  shows "sys_inv s0" and "d_phase (sy_dial s0) = dial_phase.Dialing"
    and "sh_cfg (d_shared (sy_dial s0)) = sh_cfg cs"
    and "fmlookup (d_bound (sy_dial s0)) (proto, port) = None \<longleftrightarrow>
           (proto, port) \<notin> binding_key ` set (active_bindings (sh_cfg cs))"
    and "b \<in> set (active_bindings (sh_cfg cs)) \<Longrightarrow>
           \<exists>sock. fmlookup (d_bound (sy_dial s0)) (binding_key b) = Some (sock, b_remote b)"
proof -
  show "sys_inv s0" unfolding s0_def by (rule sys_inv_start [OF assms(2,3)])
  obtain ch bound s' where rec: "reconcile (rg_os rig) (wanted cs) fmempty cs = (ch, bound, s')"
    by (cases "reconcile (rg_os rig) (wanted cs) fmempty cs")
  note R = reconcile_table [OF rec wanted_distinct [OF assms(2)]]
  have bd: "d_bound (sy_dial s0) = bound" by (simp add: s0_def sys_start_def loop_start_def rec)
  have listens: "\<exists>sock. fmlookup bound (binding_key b) = Some (sock, b_remote b)" if "b \<in> set (wanted cs)" for b
  proof -
    from rig_okD(3) [OF assms(1), of b] obtain sock where "bind_one (rg_os rig) b = Inr sock" by blast
    with R that show ?thesis by (simp add: want_step_def)
  qed
  then show "b \<in> set (active_bindings (sh_cfg cs)) \<Longrightarrow>
      \<exists>sock. fmlookup (d_bound (sy_dial s0)) (binding_key b) = Some (sock, b_remote b)"
    by (simp add: bd)
  have "fmlookup bound k = None \<longleftrightarrow> k \<notin> binding_key ` set (wanted cs)" for k
    using R listens by fastforce
  then show "fmlookup (d_bound (sy_dial s0)) (proto, port) = None \<longleftrightarrow>
      (proto, port) \<notin> binding_key ` set (active_bindings (sh_cfg cs))" by (simp add: bd)
  have "bound \<noteq> fmempty" if "wanted cs \<noteq> []"
  proof -
    from that obtain b bs where "wanted cs = b # bs" by (cases "wanted cs") auto
    with listens [of b] show ?thesis by auto
  qed
  then show "d_phase (sy_dial s0) = dial_phase.Dialing" by (auto simp: s0_def sys_start_def loop_start_def rec)
  show "sh_cfg (d_shared (sy_dial s0)) = sh_cfg cs"
    using R by (simp add: s0_def sys_start_def loop_start_def rec)
qed

lemma opened_up:
  assumes "sys_inv s" and "d_phase (sy_dial s) = dial_phase.Dialing" and "k \<notin> set (sy_used s)"
    and "fmlookup (sn_conns (sy_serve s)) k = None" and "last (sy_scfgs s) = cfg_now (sy_serve s)"
    and "admits (cfg_now (sy_serve s)) (sy_me s)"
  shows "tunnel_up k (opened k s)"
  using sys_run_inv [OF opened_run [OF assms(2-5)] assms(1)] opened_phase opened_link [OF assms(6)]
  by (auto simp: tunnel_up_def)

lemma serve_mutate_up:
  fixes rig :: "('id, 'l) Rig"
  assumes "rig_ok rig" and "tunnel_up k (li_sys live)" and "f (cfg_now (sy_serve (li_sys live))) = Inr c"
    and "config_wf c" and "sh_path (sn_shared (sy_serve (li_sys live))) = [dir, file]"
  shows "\<exists>live'. serve_mutate rig f live = Some live' \<and> tunnel_up k (li_sys live') \<and>
           cfg_now (sy_serve (li_sys live')) = c \<and> sy_dial (li_sys live') = sy_dial (li_sys live) \<and>
           sy_me (li_sys live') = sy_me (li_sys live)"
proof -
  let ?s = "li_sys live"
  obtain t where t: "rg_toml rig c = Inr t" using rig_okD(1) [OF assms(1,4)] by blast
  obtain files where run: "test_mutate (rg_toml rig) f (sn_shared (sy_serve ?s), li_serve_disk live) =
      (Inr (), (sn_shared (sy_serve ?s))\<lparr>sh_cfg := c\<rparr>, files)"
    using test_mutate_ok [of f "sn_shared (sy_serve ?s)" c dir "file" "rg_toml rig" t "li_serve_disk live"] assms(3-5) t
    by blast
  let ?n = "publish ((sn_shared (sy_serve ?s))\<lparr>sh_cfg := c\<rparr>) (sy_serve ?s)"
  have "serve_step (sy_serve ?s) [] ?n"
    using run unfolding test_mutate_def by (rule serve_step.Edit)
  then have "sys_step ?s (serve_acted [] ?n ?s)"
    by (rule sys_step.Serves) (simp add: others_only_def publish_def)
  then have "sys_inv (serve_acted [] ?n ?s)" using assms(2) sys_inv_step by (auto simp: tunnel_up_def)
  with assms(2) show ?thesis
    by (simp add: serve_mutate_def run tunnel_up_def) (simp add: serve_acted_def link_after_def publish_def)
qed

lemma connect_mutate_up:
  fixes rig :: "('id, 'l) Rig"
  assumes "rig_ok rig" and "tunnel_up k (li_sys live)" and "f (sh_cfg (d_shared (sy_dial (li_sys live)))) = Inr c"
    and "config_wf c" and "sh_path (d_shared (sy_dial (li_sys live))) = [dir, file]"
  shows "\<exists>live'. connect_mutate rig f live = Some live' \<and> tunnel_up k (li_sys live') \<and>
           sy_serve (li_sys live') = sy_serve (li_sys live) \<and> sy_me (li_sys live') = sy_me (li_sys live) \<and>
           sh_cfg (d_shared (sy_dial (li_sys live'))) = c \<and>
           sh_path (d_shared (sy_dial (li_sys live'))) = [dir, file] \<and>
           (\<forall>b \<in> set (active_bindings c). \<exists>sock.
              fmlookup (d_bound (sy_dial (li_sys live'))) (binding_key b) = Some (sock, b_remote b)) \<and>
           (\<forall>key. key \<notin> binding_key ` set (active_bindings c) \<longrightarrow>
              fmlookup (d_bound (sy_dial (li_sys live'))) key = None)"
proof -
  let ?s = "li_sys live" and ?d = "sy_dial (li_sys live)"
  obtain t where t: "rg_toml rig c = Inr t" using rig_okD(1) [OF assms(1,4)] by blast
  obtain files where run: "test_mutate (rg_toml rig) f (d_shared ?d, li_connect_disk live) =
      (Inr (), (d_shared ?d)\<lparr>sh_cfg := c\<rparr>, files)"
    using test_mutate_ok [of f "d_shared ?d" c dir "file" "rg_toml rig" t "li_connect_disk live"] assms(3-5) t
    by blast
  let ?d1 = "?d\<lparr>d_shared := (d_shared ?d)\<lparr>sh_cfg := c\<rparr>\<rparr>"
  let ?s1 = "dial_acted ?d1 ?s" and ?d2 = "connected_changed (rg_os rig) ?d1"
  let ?s2 = "dial_acted ?d2 ?s1"
  have "dial_step ?d ?d1" using run unfolding test_mutate_def by (rule dial_step.Edit)
  then have "sys_step ?s ?s1" by (rule sys_Dials) (simp add: online_def)
  then have one: "sys_inv ?s1" using assms(2) sys_inv_step by (auto simp: tunnel_up_def)
  have on: "d_phase ?d1 = Connected" using assms(2) by (simp add: tunnel_up_def)
  have phase: "d_phase ?d2 = d_phase ?d1" by (simp add: connected_changed_def split: prod.splits)
  have "sys_step ?s1 ?s2"
    by (rule sys_Dials) (simp_all add: dial_acted_def dial_step.Changed [OF on] phase online_def)
  then have two: "sys_inv ?s2" using one by (rule sys_inv_step)
  obtain ch bound s' where rec: "reconcile (rg_os rig) (wanted (d_shared ?d1)) (d_bound ?d1) (d_shared ?d1) = (ch, bound, s')"
    by (cases "reconcile (rg_os rig) (wanted (d_shared ?d1)) (d_bound ?d1) (d_shared ?d1)")
  have wf: "config_wf (sh_cfg (d_shared ?d1))" by (simp add: assms(4))
  have d2: "d_bound ?d2 = bound" "d_shared ?d2 = s'" unfolding connected_changed_def rec by simp_all
  have R: "\<forall>b \<in> set (active_bindings c). fmlookup bound (binding_key b) = want_step (rg_os rig) b (fmlookup (d_bound ?d) (binding_key b))"
    "\<forall>key. key \<notin> binding_key ` set (active_bindings c) \<longrightarrow> fmlookup bound key = None"
    using reconcile_table [OF rec wanted_distinct [OF wf]] by simp_all
  have "\<exists>sock. fmlookup bound (binding_key b) = Some (sock, b_remote b)" if b: "b \<in> set (active_bindings c)" for b
  proof -
    from rig_okD(3) [OF assms(1), of b] obtain sock where "bind_one (rg_os rig) b = Inr sock" by blast
    with R(1) b show ?thesis by (cases "fmlookup (d_bound ?d) (binding_key b)") (auto simp: want_step_def)
  qed
  moreover have "sh_cfg s' = c" "sh_path s' = [dir, file]"
    using reconcile_frame [OF rec wf] reconcile_path [OF rec] assms(5) by simp_all
  moreover have "connect_mutate rig f live = Some (live\<lparr>li_sys := ?s2, li_connect_disk := files\<rparr>)"
    by (simp add: connect_mutate_def run Let_def) (simp add: dial_acted_def)
  moreover have "tunnel_up k ?s2" using two on phase assms(2) by (simp add: tunnel_up_def) (simp add: dial_acted_def)
  ultimately show ?thesis
    using R(2) d2 by (intro exI [of _ "live\<lparr>li_sys := ?s2, li_connect_disk := files\<rparr>"]) (simp add: dial_acted_def)
qed

lemma opened_paths:
  "sh_path (sn_shared (sy_serve (opened k s))) = sh_path (sn_shared (sy_serve s))"
  "sh_path (d_shared (sy_dial (opened k s))) = sh_path (d_shared (sy_dial s))"
  by (auto simp: opened_def dial_ok_def accept_conn_def tasks_ready_def evict_subscribed_def udp_subscribed_def
      log_selected_def peer_connected_def split: prod.splits option.splits if_splits)

lemma shared_serve_admits: "admits (sh_cfg (shared_serve r allow off)) i \<longleftrightarrow> i \<in> set allow"
  by (induction allow) (auto simp: admits_def cfg_peer_def)

lemma live_facts:
  fixes rig :: "('id, 'l) Rig"
  assumes "rig_ok rig" and "config_wf (sh_cfg (shared_connect (rg_random rig) tcp udp :: 'id Shared))"
    and live: "live = live_tunnel rig off tcp udp"
  shows "tunnel_up 0 (li_sys live)" and "sy_me (li_sys live) = rg_client rig"
    and "cfg_now (sy_serve (li_sys live)) = sh_cfg (shared_serve (rg_random rig) [rg_client rig] off)"
    and "sh_cfg (d_shared (sy_dial (li_sys live))) = sh_cfg (shared_connect (rg_random rig) tcp udp)"
    and "sh_path (sn_shared (sy_serve (li_sys live))) = temp_config_path (rg_random rig)"
    and "sh_path (d_shared (sy_dial (li_sys live))) = temp_config_path (rg_random rig)"
    and "m \<in> set tcp \<Longrightarrow> \<exists>sock. fmlookup (d_bound (sy_dial (li_sys live))) (Tcp, m_local m) = Some (sock, m_remote m)"
    and "m \<in> set udp \<Longrightarrow> \<exists>sock. fmlookup (d_bound (sy_dial (li_sys live))) (Udp, m_local m) = Some (sock, m_remote m)"
    and "port \<notin> m_local ` set tcp \<Longrightarrow> fmlookup (d_bound (sy_dial (li_sys live))) (Tcp, port) = None"
    and "sy_streams (li_sys live) = []"
proof -
  let ?cs = "shared_connect (rg_random rig) tcp udp :: 'id Shared"
  let ?ss = "shared_serve (rg_random rig) [rg_client rig] off"
  define s0 :: "('id, nat, 'l) System" where "s0 = sys_start (rg_os rig) (rg_client rig) (rg_server rig) ?ss ?cs"
  note F = started_facts [OF assms(1,2) _ s0_def, simplified]
  have li: "li_sys live = opened 0 s0" by (simp add: live live_tunnel_def s0_def)
  have s0: "sy_me s0 = rg_client rig" "cfg_now (sy_serve s0) = sh_cfg ?ss" "sy_streams s0 = []" "sy_used s0 = []"
      "sn_conns (sy_serve s0) = fmempty" "last (sy_scfgs s0) = sh_cfg ?ss" "sn_shared (sy_serve s0) = ?ss"
    by (simp_all add: s0_def sys_start_def serve_start_def)
  show "tunnel_up 0 (li_sys live)"
    unfolding li using F(1,2) by (intro opened_up) (simp_all add: s0 shared_serve_admits)
  show "sy_me (li_sys live) = rg_client rig" and "cfg_now (sy_serve (li_sys live)) = sh_cfg ?ss"
    and "sy_streams (li_sys live) = []"
    and "sh_cfg (d_shared (sy_dial (li_sys live))) = sh_cfg ?cs"
    and "sh_path (sn_shared (sy_serve (li_sys live))) = temp_config_path (rg_random rig)"
    unfolding li by (simp_all add: opened_frame opened_paths s0 F(3))
  have "sh_path (d_shared (sy_dial s0)) = sh_path ?cs"
    unfolding s0_def sys_start_def loop_start_def
    by (auto dest: reconcile_path split: prod.splits)
  then show "sh_path (d_shared (sy_dial (li_sys live))) = temp_config_path (rg_random rig)"
    unfolding li by (simp add: opened_paths)
  have act: "set (active_bindings (sh_cfg ?cs)) =
      (\<lambda>m. test_binding Tcp (m_local m) (m_remote m)) ` set tcp \<union> (\<lambda>m. test_binding Udp (m_local m) (m_remote m)) ` set udp"
    by (auto simp: active_bindings_def)
  show "\<exists>sock. fmlookup (d_bound (sy_dial (li_sys live))) (Tcp, m_local m) = Some (sock, m_remote m)" if "m \<in> set tcp"
    using F(5) [of "test_binding Tcp (m_local m) (m_remote m)"] that
    by (simp add: li opened_frame act binding_key_def)
  show "\<exists>sock. fmlookup (d_bound (sy_dial (li_sys live))) (Udp, m_local m) = Some (sock, m_remote m)" if "m \<in> set udp"
    using F(5) [of "test_binding Udp (m_local m) (m_remote m)"] that
    by (simp add: li opened_frame act binding_key_def)
  show "fmlookup (d_bound (sy_dial (li_sys live))) (Tcp, port) = None" if "port \<notin> m_local ` set tcp"
    using that by (auto simp: li opened_frame F(4) act binding_key_def)
qed

section \<open>The tests\<close>

abbreviation bytes :: "string \<Rightarrow> u8 list" where
  "bytes s \<equiv> as_bytes (lit s)"

abbreviation no_offers :: Offered where
  "no_offers \<equiv> \<lparr>of_tcp = [], of_udp = []\<rparr>"

abbreviation tcp_offer :: "u16 \<Rightarrow> Offered" where
  "tcp_offer port \<equiv> \<lparr>of_tcp = [port], of_udp = []\<rparr>"

abbreviation port_map :: "u16 \<Rightarrow> u16 \<Rightarrow> PortMap" where
  "port_map local remote \<equiv> \<lparr>m_local = local, m_remote = remote\<rparr>"

subsection \<open>Traffic\<close>

definition exact_payload :: "u8 list" where
  "exact_payload = map (\<lambda>i. word_of_nat (i mod 251)) [0..<40000]"

definition tcp_round_trip_is_byte_exact :: "('id, 'l) Rig \<Rightarrow> u16 \<Rightarrow> u16 \<Rightarrow> bool" where
  "tcp_round_trip_is_byte_exact rig local remote \<longleftrightarrow>
     (let live = live_tunnel rig (tcp_offer remote) [port_map local remote] []
      in round_trip [remote] local exact_payload (li_sys live) = Some exact_payload)"

text \<open>Both clients have written before the far side handles the one stream and then the other.\<close>

definition concurrent_tcp_connections_do_not_interleave :: "('id, 'l) Rig \<Rightarrow> u16 \<Rightarrow> u16 \<Rightarrow> bool" where
  "concurrent_tcp_connections_do_not_interleave rig local remote \<longleftrightarrow>
     (let live = live_tunnel rig (tcp_offer remote) [port_map local remote] [];
          red = replicate (64 * 1024) 0xA5; blue = replicate (48 * 1024) 0x5A
      in case ask local red (li_sys live) of
           None \<Rightarrow> False
         | Some s1 \<Rightarrow>
             (case ask local blue s1 of
                None \<Rightarrow> False
              | Some s2 \<Rightarrow>
                  (let r = carry [remote] 0 s2; rb = carry [remote] 0 r;
                       b = carry [remote] 1 s2; br = carry [remote] 0 b
                   in new_echo s2 r = red \<and> new_echo r rb = blue \<and> new_echo s2 b = blue \<and> new_echo b br = red)))"

definition udp_listening :: "u16 \<Rightarrow> 'l task list \<Rightarrow> ('l \<times> PortMap) list" where
  "udp_listening port tasks =
     List.map_filter (\<lambda>t. case t of PumpOut l m \<Rightarrow> if m_local m = port then Some (l, m) else None | _ \<Rightarrow> None) tasks"

text \<open>
  A datagram arrives at the pump of the far side; what its session's socket sends, the echo service
  sends back to that socket.
\<close>

definition udp_echo ::
  "'id Config \<Rightarrow> 'id \<Rightarrow> nat \<Rightarrow> u8 list option \<Rightarrow> nat serve_table \<Rightarrow> u8 list option \<times> nat serve_table" where
  "udp_echo cfg peer sock dg t =
     (case dg of
        None \<Rightarrow> (None, t)
      | Some dg \<Rightarrow>
          (case serve_datagram (Inr sock :: rstring + nat) (\<lambda>_ _. Inr ()) (\<lambda>_ _. Inr ()) 0 cfg peer dg t of
             (_, acts, t') \<Rightarrow>
               (case (decode_datagram dg, rev acts) of
                  (Some (i, _, _), UdpSend _ x # _) \<Rightarrow> serve_reply 0 i (Inr x :: rstring + u8 list) t'
                | _ \<Rightarrow> (None, t'))))"

definition udp_replies_reach_the_correct_local_source :: "('id, 'l) Rig \<Rightarrow> u16 \<Rightarrow> u16 \<Rightarrow> 'a \<Rightarrow> 'a \<Rightarrow> bool" where
  "udp_replies_reach_the_correct_local_source rig local remote one' two' \<longleftrightarrow>
     (let live = live_tunnel rig \<lparr>of_tcp = [], of_udp = [remote]\<rparr> [] [port_map local remote];
          s = li_sys live; cfg = cfg_now (sy_serve s); me = sy_me s
      in case udp_listening local (d_tasks (sy_dial s)) of
           [] \<Rightarrow> False
         | (l, m) # _ \<Rightarrow>
             (let (a, t1) = udp_out 0 one' l m (bytes ''one'') no_sessions;
                  (b, t2) = udp_out 0 two' l m (bytes ''two'') t1;
                  (ra, st1) = udp_echo cfg me 1 a fmempty;
                  (rb, st2) = udp_echo cfg me 2 b st1
              in (case (ra, rb) of
                    (Some ra, Some rb) \<Rightarrow>
                      (let (got_a, t3) = udp_in 0 ra t2; (got_b, t4) = udp_in 0 rb t3
                       in got_a = Some (l, one', bytes ''one'') \<and> got_b = Some (l, two', bytes ''two''))
                  | _ \<Rightarrow> False)))"

lemma tcp_round_trip_is_byte_exact:
  assumes "rig_ok rig" and "local \<noteq> 0" and "remote \<noteq> 0"
  shows "tcp_round_trip_is_byte_exact rig local remote"
proof -
  have wf: "config_wf (sh_cfg (shared_connect (rg_random rig) [port_map local remote] []))"
    using assms(2,3) by (simp add: shared_connect_wf)
  note L = live_facts [OF assms(1) wf refl, where off = "tcp_offer remote"]
  obtain sock where "fmlookup (d_bound (sy_dial (li_sys (live_tunnel rig (tcp_offer remote) [port_map local remote] [])))) (Tcp, local) = Some (sock, remote)"
    using L(7) [of "port_map local remote"] by auto
  from round_trip_listening [OF L(1) this] show ?thesis
    by (simp add: tcp_round_trip_is_byte_exact_def L(2,3) shared_serve_rights)
qed

lemma concurrent_tcp_connections_do_not_interleave:
  assumes "rig_ok rig" and "local \<noteq> 0" and "remote \<noteq> 0"
  shows "concurrent_tcp_connections_do_not_interleave rig local remote"
proof -
  have wf: "config_wf (sh_cfg (shared_connect (rg_random rig) [port_map local remote] []))"
    using assms(2,3) by (simp add: shared_connect_wf)
  let ?s = "li_sys (live_tunnel rig (tcp_offer remote) [port_map local remote] [])"
  note L = live_facts [OF assms(1) wf refl, where off = "tcp_offer remote"]
  obtain sock where b: "fmlookup (d_bound (sy_dial ?s)) (Tcp, local) = Some (sock, remote)"
    using L(7) [of "port_map local remote"] by auto
  let ?st = "\<lambda>x. (0 :: nat, u16_to_be remote @ x)"
  let ?s1 = "\<lambda>red. ?s\<lparr>sy_streams := [?st red], sy_log := sy_log ?s @ [Asked 0 local remote red]\<rparr>"
  have one: "ask local red ?s = Some (?s1 red)" for red
    by (simp add: ask_listening [OF L(1) b] L(10))
  have "tunnel_up 0 (?s1 red)" for red
    using sys_inv_step [OF ask_step [OF one]] L(1) unfolding tunnel_up_def by simp
  from ask_listening [OF this, where port = local and sock = sock and remote = remote] b
  have two: "ask local blue (?s1 red) = Some ((?s1 red)\<lparr>sy_streams := [?st red, ?st blue],
      sy_log := sy_log (?s1 red) @ [Asked 0 local remote blue]\<rparr>)" for red blue by simp
  obtain c where c: "fmlookup (sn_conns (sy_serve ?s)) 0 = Some c" "cn_peer c = sy_me ?s"
    using tunnel_upD(4) [OF L(1)] by blast
  have gr: "(Tcp, remote) \<in> rights (cfg_now (sy_serve ?s)) (sy_me ?s)" by (simp add: L(2,3) shared_serve_rights)
  have carried: "carry [remote] i t = t\<lparr>sy_streams := take i (sy_streams t) @ drop (Suc i) (sy_streams t),
      sy_log := sy_log t @ [Reached 0 remote x]\<rparr>"
    if "sy_serve t = sy_serve ?s" "sy_streams t ! i = ?st x" for t i x
    using carry_streams [of t 0 c i remote x "[remote]"] that c gr by simp
  have "(case ask local red ?s of None \<Rightarrow> False
      | Some s1 \<Rightarrow> (case ask local blue s1 of None \<Rightarrow> False
         | Some s2 \<Rightarrow> (let r = carry [remote] 0 s2; rb = carry [remote] 0 r;
                        b = carry [remote] 1 s2; br = carry [remote] 0 b
                    in new_echo s2 r = red \<and> new_echo r rb = blue \<and> new_echo s2 b = blue \<and> new_echo b br = red)))"
    for red blue
    by (simp add: one two Let_def carried [of _ _ red] carried [of _ _ blue] new_echo_def)
  then show ?thesis by (simp only: concurrent_tcp_connections_do_not_interleave_def Let_def)
qed

lemma udp_listening_mem:
  "(l, m) \<in> set (udp_listening port tasks) \<longleftrightarrow> PumpOut l m \<in> set tasks \<and> m_local m = port"
  by (induction tasks) (auto simp: udp_listening_def List.map_filter_simps split: task.splits)

lemma udp_forwarder:
  assumes "tunnel_up k s" and "fmlookup (d_bound (sy_dial s)) (Udp, port) = Some (sock, remote)"
  shows "\<exists>l rest. udp_listening port (d_tasks (sy_dial s)) = (l, port_map port remote) # rest"
proof -
  note up = tunnel_upD [OF assms(1)]
  note fwd = forwarders_of_listeners [OF up(1)]
  obtain l where "sock = SockUdp l"
    using bound_okD [of "d_bound (sy_dial s)" "d_shared (sy_dial s)" Udp port sock remote] assms(2) up(1)
    by (auto simp: dial_inv_def)
  then have "(l, port_map port remote) \<in> set (udp_listening port (d_tasks (sy_dial s)))"
    using fwd [of l "port_map port remote"] assms(2) up(3) by (simp add: udp_listening_mem)
  then obtain l' m ms where lm: "udp_listening port (d_tasks (sy_dial s)) = (l', m) # ms"
    by (cases "udp_listening port (d_tasks (sy_dial s))") auto
  then have "PumpOut l' m \<in> set (d_tasks (sy_dial s)) \<and> m_local m = port"
    using udp_listening_mem [of l' m port "d_tasks (sy_dial s)"] by simp
  then have "m = port_map port remote" using fwd [of l' m] assms(2) by (cases m) auto
  with lm show ?thesis by simp
qed

lemma udp_echo_fresh:
  assumes "(Udp, port) \<in> rights cfg peer" and "fmlookup t i = None"
  shows "udp_echo cfg peer sock (Some (encode_datagram i port x)) t =
    (Some (encode_datagram i port x), fmupd i \<lparr>ss_sock = sock, ss_reply = True, ss_last = 0, ss_port = port\<rparr> t)"
  using assms by (simp add: udp_echo_def serve_datagram_def grant_list_iff serve_touch_def open_session_def
      send_local_def serve_reply_def fmupd_same)

lemma udp_replies_reach_the_correct_local_source:
  assumes "rig_ok rig" and "local \<noteq> 0" and "remote \<noteq> 0" and "one' \<noteq> two'"
  shows "udp_replies_reach_the_correct_local_source rig local remote one' two'"
proof -
  have wf: "config_wf (sh_cfg (shared_connect (rg_random rig) [] [port_map local remote]))"
    using assms(2,3) by (simp add: shared_connect_wf)
  let ?off = "\<lparr>of_tcp = [], of_udp = [remote]\<rparr>"
  note L = live_facts [OF assms(1) wf refl, where off = ?off]
  let ?s = "li_sys (live_tunnel rig ?off [] [port_map local remote])"
  obtain sock where b: "fmlookup (d_bound (sy_dial ?s)) (Udp, local) = Some (sock, remote)"
    using L(8) [of "port_map local remote"] by auto
  obtain l rest where tasks: "udp_listening local (d_tasks (sy_dial ?s)) = (l, port_map local remote) # rest"
    using udp_forwarder [OF L(1) b] by blast
  have gr: "(Udp, remote) \<in> rights (cfg_now (sy_serve ?s)) (sy_me ?s)" by (simp add: L(2,3) shared_serve_rights)
  show ?thesis
    using assms(4)
    by (simp add: udp_replies_reach_the_correct_local_source_def tasks udp_out_def id_for_def no_sessions_def
        udp_echo_fresh [OF gr] udp_in_def reply_route_def)
qed

subsection \<open>Admission\<close>

text \<open>A raw connection to the offering side: the close code, if it is turned away.\<close>

definition dialed :: "nat \<Rightarrow> 'id \<Rightarrow> ('id, nat) ServeNode \<Rightarrow> (u32 \<times> rstring) option \<times> ('id, nat) ServeNode" where
  "dialed k i n = (case accept_conn 0 k i [] n of (acts, n') \<Rightarrow> (close_of k acts, tasks_ready k n'))"

definition allowlist_admits_only_listed_peers :: "rstring \<Rightarrow> 'id \<Rightarrow> 'id \<Rightarrow> bool" where
  "allowlist_admits_only_listed_peers random allowed stranger \<longleftrightarrow>
     (let n = serve_start (shared_serve random [allowed] no_offers);
          (c1, n1) = dialed 0 stranger n;
          (c2, n2) = dialed 1 allowed n1
      in map_option fst c1 = Some REFUSED \<and> c2 = None)"

definition a_refused_connect_gives_up_instead_of_retrying :: "('id, 'l) Rig \<Rightarrow> 'id \<Rightarrow> bool" where
  "a_refused_connect_gives_up_instead_of_retrying rig someone_else \<longleftrightarrow>
     (let s = opened 0
            (sys_start (rg_os rig) (rg_client rig) (rg_server rig)
              (shared_serve (rg_random rig) [someone_else] no_offers) (shared_connect (rg_random rig) [] [])
             :: ('id, nat, 'l) System)
      in case sy_link s of
           ClosedBy k code why \<Rightarrow>
             (case d_phase (conn_closed 0 (ApplicationClosed why (unat code)) (sy_dial s)) of
                Exited e \<Rightarrow> True | _ \<Rightarrow> False)
         | _ \<Rightarrow> False)"

definition unoffered_tcp_port_is_refused :: "('id, 'l) Rig \<Rightarrow> u16 \<Rightarrow> u16 \<Rightarrow> u16 \<Rightarrow> bool" where
  "unoffered_tcp_port_is_refused rig local offered unoffered \<longleftrightarrow>
     (let live = live_tunnel rig (tcp_offer offered) [port_map local unoffered] []
      in round_trip [offered, unoffered] local (bytes ''knock knock'') (li_sys live) = Some [])"

lemma allowlist_admits_only_listed_peers:
  "allowed \<noteq> stranger \<Longrightarrow> allowlist_admits_only_listed_peers random allowed stranger"
  by (simp add: allowlist_admits_only_listed_peers_def dialed_def accept_conn_def serve_start_def
      shared_serve_admits tasks_ready_def)

lemma a_refused_connect_gives_up_instead_of_retrying:
  "rg_client rig \<noteq> someone_else \<Longrightarrow> a_refused_connect_gives_up_instead_of_retrying rig someone_else"
  by (simp add: a_refused_connect_gives_up_instead_of_retrying_def opened_def sys_start_def serve_start_def
      accept_conn_def shared_serve_admits link_after_def conn_closed_def Let_def)

lemma unoffered_tcp_port_is_refused:
  assumes "rig_ok rig" and "local \<noteq> 0" and "unoffered \<noteq> 0" and "offered \<noteq> unoffered"
  shows "unoffered_tcp_port_is_refused rig local offered unoffered"
proof -
  have wf: "config_wf (sh_cfg (shared_connect (rg_random rig) [port_map local unoffered] []))"
    using assms(2,3) by (simp add: shared_connect_wf)
  note L = live_facts [OF assms(1) wf refl, where off = "tcp_offer offered"]
  obtain sock where "fmlookup (d_bound (sy_dial (li_sys (live_tunnel rig (tcp_offer offered) [port_map local unoffered] [])))) (Tcp, local) = Some (sock, unoffered)"
    using L(7) [of "port_map local unoffered"] by auto
  from round_trip_listening [OF L(1) this] assms(4) show ?thesis
    by (simp add: unoffered_tcp_port_is_refused_def L(2,3) shared_serve_rights)
qed

subsection \<open>Reconfiguration\<close>

definition offering_a_port_at_runtime_makes_it_reachable :: "('id, 'l) Rig \<Rightarrow> u16 \<Rightarrow> u16 \<Rightarrow> bool" where
  "offering_a_port_at_runtime_makes_it_reachable rig local remote \<longleftrightarrow>
     (let live = live_tunnel rig no_offers [port_map local remote] []
      in round_trip [remote] local (bytes ''before'') (li_sys live) = Some [] \<and>
         (case serve_mutate rig
                 (\<lambda>c. Inr (with_shared c (shared_of c @ [(test_offer Tcp remote)\<lparr>o_name := lit ''added live''\<rparr>]))) live of
            None \<Rightarrow> False
          | Some live \<Rightarrow> round_trip [remote] local (bytes ''after'') (li_sys live) = Some (bytes ''after'')))"

definition withdrawing_a_port_at_runtime_refuses_new_streams :: "('id, 'l) Rig \<Rightarrow> u16 \<Rightarrow> u16 \<Rightarrow> bool" where
  "withdrawing_a_port_at_runtime_refuses_new_streams rig local remote \<longleftrightarrow>
     (let live = live_tunnel rig (tcp_offer remote) [port_map local remote] []
      in round_trip [remote] local (bytes ''hello'') (li_sys live) = Some (bytes ''hello'') \<and>
         (case serve_mutate rig (\<lambda>c. Inr (with_shared c (filter (\<lambda>o'. o_port o' \<noteq> remote) (shared_of c)))) live of
            None \<Rightarrow> False
          | Some live \<Rightarrow> round_trip [remote] local (bytes ''knock'') (li_sys live) = Some []))"

text \<open>The turn of the eviction task on a raw connection: the close code, if it closes it.\<close>

definition eviction_turn :: "nat \<Rightarrow> ('id, nat) ServeNode \<Rightarrow> (u32 \<times> rstring) option" where
  "eviction_turn k n =
     (case fmlookup (sn_conns n) k of
        None \<Rightarrow> None
      | Some c \<Rightarrow>
          if cn_phase c = ConnPhase.Serving \<and> 2 \<le> length (cn_evict c)
          then close_of k (fst (evict_look k c n)) else None)"

definition close_after_edit ::
  "('id, 'l) Rig \<Rightarrow> ('id Config \<Rightarrow> 'id error + 'id Config) \<Rightarrow> bool \<times> u32 option" where
  "close_after_edit rig f =
     (case dialed 0 (rg_client rig) (serve_start (shared_serve (rg_random rig) [rg_client rig] no_offers)) of
        (c, n) \<Rightarrow>
          (c = None,
           case test_mutate (rg_toml rig) f (sn_shared n, fmempty) of
             (Inl e, _, _) \<Rightarrow> None
           | (Inr _, sh, _) \<Rightarrow> map_option fst (eviction_turn 0 (publish sh n))))"

definition revoking_a_peer_closes_its_live_connection :: "('id, 'l) Rig \<Rightarrow> bool" where
  "revoking_a_peer_closes_its_live_connection rig \<longleftrightarrow>
     close_after_edit rig (\<lambda>c. Inr (with_peers c (filter (\<lambda>p. p_id p \<noteq> rg_client rig) (peers_of c)))) =
       (True, Some REFUSED)"

definition disabling_a_peer_closes_its_live_connection :: "('id, 'l) Rig \<Rightarrow> bool" where
  "disabling_a_peer_closes_its_live_connection rig \<longleftrightarrow>
     (let (admitted, close) = close_after_edit rig
        (\<lambda>c. Inr (with_peers c ((peers_of c)[0 := (peers_of c ! 0)\<lparr>p_enabled := False\<rparr>])))
      in admitted \<and> close \<noteq> None)"

lemma offering_a_port_at_runtime_makes_it_reachable:
  assumes "rig_ok rig" and "local \<noteq> 0" and "remote \<noteq> 0"
  shows "offering_a_port_at_runtime_makes_it_reachable rig local remote"
proof -
  have wf: "config_wf (sh_cfg (shared_connect (rg_random rig) [port_map local remote] []))"
    using assms(2,3) by (simp add: shared_connect_wf)
  let ?live = "live_tunnel rig no_offers [port_map local remote] []"
  note L = live_facts [OF assms(1) wf refl, where off = no_offers]
  obtain sock where b: "fmlookup (d_bound (sy_dial (li_sys ?live))) (Tcp, local) = Some (sock, remote)"
    using L(7) [of "port_map local remote"] by auto
  let ?f = "\<lambda>c. Inr (with_shared c (shared_of c @ [(test_offer Tcp remote)\<lparr>o_name := lit ''added live''\<rparr>]))"
  let ?c = "with_shared (cfg_now (sy_serve (li_sys ?live))) [(test_offer Tcp remote)\<lparr>o_name := lit ''added live''\<rparr>]"
  have f: "?f (cfg_now (sy_serve (li_sys ?live))) = Inr ?c" by (simp add: L(3))
  have cwf: "config_wf ?c" using assms(3)
    by (simp add: L(3) config_wf_def offers_wf_def offer_wf_def peers_wf_def peer_wf_def bindings_wf_def name_wf_def
        NAME_MAX_def is_control_def lit_def)
  have gr: "(Tcp, remote) \<in> rights ?c (rg_client rig)"
    by (simp add: L(3) rights_def cfg_peer_def offer_key_def)
  obtain live' where E: "serve_mutate rig ?f ?live = Some live'" "tunnel_up 0 (li_sys live')"
      "cfg_now (sy_serve (li_sys live')) = ?c" "sy_dial (li_sys live') = sy_dial (li_sys ?live)"
      "sy_me (li_sys live') = sy_me (li_sys ?live)"
    using serve_mutate_up [of rig 0 ?live ?f, OF assms(1) L(1) f cwf L(5) [unfolded temp_config_path_def]] by blast
  have "round_trip [remote] local (bytes ''after'') (li_sys live') = Some (bytes ''after'')"
    using round_trip_listening [OF E(2), of local sock remote] b E(3-5) gr by (simp add: L(2))
  with round_trip_listening [OF L(1) b] E(1) show ?thesis
    by (simp add: offering_a_port_at_runtime_makes_it_reachable_def L(2,3) shared_serve_rights)
qed

lemma withdrawing_a_port_at_runtime_refuses_new_streams:
  assumes "rig_ok rig" and "local \<noteq> 0" and "remote \<noteq> 0"
  shows "withdrawing_a_port_at_runtime_refuses_new_streams rig local remote"
proof -
  have wf: "config_wf (sh_cfg (shared_connect (rg_random rig) [port_map local remote] []))"
    using assms(2,3) by (simp add: shared_connect_wf)
  let ?live = "live_tunnel rig (tcp_offer remote) [port_map local remote] []"
  note L = live_facts [OF assms(1) wf refl, where off = "tcp_offer remote"]
  obtain sock where b: "fmlookup (d_bound (sy_dial (li_sys ?live))) (Tcp, local) = Some (sock, remote)"
    using L(7) [of "port_map local remote"] by auto
  let ?f = "\<lambda>c. Inr (with_shared c (filter (\<lambda>o'. o_port o' \<noteq> remote) (shared_of c)))"
  let ?c = "with_shared (cfg_now (sy_serve (li_sys ?live))) []"
  have f: "?f (cfg_now (sy_serve (li_sys ?live))) = Inr ?c" by (simp add: L(3))
  have cwf: "config_wf ?c"
    by (simp add: L(3) config_wf_def offers_wf_def peers_wf_def peer_wf_def bindings_wf_def)
  have gr: "(Tcp, remote) \<notin> rights ?c (rg_client rig)"
    by (simp add: L(3) rights_def cfg_peer_def)
  obtain live' where E: "serve_mutate rig ?f ?live = Some live'" "tunnel_up 0 (li_sys live')"
      "cfg_now (sy_serve (li_sys live')) = ?c" "sy_dial (li_sys live') = sy_dial (li_sys ?live)"
      "sy_me (li_sys live') = sy_me (li_sys ?live)"
    using serve_mutate_up [of rig 0 ?live ?f, OF assms(1) L(1) f cwf L(5) [unfolded temp_config_path_def]] by blast
  have "round_trip [remote] local (bytes ''knock'') (li_sys live') = Some []"
    using round_trip_listening [OF E(2), of local sock remote] b E(3-5) gr by (simp add: L(2))
  with round_trip_listening [OF L(1) b] E(1) show ?thesis
    by (simp add: withdrawing_a_port_at_runtime_refuses_new_streams_def L(2,3) shared_serve_rights)
qed

lemma close_after_edit_refused:
  assumes "rig_ok rig" and "f (sh_cfg (shared_serve (rg_random rig) [rg_client rig] no_offers)) = Inr c"
    and "config_wf c" and "\<not> admits c (rg_client rig)"
  shows "close_after_edit rig f = (True, Some REFUSED)"
proof -
  let ?ss = "shared_serve (rg_random rig) [rg_client rig] no_offers"
  obtain cl n where d: "dialed 0 (rg_client rig) (serve_start ?ss) = (cl, n)" by fastforce
  then have n: "cl = None" "cfg_now n = sh_cfg ?ss" "sh_path (sn_shared n) = temp_config_path (rg_random rig)"
    and "\<exists>k. fmlookup (sn_conns n) 0 = Some k \<and> cn_peer k = rg_client rig \<and> cn_phase k = ConnPhase.Serving \<and> cn_evict k = [sh_cfg ?ss]"
    by (auto simp: dialed_def accept_conn_def serve_start_def shared_serve_admits tasks_ready_def udp_subscribed_def
        evict_subscribed_def log_selected_def peer_connected_def split: option.splits)
  then obtain k where k: "fmlookup (sn_conns n) 0 = Some k" "cn_peer k = rg_client rig" "cn_phase k = ConnPhase.Serving"
      "cn_evict k = [sh_cfg ?ss]" by blast
  obtain t where t: "rg_toml rig c = Inr t" using rig_okD(1) [OF assms(1,3)] by blast
  obtain files where run: "test_mutate (rg_toml rig) f (sn_shared n, fmempty) =
      (Inr (), (sn_shared n)\<lparr>sh_cfg := c\<rparr>, files)"
    using test_mutate_ok [of f "sn_shared n" c _ _ "rg_toml rig" t fmempty] assms(2,3) n(2,3) t
    unfolding temp_config_path_def by metis
  show ?thesis
    using k assms(4)
    by (simp add: close_after_edit_def d n(1) run eviction_turn_def publish_def pending_def evict_look_def)
qed

lemma revoking_a_peer_closes_its_live_connection:
  assumes "rig_ok rig"
  shows "revoking_a_peer_closes_its_live_connection rig"
  unfolding revoking_a_peer_closes_its_live_connection_def
  by (rule close_after_edit_refused [OF assms,
        where c = "with_peers (sh_cfg (shared_serve (rg_random rig) [rg_client rig] no_offers)) []"])
    (simp_all add: config_wf_def offers_wf_def peers_wf_def bindings_wf_def admits_def cfg_peer_def)

lemma disabling_a_peer_closes_its_live_connection:
  assumes "rig_ok rig"
  shows "disabling_a_peer_closes_its_live_connection rig"
proof -
  let ?c = "with_peers (sh_cfg (shared_serve (rg_random rig) [rg_client rig] no_offers))
      [(test_peer (rg_client rig) [] True [])\<lparr>p_enabled := False\<rparr>]"
  have "close_after_edit rig
      (\<lambda>c. Inr (with_peers c ((peers_of c)[0 := (peers_of c ! 0)\<lparr>p_enabled := False\<rparr>]))) = (True, Some REFUSED)"
    by (rule close_after_edit_refused [OF assms, where c = ?c])
      (simp_all add: config_wf_def offers_wf_def peers_wf_def peer_wf_def bindings_wf_def admits_def cfg_peer_def)
  then show ?thesis by (simp add: disabling_a_peer_closes_its_live_connection_def)
qed

subsection \<open>Bindings\<close>

definition adding_a_binding_at_runtime_binds_and_forwards :: "('id, 'l) Rig \<Rightarrow> u16 \<Rightarrow> u16 \<Rightarrow> u16 \<Rightarrow> bool" where
  "adding_a_binding_at_runtime_binds_and_forwards rig first_local later_local remote \<longleftrightarrow>
     (let live = live_tunnel rig (tcp_offer remote) [port_map first_local remote] [];
          trip = round_trip [remote]
      in trip first_local (bytes ''one'') (li_sys live) = Some (bytes ''one'') \<and>
         trip later_local [] (li_sys live) = None \<and>
         (case connect_mutate rig
                 (\<lambda>c. Inr (with_bindings c
                    (bindings_of c @ [(test_binding Tcp later_local remote)\<lparr>b_name := lit ''added live''\<rparr>]))) live of
            None \<Rightarrow> False
          | Some live \<Rightarrow>
              trip later_local (bytes ''two'') (li_sys live) = Some (bytes ''two'') \<and>
              trip first_local (bytes ''three'') (li_sys live) = Some (bytes ''three'')))"

text \<open>A local port can be bound again once neither the table nor a forwarder holds its socket.\<close>

definition port_released :: "u16 \<Rightarrow> ('id, 'sock, 'l) System \<Rightarrow> bool" where
  "port_released port s \<longleftrightarrow>
     fmlookup (d_bound (sy_dial s)) (Tcp, port) = None \<and> answering port (d_tasks (sy_dial s)) = []"

definition removing_a_binding_releases_the_local_port :: "('id, 'l) Rig \<Rightarrow> u16 \<Rightarrow> u16 \<Rightarrow> bool" where
  "removing_a_binding_releases_the_local_port rig local remote \<longleftrightarrow>
     (let live = live_tunnel rig (tcp_offer remote) [port_map local remote] []
      in round_trip [remote] local (bytes ''hi'') (li_sys live) = Some (bytes ''hi'') \<and>
         bind_state (test_binding Tcp local remote) (d_shared (sy_dial (li_sys live))) = Some Listening \<and>
         (case connect_mutate rig (\<lambda>c. Inr (with_bindings c [])) live of
            None \<Rightarrow> False
          | Some live \<Rightarrow> port_released local (li_sys live)))"

definition enable_first :: "bool \<Rightarrow> 'id Config \<Rightarrow> 'id error + 'id Config" where
  "enable_first on c = Inr (with_bindings c ((bindings_of c)[0 := (bindings_of c ! 0)\<lparr>b_enabled := on\<rparr>]))"

definition a_binding_can_be_parked_and_restored :: "('id, 'l) Rig \<Rightarrow> u16 \<Rightarrow> u16 \<Rightarrow> bool" where
  "a_binding_can_be_parked_and_restored rig local remote \<longleftrightarrow>
     (let live = live_tunnel rig (tcp_offer remote) [port_map local remote] []
      in round_trip [remote] local (bytes ''up'') (li_sys live) = Some (bytes ''up'') \<and>
         (case connect_mutate rig (enable_first False) live of
            None \<Rightarrow> False
          | Some live \<Rightarrow>
              port_released local (li_sys live) \<and>
              length (bindings_of (sh_cfg (d_shared (sy_dial (li_sys live))))) = 1 \<and>
              (case connect_mutate rig (enable_first True) live of
                 None \<Rightarrow> False
               | Some live \<Rightarrow> round_trip [remote] local (bytes ''again'') (li_sys live) = Some (bytes ''again''))))"

lemma answering_none:
  assumes "tunnel_up k s" and "fmlookup (d_bound (sy_dial s)) (Tcp, port) = None"
  shows "port_released port s"
proof -
  have "m \<notin> set (answering port (d_tasks (sy_dial s)))" for m
    using forwarders_of_listeners [OF tunnel_upD(1) [OF assms(1)]] assms(2) by (auto simp: answering_mem)
  then show ?thesis using assms(2) unfolding port_released_def by (metis list.set_intros(1) neq_Nil_conv)
qed

text \<open>The standard tunnel of these tests and an edit of its bindings.\<close>

lemma rebind:
  fixes rig :: "('id, 'l) Rig"
  assumes "rig_ok rig" and "tunnel_up 0 (li_sys live)"
    and "sh_path (d_shared (sy_dial (li_sys live))) = temp_config_path (rg_random rig)"
    and "f (sh_cfg (d_shared (sy_dial (li_sys live)))) = Inr c" and "config_wf c"
    and "(Tcp, remote) \<in> rights (cfg_now (sy_serve (li_sys live))) (sy_me (li_sys live))"
  obtains live' where "connect_mutate rig f live = Some live'" and "tunnel_up 0 (li_sys live')"
    and "sh_cfg (d_shared (sy_dial (li_sys live'))) = c"
    and "sh_path (d_shared (sy_dial (li_sys live'))) = temp_config_path (rg_random rig)"
    and "(Tcp, remote) \<in> rights (cfg_now (sy_serve (li_sys live'))) (sy_me (li_sys live'))"
    and "\<And>b local x. b \<in> set (active_bindings c) \<Longrightarrow> binding_key b = (Tcp, local) \<Longrightarrow> b_remote b = remote \<Longrightarrow>
           round_trip [remote] local x (li_sys live') = Some x"
    and "\<And>port. (Tcp, port) \<notin> binding_key ` set (active_bindings c) \<Longrightarrow> port_released port (li_sys live')"
proof -
  obtain live' where E: "connect_mutate rig f live = Some live'" "tunnel_up 0 (li_sys live')"
      "sy_serve (li_sys live') = sy_serve (li_sys live)" "sy_me (li_sys live') = sy_me (li_sys live)"
      "sh_cfg (d_shared (sy_dial (li_sys live'))) = c"
      "sh_path (d_shared (sy_dial (li_sys live'))) = temp_config_path (rg_random rig)"
      "\<forall>b \<in> set (active_bindings c). \<exists>sock.
         fmlookup (d_bound (sy_dial (li_sys live'))) (binding_key b) = Some (sock, b_remote b)"
      "\<forall>key. key \<notin> binding_key ` set (active_bindings c) \<longrightarrow>
         fmlookup (d_bound (sy_dial (li_sys live'))) key = None"
    using connect_mutate_up [of rig 0 live f, OF assms(1,2,4,5) assms(3) [unfolded temp_config_path_def]]
    unfolding temp_config_path_def by blast
  show thesis
  proof (rule that [OF E(1,2,5,6)])
    show "(Tcp, remote) \<in> rights (cfg_now (sy_serve (li_sys live'))) (sy_me (li_sys live'))"
      using assms(6) by (simp add: E(3,4))
    show "round_trip [remote] local x (li_sys live') = Some x"
      if b: "b \<in> set (active_bindings c)" "binding_key b = (Tcp, local)" "b_remote b = remote" for b local x
    proof -
      obtain sock where "fmlookup (d_bound (sy_dial (li_sys live'))) (Tcp, local) = Some (sock, remote)"
        using E(7) b by metis
      from round_trip_listening [OF E(2) this] assms(6) show ?thesis by (simp add: E(3,4))
    qed
    show "port_released port (li_sys live')" if "(Tcp, port) \<notin> binding_key ` set (active_bindings c)" for port
      using answering_none [OF E(2)] E(8) that by blast
  qed
qed

lemma standard_tunnel:
  fixes rig :: "('id, 'l) Rig"
  assumes "rig_ok rig" and "local \<noteq> 0" and "remote \<noteq> 0"
    and live: "live = live_tunnel rig (tcp_offer remote) [port_map local remote] []"
  shows "tunnel_up 0 (li_sys live)"
    and "sh_path (d_shared (sy_dial (li_sys live))) = temp_config_path (rg_random rig)"
    and "bindings_of (sh_cfg (d_shared (sy_dial (li_sys live)))) = [test_binding Tcp local remote]"
    and "shared_of (sh_cfg (d_shared (sy_dial (li_sys live)))) = []"
    and "peers_of (sh_cfg (d_shared (sy_dial (li_sys live)))) = []"
    and "(Tcp, remote) \<in> rights (cfg_now (sy_serve (li_sys live))) (sy_me (li_sys live))"
    and "round_trip [remote] local x (li_sys live) = Some x"
    and "port \<noteq> local \<Longrightarrow> round_trip [remote] port x (li_sys live) = None"
    and "bind_state (test_binding Tcp local remote) (d_shared (sy_dial (li_sys live))) = Some Listening"
proof -
  have wf: "config_wf (sh_cfg (shared_connect (rg_random rig) [port_map local remote] []))"
    using assms(2,3) by (simp add: shared_connect_wf)
  note L = live_facts [OF assms(1) wf live]
  show "tunnel_up 0 (li_sys live)" "sh_path (d_shared (sy_dial (li_sys live))) = temp_config_path (rg_random rig)"
    by (rule L)+
  show "bindings_of (sh_cfg (d_shared (sy_dial (li_sys live)))) = [test_binding Tcp local remote]"
    and "shared_of (sh_cfg (d_shared (sy_dial (li_sys live)))) = []"
    and "peers_of (sh_cfg (d_shared (sy_dial (li_sys live)))) = []"
    by (simp_all add: L(4))
  show gr: "(Tcp, remote) \<in> rights (cfg_now (sy_serve (li_sys live))) (sy_me (li_sys live))"
    by (simp add: L(2,3) shared_serve_rights)
  obtain sock where b: "fmlookup (d_bound (sy_dial (li_sys live))) (Tcp, local) = Some (sock, remote)"
    using L(7) [of "port_map local remote"] by auto
  from round_trip_listening [OF L(1) b] gr show "round_trip [remote] local x (li_sys live) = Some x" by simp
  show "port \<noteq> local \<Longrightarrow> round_trip [remote] port x (li_sys live) = None"
    using L(9) [of port] by (simp add: round_trip_nobody [OF L(1)])
  show "bind_state (test_binding Tcp local remote) (d_shared (sy_dial (li_sys live))) = Some Listening"
    using bound_okD [OF _ b, of "d_shared (sy_dial (li_sys live))"] tunnel_upD(1) [OF L(1)]
    by (simp add: dial_inv_def bind_state_def)
qed

lemma removing_a_binding_releases_the_local_port:
  assumes "rig_ok rig" and "local \<noteq> 0" and "remote \<noteq> 0"
  shows "removing_a_binding_releases_the_local_port rig local remote"
proof -
  let ?live = "live_tunnel rig (tcp_offer remote) [port_map local remote] []"
  note S = standard_tunnel [OF assms refl]
  let ?f = "\<lambda>c. Inr (with_bindings c [])" and ?c = "with_bindings (sh_cfg (d_shared (sy_dial (li_sys ?live)))) []"
  have wf: "config_wf ?c" using S(4,5) by (simp add: config_wf_def offers_wf_def peers_wf_def bindings_wf_def)
  show ?thesis
    by (rule rebind [of rig ?live ?f ?c remote, OF assms(1) S(1,2) refl wf S(6)])
      (simp add: removing_a_binding_releases_the_local_port_def S(7,9) active_bindings_def)
qed

lemma adding_a_binding_at_runtime_binds_and_forwards:
  assumes "rig_ok rig" and "first_local \<noteq> 0" and "later_local \<noteq> 0" and "remote \<noteq> 0" and "later_local \<noteq> first_local"
  shows "adding_a_binding_at_runtime_binds_and_forwards rig first_local later_local remote"
proof -
  let ?live = "live_tunnel rig (tcp_offer remote) [port_map first_local remote] []"
  note S = standard_tunnel [OF assms(1,2,4) refl]
  let ?later = "(test_binding Tcp later_local remote)\<lparr>b_name := lit ''added live''\<rparr>"
  let ?f = "\<lambda>c. Inr (with_bindings c (bindings_of c @ [?later]))"
  let ?c = "with_bindings (sh_cfg (d_shared (sy_dial (li_sys ?live)))) [test_binding Tcp first_local remote, ?later]"
  have f: "?f (sh_cfg (d_shared (sy_dial (li_sys ?live)))) = Inr ?c" by (simp add: S(3))
  have wf: "config_wf ?c" using S(4,5) assms(2-5)
    by (simp add: config_wf_def offers_wf_def peers_wf_def bindings_wf_def binding_wf_def binding_key_def name_wf_def
        NAME_MAX_def is_control_def lit_def)
  show ?thesis
  proof (rule rebind [of rig ?live ?f ?c remote, OF assms(1) S(1,2) f wf S(6)])
    fix live'
    assume E: "connect_mutate rig ?f ?live = Some live'"
      and R: "\<And>b local x. b \<in> set (active_bindings ?c) \<Longrightarrow> binding_key b = (Tcp, local) \<Longrightarrow> b_remote b = remote \<Longrightarrow>
        round_trip [remote] local x (li_sys live') = Some x"
    have "round_trip [remote] later_local x (li_sys live') = Some x"
      and "round_trip [remote] first_local x (li_sys live') = Some x" for x
      using R [of ?later later_local x] R [of "test_binding Tcp first_local remote" first_local x]
      by (simp_all add: active_bindings_def binding_key_def)
    with E S(7) S(8) [OF assms(5)] show ?thesis
      by (simp add: adding_a_binding_at_runtime_binds_and_forwards_def)
  qed
qed

lemma a_binding_can_be_parked_and_restored:
  assumes "rig_ok rig" and "local \<noteq> 0" and "remote \<noteq> 0"
  shows "a_binding_can_be_parked_and_restored rig local remote"
proof -
  let ?live = "live_tunnel rig (tcp_offer remote) [port_map local remote] []"
  note S = standard_tunnel [OF assms refl]
  let ?b = "\<lambda>on. (test_binding Tcp local remote)\<lparr>b_enabled := on\<rparr>"
  let ?c = "\<lambda>on. with_bindings (sh_cfg (d_shared (sy_dial (li_sys ?live)))) [?b on]"
  have wf: "config_wf (?c on)" for on using S(4,5) assms(2,3)
    by (simp add: config_wf_def offers_wf_def peers_wf_def bindings_wf_def binding_wf_def)
  have f: "enable_first False (sh_cfg (d_shared (sy_dial (li_sys ?live)))) = Inr (?c False)"
    by (simp add: enable_first_def S(3))
  show ?thesis
  proof (rule rebind [of rig ?live "enable_first False" "?c False" remote, OF assms(1) S(1,2) f wf S(6)])
    fix live'
    assume P: "connect_mutate rig (enable_first False) ?live = Some live'" "tunnel_up 0 (li_sys live')"
      "sh_cfg (d_shared (sy_dial (li_sys live'))) = ?c False"
      "sh_path (d_shared (sy_dial (li_sys live'))) = temp_config_path (rg_random rig)"
      "(Tcp, remote) \<in> rights (cfg_now (sy_serve (li_sys live'))) (sy_me (li_sys live'))"
      and free: "\<And>port. (Tcp, port) \<notin> binding_key ` set (active_bindings (?c False)) \<Longrightarrow> port_released port (li_sys live')"
    have g: "enable_first True (sh_cfg (d_shared (sy_dial (li_sys live')))) = Inr (?c True)"
      by (simp add: enable_first_def P(3) with_bindings_def)
    have released: "port_released local (li_sys live')" using free [of local] by (simp add: active_bindings_def)
    show ?thesis
    proof (rule rebind [of rig live' "enable_first True" "?c True" remote, OF assms(1) P(2,4) g wf P(5)])
      fix live2
      assume Q: "connect_mutate rig (enable_first True) live' = Some live2"
        and R: "\<And>b local x. b \<in> set (active_bindings (?c True)) \<Longrightarrow> binding_key b = (Tcp, local) \<Longrightarrow>
          b_remote b = remote \<Longrightarrow> round_trip [remote] local x (li_sys live2) = Some x"
      have "round_trip [remote] local x (li_sys live2) = Some x" for x
        using R [of "?b True" local x] by (simp add: active_bindings_def binding_key_def)
      with released P(1,3) Q S(7) show ?thesis
        by (simp add: a_binding_can_be_parked_and_restored_def)
    qed
  qed
qed

subsection \<open>Two clients\<close>

text \<open>The second client connects while the first one is served by the same node.\<close>

definition a_per_peer_grant_does_not_leak_to_another_peer ::
  "('id, 'l) Rig \<Rightarrow> 'id \<Rightarrow> u16 \<Rightarrow> u16 \<Rightarrow> u16 \<Rightarrow> bool" where
  "a_per_peer_grant_does_not_leak_to_another_peer rig other granted_local other_local remote \<longleftrightarrow>
     (let cfg = with_peers default_config
            [test_peer (rg_client rig) ''granted'' True [test_offer Tcp remote], test_peer other ''other'' True []];
          sv = shared_new cfg (temp_config_path (rg_random rig)) RoleServe 0;
          start = (\<lambda>who local. sys_start (rg_os rig) who (rg_server rig) sv
            (shared_connect (rg_random rig) [port_map local remote] []) :: ('id, nat, 'l) System);
          a = opened 0 (start (rg_client rig) granted_local);
          b = opened 1 ((start other other_local)\<lparr>sy_serve := sy_serve a\<rparr>)
      in round_trip [remote] granted_local (bytes ''mine'') (a\<lparr>sy_serve := sy_serve b\<rparr>) = Some (bytes ''mine'') \<and>
         round_trip [remote] other_local (bytes ''theirs'') b = Some [])"

lemma opened_conns:
  assumes "j \<noteq> k"
  shows "fmlookup (sn_conns (sy_serve (opened k s))) j = fmlookup (sn_conns (sy_serve s)) j"
  using assms by (auto simp: opened_def accept_conn_def tasks_ready_def evict_subscribed_def udp_subscribed_def
      split: prod.splits option.splits if_splits)

lemma other_node_inv:
  assumes "sys_inv s" and "cfg_now n = cfg_now (sy_serve s)"
    and "\<forall>k \<in> set (sy_used s). fmlookup (sn_conns n) k = fmlookup (sn_conns (sy_serve s)) k"
  shows "sys_inv (s\<lparr>sy_serve := n\<rparr>)"
  using assms by (auto simp: sys_inv_def client_ok_def server_ok_def traffic_ok_def link_ok_def refused_once_def
      split: link.splits)

lemma a_per_peer_grant_does_not_leak_to_another_peer:
  fixes rig :: "('id, 'l) Rig"
  assumes "rig_ok rig" and "granted_local \<noteq> 0" and "other_local \<noteq> 0" and "remote \<noteq> 0" and "other \<noteq> rg_client rig"
  shows "a_per_peer_grant_does_not_leak_to_another_peer rig other granted_local other_local remote"
proof -
  define cfg where "cfg = with_peers default_config
    [test_peer (rg_client rig) ''granted'' True [test_offer Tcp remote], test_peer other ''other'' True []]"
  define sv where "sv = shared_new cfg (temp_config_path (rg_random rig)) RoleServe 0"
  define start :: "'id \<Rightarrow> u16 \<Rightarrow> ('id, nat, 'l) System" where
    "start = (\<lambda>who local. sys_start (rg_os rig) who (rg_server rig) sv
       (shared_connect (rg_random rig) [port_map local remote] []))"
  define a where "a = opened 0 (start (rg_client rig) granted_local)"
  define b0 where "b0 = (start other other_local)\<lparr>sy_serve := sy_serve a\<rparr>"
  define b where "b = opened 1 b0"
  have sv: "sh_cfg sv = cfg" by (simp add: sv_def shared_new_def)
  have rights: "(Tcp, remote) \<in> rights cfg (rg_client rig)" "(Tcp, remote) \<notin> rights cfg other"
      "admits cfg (rg_client rig)" "admits cfg other"
    using assms(5) by (simp_all add: cfg_def rights_def admits_def cfg_peer_def offer_key_def)
  have wf: "config_wf (sh_cfg (shared_connect (rg_random rig) [port_map local remote] []))" if "local \<noteq> 0" for local
    using that assms(4) by (simp add: shared_connect_wf)
  have S: "sys_inv (start who local)" "d_phase (sy_dial (start who local)) = dial_phase.Dialing"
      "\<exists>sock. fmlookup (d_bound (sy_dial (start who local))) (Tcp, local) = Some (sock, remote)"
    if l: "local \<noteq> 0" for who local
  proof -
    note F = started_facts [OF assms(1) wf [OF l], where me = who and peer = "rg_server rig" and ss = sv and
        ?s0.0 = "start who local", simplified]
    show "sys_inv (start who local)" "d_phase (sy_dial (start who local)) = dial_phase.Dialing"
      using F(1,2) by (simp_all add: start_def)
    show "\<exists>sock. fmlookup (d_bound (sy_dial (start who local))) (Tcp, local) = Some (sock, remote)"
      using F(5) [of "test_binding Tcp local remote"]
      by (simp add: start_def active_bindings_def binding_key_def)
  qed
  have base: "sy_me (start who local) = who" "sy_used (start who local) = []" "sn_conns (sy_serve (start who local)) = fmempty"
      "cfg_now (sy_serve (start who local)) = cfg" "sy_scfgs (start who local) = [cfg]" for who local
    by (simp_all add: start_def sys_start_def serve_start_def sv)
  have up_a: "tunnel_up 0 a" unfolding a_def
    by (rule opened_up) (simp_all add: S assms(2) base rights)
  have conn_b0: "fmlookup (sn_conns (sy_serve b0)) 1 = None" by (simp add: b0_def a_def opened_conns base)
  have inv_b0: "sys_inv b0" unfolding b0_def
    by (rule other_node_inv) (simp_all add: S assms(3) base a_def opened_frame)
  have up_b: "tunnel_up 1 b" unfolding b_def
    by (rule opened_up [OF inv_b0 _ _ conn_b0]) (simp_all add: b0_def S assms(3) base a_def opened_frame rights)
  have used: "sy_used a = [0]" by (simp add: a_def opened_def base split: prod.splits)
  have up_a': "tunnel_up 0 (a\<lparr>sy_serve := sy_serve b\<rparr>)"
    using up_a other_node_inv [of a "sy_serve b"]
    by (simp add: tunnel_up_def used b_def opened_conns opened_frame b0_def)
  obtain sa where "fmlookup (d_bound (sy_dial (a\<lparr>sy_serve := sy_serve b\<rparr>))) (Tcp, granted_local) = Some (sa, remote)"
    using S(3) [OF assms(2)] by (auto simp: a_def opened_frame)
  note trip_a = round_trip_listening [OF up_a' this]
  obtain sb where "fmlookup (d_bound (sy_dial b)) (Tcp, other_local) = Some (sb, remote)"
    using S(3) [OF assms(3)] by (auto simp: b_def b0_def opened_frame)
  note trip_b = round_trip_listening [OF up_b this]
  have "round_trip [remote] granted_local x (a\<lparr>sy_serve := sy_serve b\<rparr>) = Some x"
    and "round_trip [remote] other_local x b = Some []" for x
    unfolding trip_a trip_b by (simp_all add: b_def b0_def a_def opened_frame base rights)
  then show ?thesis
    unfolding a_per_peer_grant_does_not_leak_to_another_peer_def Let_def b_def b0_def a_def start_def sv_def cfg_def
    by blast
qed

section \<open>Waiting for the far side\<close>

text \<open>
  Times in nanoseconds. A sleep lasts at least what it is asked for; here exactly that. \<open>None\<close> is the
  panic at the deadline.
\<close>

definition PATIENCE :: nat where
  "PATIENCE = 10 * SEC"

definition POLL :: nat where
  "POLL = 25000000"

function eventually_by :: "nat \<Rightarrow> (nat \<Rightarrow> bool) \<Rightarrow> nat \<Rightarrow> nat option" where
  "eventually_by deadline cond now =
     (if now < deadline then (if cond now then Some now else eventually_by deadline cond (now + POLL)) else None)"
  by auto
termination
  by (relation "measure (\<lambda>(deadline, cond, now). deadline - now)") (simp_all add: POLL_def)

function retry_connect :: "nat \<Rightarrow> (nat \<Rightarrow> bool) \<Rightarrow> nat \<Rightarrow> nat option" where
  "retry_connect deadline listening now =
     (if listening now then Some now
      else if now < deadline then retry_connect deadline listening (now + POLL) else None)"
  by auto
termination
  by (relation "measure (\<lambda>(deadline, listening, now). deadline - now)") (simp_all add: POLL_def)

declare eventually_by.simps [simp del] retry_connect.simps [simp del]

lemma all_nat_split: "(\<forall>k :: nat. P k) \<longleftrightarrow> P 0 \<and> (\<forall>k. P (Suc k))"
  by (metis not0_implies_Suc)

text \<open>
  What becomes true and stays so within the patience of a test is seen; a wait that fails has seen it
  false at every poll.
\<close>

lemma eventually_by_sees:
  assumes "\<And>t. since \<le> t \<Longrightarrow> cond t" and "since + POLL \<le> deadline" and "now < deadline"
  shows "\<exists>t. eventually_by deadline cond now = Some t \<and> cond t \<and> t < deadline"
  using assms
proof (induction deadline cond now rule: eventually_by.induct)
  case (1 deadline cond now)
  show ?case
  proof (cases "cond now")
    case True
    with 1(4) show ?thesis by (simp add: eventually_by.simps)
  next
    case False
    with 1(2) [of now] have "now < since" by force
    with 1(3) have "now + POLL < deadline" by simp
    with 1 False show ?thesis by (subst eventually_by.simps) simp
  qed
qed

lemma eventually_by_panics:
  "eventually_by deadline cond now = None \<longleftrightarrow> (\<forall>k. now + k * POLL < deadline \<longrightarrow> \<not> cond (now + k * POLL))"
proof (induction deadline cond now rule: eventually_by.induct)
  case (1 deadline cond now)
  have split: "(\<forall>k. now + k * POLL < deadline \<longrightarrow> \<not> cond (now + k * POLL)) \<longleftrightarrow>
      (now < deadline \<longrightarrow> \<not> cond now) \<and>
      (\<forall>k. now + POLL + k * POLL < deadline \<longrightarrow> \<not> cond (now + POLL + k * POLL))"
    by (subst all_nat_split) (simp add: add.assoc)
  show ?case
    unfolding split using 1 by (subst eventually_by.simps) auto
qed

text \<open>A listener that comes up before the last poll is reached, and the first poll needs no time left.\<close>

lemma retry_connect_reaches:
  assumes "\<And>t. since \<le> t \<Longrightarrow> listening t" and "since \<le> deadline"
  shows "\<exists>t. retry_connect deadline listening now = Some t \<and> listening t"
  using assms
proof (induction deadline listening now rule: retry_connect.induct)
  case (1 deadline listening now)
  show ?case
  proof (cases "listening now")
    case True
    then show ?thesis by (simp add: retry_connect.simps)
  next
    case False
    with 1(2) [of now] have "now < since" by force
    with 1(3) have "now < deadline" by simp
    with 1 False show ?thesis by (subst retry_connect.simps) simp
  qed
qed

section \<open>The suite\<close>


definition demo_rig :: "(nat, nat) Rig" where
  "demo_rig = \<lparr>rg_server = 9, rg_client = 1, rg_os = (\<lambda>_ port. Inr (unat port)), rg_random = [], rg_toml = (\<lambda>_. Inr [])\<rparr>"


end
