(* ===== verification/Spec2Isabelle.thy ===== *)
theory Spec2Isabelle
  imports Startup Dial_Loop Tunnel Registry Tcp_Path Hosted Pumps Both_Sides Udp_Sides Accept_Loops Secrets Unit_Tests
    Tunnel_Tests
begin

text \<open>
  \<^bold>\<open>A verification library for rtun\<close>, the program under \<open>src/src\<close>: it forwards TCP and UDP
  ports between two machines over one QUIC connection. The machine that offers ports runs
  \<open>rtun serve\<close>, the one that reaches them \<open>rtun connect\<close>; both can be administered through a
  small HTTP panel.

  \<^bold>\<open>The program and its theories.\<close>

  \<^item> \<open>proto.rs\<close>, the wire framing: \<open>Wire\<close>. The stream operations are arguments.
  \<^item> \<open>config.rs\<close>, the configuration: \<open>Config\<close> has the data (one record per struct), the validators,
    the access policy and the seeding from flags; \<open>Persist\<close> has the file, the admin token and the
    comparison of tokens. The shared small types (\<open>Proto\<close>, \<open>PortMap\<close>, the errors) are in
    \<open>Rtun_Types\<close>, the parts of Rust's \<open>str\<close> the program uses in \<open>Rust_Str\<close>.
  \<^item> \<open>state.rs\<close>, the shared state: \<open>State\<close>. \<open>mutate\<close> is the one writer of the configuration; the
    runtime record holds the connected peers and the state of the listeners.
  \<^item> \<open>serve.rs\<close>, the offering side: \<open>Serve_Side\<close>, each operation first, then the node as the step
    relation \<open>serve_step\<close>, in which edits, admissions, subscriptions, streams, datagrams, replies,
    reapings and ends of connections interleave freely.
  \<^item> \<open>connect.rs\<close>, the reaching side: \<open>Connect_Side\<close> has the listeners and the UDP session table,
    \<open>Dial_Loop\<close> the loop around them as the step relation \<open>dial_step\<close>. The idle timer of both
    session tables is the locale \<open>idle_table\<close> of \<open>Idle_Table\<close>.
  \<^item> \<open>admin.rs\<close>, the panel's API: \<open>Admin\<close>, over the three list edits of \<open>Keyed_Edits\<close>. \<open>Registry\<close> is
    its abstract specification, nine edits of a registry of maps, and the refinement.
  \<^item> \<open>main.rs\<close>: \<open>Cli\<close> (state directory, endpoint key) and \<open>Startup\<close> (the commands up to the data
    plane); \<open>Paths\<close> is the report of the network path.
  \<^item> \<open>Pumps\<close> has the UDP tasks of both sides as whole loops, with a reference for the session ids.
  \<^item> \<open>Tunnel\<close> puts both ends of the UDP path together with the network between them, \<open>Tcp_Path\<close> both
    ends of the TCP path. \<open>Hosted\<close> is a whole process: a role, the panel's requests and the file.
  \<^item> \<open>Both_Sides\<close> is both processes with the QUIC link between them, as the step relation \<open>sys_step\<close>:
    every step of either side, the handshake, the admission, the close frame that carries a refusal,
    the loss of the link, and the streams of the TCP path (\<open>link_step\<close> has the steps that are not the
    offering side's own). Each side keeps the history of the configurations it has run.
  \<^item> \<open>Udp_Sides\<close> adds the datagrams of every connection to it, as the step relation \<open>whole_step\<close>: which
    pump can run is decided by the listeners and the link, under which configuration a datagram is
    handled by the node, and a change of the listeners replaces the session table of the forwarders.
  \<^item> \<open>Secrets\<close> has the key and the token of a Unix build as system calls on files with permission
    bits and a creation mask; without the bits it is \<open>write_key\<close> of \<open>Cli\<close> and \<open>write_secret\<close> of
    \<open>Persist\<close> (\<open>secrets_refine_files\<close>).
  \<^item> \<open>Accept_Loops\<close> has the accept loops of \<open>serve_conn\<close> and of the panel, whose accepted requests,
    in any number and order, keep the running configuration valid and equal to the file.
  \<^item> \<open>Unit_Tests\<close> has the unit tests of \<open>proto.rs\<close>, \<open>main.rs\<close>, \<open>config.rs\<close> and \<open>state.rs\<close>,
    \<open>Tunnel_Tests\<close> the integration tests of \<open>tunnel.rs\<close>, each test as the Boolean of its assertions
    over the model, and a lemma of the same name that it holds.
  \<^item> \<open>Prelude\<close>: machine integers, the \<open>Result\<close> type, loops, hash maps.

  \<^bold>\<open>Interfaces.\<close> What one part relies on in another is a locale, interpreted on the code's model:
  \<open>be_codec\<close> (big-endian integers), \<open>access_policy\<close> (the ports granted are the rights),
  \<open>config_store\<close> (an accepted edit is running and on disk, a refused one is neither), \<open>idle_table\<close>,
  \<open>keyed_edits\<close> (what an edit does to the look-up by key), \<open>flag_seed\<close> (a second seeding adds
  nothing), \<open>hosted_role\<close> (what the panel relies on in the role beside it).

  \<^bold>\<open>What is shown.\<close> Of the framing, that it is unambiguous and loses nothing. Of the policy, that
  the ports granted are exactly the enabled shared and own offers of an enabled peer, and that a
  grant does not leak. Of the file, that a save is atomic under failures and crashes and that the
  running configuration is always the one on disk, from the start of the program on; of the key,
  that nobody but its owner can read it, not for an instant. Of the
  offering side, that in every interleaving no stream and no payload reaches a port the peer was
  not granted, that revocation closes what it revokes once the tasks have subscribed, and how long a session lives. Of
  the reaching side, that listeners and forwarders are exactly the configured ones, that session
  ids are unique, number the clients in the order they first wrote and bring replies to their owner, and when the loop retries or gives up. Of the
  panel, that nothing changes without the token, that its answers are true and that an accepted
  request is exactly one edit of the abstract registry. Of both ends together, that what a service
  receives was sent to it by a client, and the reverse; of both processes, that what a stream brings
  to a service was asked for by a client of a configured binding and is granted at that moment, that
  what both sides have configured can be reached from every state of a loop that has not exited,
  with no edit and no restart, and that the loop ends by a close of the peer only when it was not
  admitted. For datagrams, that each connection of the running processes whose forwarders were not
  started again is a run of the tunnel, so that payloads reach the port they were sent to and replies
  the client that asked, through a listener that is bound; that even otherwise a payload that is
  delivered was sent to a granted port of a configured binding; and that a packet for a granted port
  gets through in at most three steps. Of the start, that a role runs the valid
  configuration that is on disk and that a restart changes nothing; of the whole process, that this
  stays so under every request of the panel, and what the tunnel opens is what the file says.

  \<^bold>\<open>What fails\<close> is stated too: \<open>revocation_missed\<close>, \<open>second_connection_hidden\<close>,
  \<open>header_port_not_session_port\<close>, \<open>reply_error_silences_session\<close> (\<open>Serve_Side\<close>),
  \<open>established_path_is_dropped\<close>, \<open>failed_report_outlives_binding\<close> (\<open>Dial_Loop\<close>),
  \<open>respawn_crosses_sessions\<close> and \<open>listeners_share_sessions\<close> (\<open>Tunnel\<close>), \<open>accept_error\<close>
  (\<open>Accept_Loops\<close>), \<open>token_in_readable_file\<close> and \<open>key_crash_needs_deletion\<close> (\<open>Secrets\<close>) show limits of
  the code.

  \<^bold>\<open>Bounds.\<close> Every function is total, no fuel is used. Ports are 16-bit and session ids 32-bit
  words; properties of ids are for fewer than \<open>2 ^ 32\<close> operations on one table, after which the
  counter wraps (the code panics there in a debug build). Time is a natural number of nanoseconds.

  \<^bold>\<open>Parameters.\<close> The endpoint id is a type variable. The TOML and JSON libraries, the random
  generator, the operating system's outcome for each file, socket and listener operation, the QUIC
  streams and the network are arguments or, in a step relation, arbitrary. The laws used of them:
  TOML parses what it printed; \<open>write_all\<close> and \<open>read_exact\<close> move bytes in order; a freshly bound
  socket is not one already open.

  \<^bold>\<open>Not modelled.\<close> The parsing of HTTP (\<open>hyper\<close>), the argument
  parser, logging, the copying of a TCP stream (\<open>copy_bidirectional\<close> of \<open>tokio\<close>), the page \<open>admin/index.html\<close>
  and the packaging. File modes are modelled for the two secrets only: \<open>config.toml\<close> is written with
  the default mode. Of the tests, the endpoints are not modelled and the turns a test waits for are
  written out (its polling loops are separate definitions, which terminate); the laws of the TOML
  library are hypotheses of the tests that run it.
\<close>

end
